(* ===== verification/Prelude_C.thy ===== *)
theory Prelude_C
  imports Main "HOL-Library.Word"
begin

text \<open>
  Shared vocabulary of the development: the C integer conversions the sources rely on,
  little-endian byte encodings, C strings, \<open>atoi\<close>, the errno values that are tested,
  a block/offset memory with scatter and gather (what \<open>readv\<close> and \<open>writev\<close> do),
  and the generic lemmas on lists that the components share. A C \<open>int\<close> is an \<open>int\<close>
  and every conversion or operation that can leave its range goes through
  \<open>to_i32\<close> or \<open>to_size\<close>; a byte is an \<open>8 word\<close>.
\<close>

named_theorems c_conv \<open>conversions that are the identity on values in range\<close>
named_theorems mem_simps \<open>scatter and gather over lists of addresses\<close>

section \<open>C integers\<close>

type_synonym byte = "8 word"

definition to_i32 :: "int \<Rightarrow> int" where
  "to_i32 x = (x + 2147483648) mod 4294967296 - 2147483648"

definition to_size :: "int \<Rightarrow> int" where
  "to_size x = x mod 18446744073709551616"

definition in_i32 :: "int \<Rightarrow> bool" where
  "in_i32 x \<longleftrightarrow> - 2147483648 \<le> x \<and> x < 2147483648"

lemma to_i32_id [c_conv]: "in_i32 x \<Longrightarrow> to_i32 x = x"
  by (simp add: to_i32_def in_i32_def)

lemma to_i32_nonneg [c_conv]: "0 \<le> x \<Longrightarrow> x < 2147483648 \<Longrightarrow> to_i32 x = x"
  by (simp add: to_i32_def)

lemma to_size_nonneg [c_conv]: "0 \<le> x \<Longrightarrow> x < 18446744073709551616 \<Longrightarrow> to_size x = x"
  by (simp add: to_size_def)

lemma to_i32_range [simp, intro]: "in_i32 (to_i32 x)"
  by (simp add: to_i32_def in_i32_def)

lemma to_i32_idem [simp]: "to_i32 (to_i32 x) = to_i32 x"
  by (simp add: to_i32_id)

lemma to_i32_mod: "to_i32 (x mod 4294967296) = to_i32 x"
  by (simp add: to_i32_def mod_simps)

lemma to_i32_cong: "x mod 4294967296 = y mod 4294967296 \<Longrightarrow> to_i32 x = to_i32 y"
  by (metis to_i32_mod)

lemma to_i32_mod_eq: "to_i32 x mod 4294967296 = x mod 4294967296"
  by (simp add: to_i32_def mod_simps)

lemma to_i32_add: "to_i32 (to_i32 a + to_i32 b) = to_i32 (a + b)"
  by (rule to_i32_cong) (metis mod_add_eq to_i32_mod_eq)

section \<open>errno\<close>

abbreviation (input) EINTR :: int where "EINTR \<equiv> 4"
abbreviation (input) EBADF :: int where "EBADF \<equiv> 9"
abbreviation (input) EAGAIN :: int where "EAGAIN \<equiv> 11"
abbreviation (input) EWOULDBLOCK :: int where "EWOULDBLOCK \<equiv> 11"
abbreviation (input) ECANCELED :: int where "ECANCELED \<equiv> 125"

section \<open>Faults\<close>

text \<open>
  A write past a buffer, an index outside an array, a null pointer that is read and a failed
  \<open>assert\<close> are values.
\<close>

datatype fault = Overflow | Bad_Index | Null_Deref | Assertion

fun bindE :: "fault + 'a \<Rightarrow> ('a \<Rightarrow> fault + 'b) \<Rightarrow> fault + 'b" where
  "bindE (Inl e) f = Inl e"
| "bindE (Inr x) f = f x"

lemma bindE_Inr_iff: "bindE m f = Inr y \<longleftrightarrow> (\<exists>x. m = Inr x \<and> f x = Inr y)"
  by (cases m) auto

lemma bindE_Inl_iff: "bindE m f = Inl e \<longleftrightarrow> m = Inl e \<or> (\<exists>x. m = Inr x \<and> f x = Inl e)"
  by (cases m) auto

section \<open>Little-endian encodings\<close>

definition enc32 :: "int \<Rightarrow> byte list" where
  "enc32 x = [word_of_int x, word_of_int (x div 256),
     word_of_int (x div 65536), word_of_int (x div 16777216)]"

definition dec32 :: "byte list \<Rightarrow> int" where
  "dec32 bs = to_i32 (uint (bs ! 0) + 256 * uint (bs ! 1) + 65536 * uint (bs ! 2)
     + 16777216 * uint (bs ! 3))"

lemma length_enc32 [simp]: "length (enc32 x) = 4"
  by (simp add: enc32_def)

lemma uint_byte: "uint (word_of_int x :: byte) = x mod 256"
  by (simp add: uint_word_of_int)

lemma bytes_sum32:
  "x mod 256 + 256 * (x div 256 mod 256) + 65536 * (x div 65536 mod 256)
     + 16777216 * (x div 16777216 mod 256) = (x :: int) mod 4294967296"
proof -
  have d: "x div 256 div 256 = x div 65536" "x div 65536 div 256 = x div 16777216"
    using zdiv_zmult2_eq [of 256 x 256] zdiv_zmult2_eq [of 256 x 65536] by simp_all
  have a: "x mod 4294967296 = 256 * (x div 256 mod 16777216) + x mod 256"
    using zmod_zmult2_eq [of 16777216 x 256] by simp
  have b: "x div 256 mod 16777216 = 256 * (x div 65536 mod 65536) + x div 256 mod 256"
    using zmod_zmult2_eq [of 65536 "x div 256" 256] d(1) by simp
  have c: "x div 65536 mod 65536 = 256 * (x div 16777216 mod 256) + x div 65536 mod 256"
    using zmod_zmult2_eq [of 256 "x div 65536" 256] d(2) by simp
  from a b c show ?thesis by linarith
qed

lemma dec32_enc32: "dec32 (enc32 x) = to_i32 x"
  by (simp add: dec32_def enc32_def uint_byte bytes_sum32 to_i32_mod)

lemma dec32_enc32_append: "dec32 (enc32 x @ bs) = to_i32 x"
proof -
  have "dec32 (enc32 x @ bs) = dec32 (enc32 x)"
    by (simp add: dec32_def enc32_def)
  then show ?thesis by (simp add: dec32_enc32)
qed

lemma length_concat_enc32 [simp]: "length (concat (map enc32 xs)) = 4 * length xs"
  by (induction xs) auto

lemma dec32_concat_nth:
  "i < length xs \<Longrightarrow> dec32 (drop (4 * i) (concat (map enc32 xs))) = to_i32 (xs ! i)"
proof (induction xs arbitrary: i)
  case Nil
  then show ?case by simp
next
  case (Cons x xs)
  then show ?case
    by (cases i) (simp_all add: dec32_enc32_append)
qed

section \<open>C strings and atoi\<close>

definition cstr :: "string \<Rightarrow> string" where
  "cstr s = takeWhile (\<lambda>c. c \<noteq> CHR 0x00) s"

definition is_digit :: "char \<Rightarrow> bool" where
  "is_digit c \<longleftrightarrow> 48 \<le> (of_char c :: nat) \<and> (of_char c :: nat) \<le> 57"

definition digit_val :: "char \<Rightarrow> int" where
  "digit_val c = of_char c - 48"

definition is_space :: "char \<Rightarrow> bool" where
  "is_space c \<longleftrightarrow> (of_char c :: nat) = 32 \<or> (9 \<le> (of_char c :: nat) \<and> (of_char c :: nat) \<le> 13)"

fun digits_val :: "int \<Rightarrow> string \<Rightarrow> int" where
  "digits_val acc [] = acc"
| "digits_val acc (c # cs) = (if is_digit c then digits_val (10 * acc + digit_val c) cs else acc)"

lemma of_char_int: "(of_char (c :: char) :: int) = int (of_char c)"
  by (metis of_nat_of_char)

text \<open>The decimal digits of a number, as \<open>printf\<close> writes them.\<close>

fun dec_str :: "nat \<Rightarrow> string" where
  "dec_str n = (if n < 10 then [char_of (48 + n)] else dec_str (n div 10) @ [char_of (48 + n mod 10)])"

declare dec_str.simps [simp del]

text \<open>
  \<open>atoi\<close> of the C library the repository is built with: \<open>(int) strtol(s, 0, 10)\<close>, where
  \<open>strtol\<close> clamps to the range of \<open>long\<close> (64 bits).
\<close>

definition clamp_long :: "int \<Rightarrow> int" where
  "clamp_long x = max (- 9223372036854775808) (min 9223372036854775807 x)"

definition atoi :: "string \<Rightarrow> int" where
  "atoi s = to_i32 (clamp_long (case dropWhile is_space (cstr s) of
      [] \<Rightarrow> 0
    | c # cs \<Rightarrow> if c = CHR ''-'' then - digits_val 0 cs
               else if c = CHR ''+'' then digits_val 0 cs
               else digits_val 0 (c # cs)))"

section \<open>Memory, scatter and gather\<close>

text \<open>A pointer is a block and an offset; distinct C objects are distinct blocks.\<close>

type_synonym ptr = "nat \<times> nat"
type_synonym mem = "ptr \<Rightarrow> byte"

definition span :: "ptr \<Rightarrow> nat \<Rightarrow> ptr list" where
  "span p n = map (\<lambda>i. (fst p, snd p + i)) [0..<n]"

definition gather :: "mem \<Rightarrow> ptr list \<Rightarrow> byte list" where
  "gather m ps = map m ps"

fun scatter :: "mem \<Rightarrow> ptr list \<Rightarrow> byte list \<Rightarrow> mem" where
  "scatter m (p # ps) (b # bs) = scatter (m(p := b)) ps bs"
| "scatter m _ _ = m"

lemma length_span [simp]: "length (span p n) = n"
  by (simp add: span_def)

lemma length_gather [simp]: "length (gather m ps) = length ps"
  by (simp add: gather_def)

lemma gather_append [mem_simps]: "gather m (ps @ qs) = gather m ps @ gather m qs"
  by (simp add: gather_def)

lemma take_gather [mem_simps]: "take n (gather m ps) = gather m (take n ps)"
  by (simp add: gather_def take_map)

lemma drop_gather [mem_simps]: "drop n (gather m ps) = gather m (drop n ps)"
  by (simp add: gather_def drop_map)

lemma drop_span: "k \<le> n \<Longrightarrow> drop k (span (b, x) n) = span (b, x + k) (n - k)"
  by (auto simp: span_def drop_map intro!: nth_equalityI)

lemma take_span: "k \<le> n \<Longrightarrow> take k (span p n) = span p k"
  by (simp add: span_def take_map min_def)

lemma distinct_span [simp, intro]: "distinct (span p n)"
  by (simp add: span_def distinct_map inj_on_def)

lemma set_span: "set (span p n) = {q. fst q = fst p \<and> snd p \<le> snd q \<and> snd q < snd p + n}"
proof -
  have "\<exists>i. i < n \<and> b = snd p + i" if "snd p \<le> b" and "b < snd p + n" for b
    using that by (intro exI [of _ "b - snd p"]) auto
  then show ?thesis by (force simp: span_def)
qed

lemma scatter_frame [mem_simps]: "q \<notin> set ps \<Longrightarrow> scatter m ps bs q = m q"
  by (induction m ps bs rule: scatter.induct) auto

lemma gather_scatter_frame [mem_simps]:
  "set qs \<inter> set ps = {} \<Longrightarrow> gather (scatter m ps bs) qs = gather m qs"
  by (auto simp: gather_def scatter_frame disjoint_iff)

lemma gather_scatter:
  "distinct ps \<Longrightarrow> length bs \<le> length ps \<Longrightarrow>
     gather (scatter m ps bs) (take (length bs) ps) = bs"
proof (induction m ps bs rule: scatter.induct)
  case (1 m p ps b bs)
  then show ?case by (simp add: gather_def scatter_frame del: fun_upd_apply) simp
qed (auto simp: gather_def)

lemma scatter_append [mem_simps]:
  "length bs \<le> length ps \<Longrightarrow>
     scatter m ps (bs @ cs) = scatter (scatter m ps bs) (drop (length bs) ps) cs"
  by (induction m ps bs rule: scatter.induct) auto

text \<open>Overwriting part of a character buffer.\<close>

definition mem_put :: "nat \<Rightarrow> string \<Rightarrow> string \<Rightarrow> string" where
  "mem_put at bs d = take at d @ bs @ drop (at + length bs) d"

lemma length_mem_put [simp]: "at + length bs \<le> length d \<Longrightarrow> length (mem_put at bs d) = length d"
  by (simp add: mem_put_def)

lemma take_mem_put: "at \<le> length d \<Longrightarrow> take (at + length bs) (mem_put at bs d) = take at d @ bs"
  by (simp add: mem_put_def)

section \<open>Lists\<close>

lemma sum_list_map_nonneg: "(\<And>x. x \<in> set xs \<Longrightarrow> (0::int) \<le> f x) \<Longrightarrow> 0 \<le> sum_list (map f xs)"
  by (induction xs) auto

lemma take_drop_append: "take a xs @ take b (drop a xs) = take (a + b) xs"
  by (simp add: take_add)

end
