(* ===== verification/Drpc_Transport.thy ===== *)
theory Drpc_Transport
  imports Prelude_C
begin

text \<open>
  The transport of \<open>local_rpc/drpc_core.cpp\<close>: scatter/gather vectors, their advance after
  a partial transfer (\<open>__recalc_iovec\<close>), and the send and receive loops
  \<open>__posix_do_send\<close> and \<open>__posix_do_recv\<close>. The operating system is a script: one
  \<open>sysev\<close> per iteration holds what \<open>select\<close> and the following \<open>writev\<close> or
  \<open>readv\<close> report. A loop whose script is exhausted while it still loops is \<open>None\<close>, so
  "the call returns" is a statement of its own.
\<close>

section \<open>Scatter/gather vectors\<close>

record iovec =
  iov_base :: ptr
  iov_len :: nat

definition iov_addrs :: "iovec list \<Rightarrow> ptr list" where
  "iov_addrs iov = concat (map (\<lambda>v. span (iov_base v) (iov_len v)) iov)"

definition iov_total :: "iovec list \<Rightarrow> nat" where
  "iov_total iov = sum_list (map iov_len iov)"

lemma iov_addrs_simps [simp]:
  "iov_addrs [] = []"
  "iov_addrs (v # vs) = span (iov_base v) (iov_len v) @ iov_addrs vs"
  by (simp_all add: iov_addrs_def)

lemma iov_total_simps [simp]:
  "iov_total [] = 0"
  "iov_total (v # vs) = iov_len v + iov_total vs"
  by (simp_all add: iov_total_def)

lemma length_iov_addrs [simp]: "length (iov_addrs iov) = iov_total iov"
  by (induction iov) auto

text \<open>
  \<open>__recalc_iovec\<close>: the scan of the vector (\<open>nit\<close> counts the entries passed), then the
  update of \<open>iov\<close> and \<open>count\<close>. When no entry is longer than what is left of
  \<open>snd_bytes\<close> the pointer \<open>iov\<close> stays and \<open>count\<close> becomes 0.
\<close>

fun recalc_scan :: "iovec list \<Rightarrow> nat \<Rightarrow> int \<Rightarrow> iovec list option \<times> nat" where
  "recalc_scan (v # vs) (Suc k) snd_bytes =
     (if int (iov_len v) > to_size snd_bytes
      then (Some (v\<lparr>iov_len := nat (int (iov_len v) - to_size snd_bytes),
                    iov_base := (fst (iov_base v), snd (iov_base v) + nat snd_bytes)\<rparr> # vs), 0)
      else (let (r, nit) = recalc_scan vs k (to_i32 (snd_bytes - int (iov_len v)))
            in (r, Suc nit)))"
| "recalc_scan _ _ _ = (None, 0)"

definition recalc_iovec :: "iovec list \<Rightarrow> nat \<Rightarrow> int \<Rightarrow> iovec list \<times> nat" where
  "recalc_iovec iov count snd_bytes =
     (case recalc_scan iov count snd_bytes of
        (Some iov', nit) \<Rightarrow> (iov', count - nit)
      | (None, nit) \<Rightarrow> (iov, count - nit))"

definition iov_active :: "iovec list \<times> nat \<Rightarrow> ptr list" where
  "iov_active p = iov_addrs (take (snd p) (fst p))"

lemma recalc_scan_spec:
  "0 \<le> n \<Longrightarrow> n < int (iov_total (take k iov)) \<Longrightarrow> n < 2147483648 \<Longrightarrow>
   \<exists>iov' nit. recalc_scan iov k n = (Some iov', nit) \<and> nit \<le> k \<and>
     iov_addrs (take (k - nit) iov') = drop (nat n) (iov_addrs (take k iov))"
proof (induction iov k n rule: recalc_scan.induct)
  case (1 v vs k n)
  obtain b x where bx: "iov_base v = (b, x)" by (cases "iov_base v")
  show ?case
  proof (cases "int (iov_len v) > n")
    case True
    with 1 have "to_size n = n" by (simp add: c_conv)
    moreover from True 1 have "nat (int (iov_len v) - n) = iov_len v - nat n" "nat n \<le> iov_len v"
      by simp_all
    ultimately show ?thesis using True by (simp add: bx drop_span)
  next
    case False
    let ?m = "n - int (iov_len v)"
    from False 1 have s: "to_size n = n" "to_i32 ?m = ?m" "0 \<le> ?m"
      "?m < int (iov_total (take k vs))" "?m < 2147483648"
      by (simp_all add: c_conv)
    with False "1.IH" obtain iov' nit where r: "recalc_scan vs k ?m = (Some iov', nit)"
        "nit \<le> k" "iov_addrs (take (k - nit) iov') = drop (nat ?m) (iov_addrs (take k vs))"
      by (auto simp: s)
    have "nat ?m = nat n - iov_len v" by (simp add: nat_diff_distrib)
    with r s False 1 show ?thesis by (simp add: drop_append)
  qed
qed auto

lemma recalc_iovec_addrs:
  assumes "0 \<le> n" and "n < int (length (iov_active (iov, k)))" and "n < 2147483648"
  shows "iov_active (recalc_iovec iov k n) = drop (nat n) (iov_active (iov, k))"
  using recalc_scan_spec [of n k iov] assms
  by (auto simp: recalc_iovec_def iov_active_def)

section \<open>The operating system\<close>

record sysev =
  sel_r :: int
  sel_isset :: bool
  sel_errno :: int
  sel_tv :: int
  io_r :: int
  io_errno :: int
  io_data :: "byte list"

text \<open>
  \<open>writev\<close> never reports more bytes than it was offered and \<open>readv\<close> never stores more
  than the vector holds; this is built into the two functions below.
\<close>

definition sys_writev :: "sysev \<Rightarrow> byte list \<Rightarrow> int" where
  "sys_writev e offered = (if io_r e < 0 then io_r e else min (io_r e) (int (length offered)))"

definition sys_readv :: "sysev \<Rightarrow> ptr list \<Rightarrow> int \<times> byte list" where
  "sys_readv e ps = (if io_r e < 0 then (io_r e, [])
     else let d = take (length ps) (io_data e) in (int (length d), d))"

section \<open>The send loop\<close>

record xfer =
  remain_bytes :: int
  timeout_ms :: nat
  x_iov :: "iovec list"
  x_count :: nat
  x_err :: int
  x_tv :: int
  x_tvs :: "int list"

definition xfer_init :: "iovec list \<Rightarrow> nat \<Rightarrow> int \<Rightarrow> int \<Rightarrow> xfer" where
  "xfer_init iov count total_len timeout =
     \<lparr>remain_bytes = total_len, timeout_ms = nat (to_size (to_i32 (timeout * 1000))),
      x_iov = iov, x_count = count, x_err = 0, x_tv = 500, x_tvs = []\<rparr>"

abbreviation xfer_active :: "xfer \<Rightarrow> ptr list" where
  "xfer_active s \<equiv> iov_active (x_iov s, x_count s)"

definition loop_exit :: "xfer \<Rightarrow> int" where
  "loop_exit s = (if timeout_ms s = 0 \<and> remain_bytes s > 0 then - 1 else 0)"

definition again :: "int \<Rightarrow> bool" where
  "again e \<longleftrightarrow> e = EAGAIN \<or> e = EWOULDBLOCK \<or> e = EINTR"

text \<open>
  One iteration: \<open>Inl\<close> is a return with its value, \<open>Inr\<close> continues the loop. The byte
  list is what this iteration put on the wire. \<open>select\<close> leaves the time not slept in
  \<open>tv\<close>; \<open>__posix_do_send\<close> sets \<open>tv\<close> once, before the loop.
\<close>

definition send_iter :: "mem \<Rightarrow> sysev \<Rightarrow> xfer \<Rightarrow> (int + unit) \<times> xfer \<times> byte list" where
  "send_iter m e s0 =
     (let s = s0\<lparr>x_tvs := x_tvs s0 @ [x_tv s0], x_tv := sel_tv e, x_err := sel_errno e\<rparr> in
      if sel_r e < 0 then (Inl (sel_r e), s, [])
      else if sel_r e = 0 then
        (if timeout_ms s < 1 then (Inl (- 1), s, [])
         else (Inr (), s\<lparr>timeout_ms := timeout_ms s - 1\<rparr>, []))
      else if \<not> sel_isset e then
        (if timeout_ms s < 10 then (Inl (- 1), s, [])
         else (Inr (), s\<lparr>timeout_ms := timeout_ms s - 10\<rparr>, []))
      else
        let offered = gather m (xfer_active s);
            snd_bytes = sys_writev e offered;
            s' = s\<lparr>x_err := io_errno e\<rparr> in
        if snd_bytes < 0 then
          (if again (io_errno e) then (Inr (), s', []) else (Inl snd_bytes, s', []))
        else if snd_bytes = 0 then (Inr (), s', [])
        else
          let r = remain_bytes s' - snd_bytes;
              s'' = s'\<lparr>remain_bytes := r\<rparr>;
              (iov, count) = (if r > 0 then recalc_iovec (x_iov s'') (x_count s'') snd_bytes
                              else (x_iov s'', x_count s''))
          in (Inr (), s''\<lparr>x_iov := iov, x_count := count\<rparr>, take (nat snd_bytes) offered))"

fun send_loop :: "mem \<Rightarrow> sysev list \<Rightarrow> xfer \<Rightarrow> (int \<times> xfer \<times> byte list) option" where
  "send_loop m es s =
     (if timeout_ms s > 0 \<and> remain_bytes s > 0 then
        (case es of [] \<Rightarrow> None
         | e # es' \<Rightarrow>
             (case send_iter m e s of
                (Inl r, s', out) \<Rightarrow> Some (r, s', out)
              | (Inr _, s', out) \<Rightarrow>
                  map_option (\<lambda>(r, t, out'). (r, t, out @ out')) (send_loop m es' s')))
      else Some (loop_exit s, s, []))"

definition posix_do_send ::
  "mem \<Rightarrow> sysev list \<Rightarrow> iovec list \<Rightarrow> nat \<Rightarrow> int \<Rightarrow> int \<Rightarrow> (int \<times> xfer \<times> byte list) option" where
  "posix_do_send m es iov count total_len timeout = send_loop m es (xfer_init iov count total_len timeout)"

section \<open>The receive loop\<close>

definition recv_iter :: "sysev \<Rightarrow> mem \<Rightarrow> xfer \<Rightarrow> (int + unit) \<times> mem \<times> xfer \<times> byte list" where
  "recv_iter e m s0 =
     (let s = s0\<lparr>x_tvs := x_tvs s0 @ [500], x_tv := sel_tv e, x_err := sel_errno e\<rparr> in
      if sel_r e < 0 then (Inl (sel_r e), m, s, [])
      else if sel_r e = 0 then
        (if timeout_ms s < 1 then (Inl (- 1), m, s, [])
         else (Inr (), m, s\<lparr>timeout_ms := timeout_ms s - 1\<rparr>, []))
      else if timeout_ms s < 1 then (Inl (- 1), m, s, [])
      else
        let s1 = s\<lparr>timeout_ms := timeout_ms s - 1\<rparr> in
        if \<not> sel_isset e then (Inr (), m, s1, [])
        else
          let (rcv_bytes, d) = sys_readv e (xfer_active s1);
              s2 = s1\<lparr>x_err := io_errno e\<rparr> in
          if rcv_bytes < 0 then
            (if again (io_errno e) then (Inr (), m, s2, []) else (Inl rcv_bytes, m, s2, []))
          else if rcv_bytes = 0 then (Inl (- 1), m, s2, [])
          else
            let r = remain_bytes s2 - rcv_bytes;
                s3 = s2\<lparr>remain_bytes := r\<rparr>;
                (iov, count) = (if r > 0 then recalc_iovec (x_iov s3) (x_count s3) rcv_bytes
                                else (x_iov s3, x_count s3))
            in (Inr (), scatter m (xfer_active s1) d, s3\<lparr>x_iov := iov, x_count := count\<rparr>, d))"

fun recv_loop :: "sysev list \<Rightarrow> mem \<Rightarrow> xfer \<Rightarrow> (int \<times> mem \<times> xfer \<times> byte list) option" where
  "recv_loop es m s =
     (if timeout_ms s > 0 \<and> remain_bytes s > 0 then
        (case es of [] \<Rightarrow> None
         | e # es' \<Rightarrow>
             (case recv_iter e m s of
                (Inl r, m', s', got) \<Rightarrow> Some (r, m', s', got)
              | (Inr _, m', s', got) \<Rightarrow>
                  map_option (\<lambda>(r, m'', t, got'). (r, m'', t, got @ got')) (recv_loop es' m' s')))
      else Some (loop_exit s, m, s, []))"

definition posix_do_recv ::
  "sysev list \<Rightarrow> mem \<Rightarrow> iovec list \<Rightarrow> nat \<Rightarrow> int \<Rightarrow> int \<Rightarrow> (int \<times> mem \<times> xfer \<times> byte list) option" where
  "posix_do_recv es m iov count total_len timeout = recv_loop es m (xfer_init iov count total_len timeout)"

declare send_loop.simps [simp del] recv_loop.simps [simp del]

section \<open>What one iteration does\<close>

definition xfer_ok :: "xfer \<Rightarrow> bool" where
  "xfer_ok s \<longleftrightarrow> remain_bytes s = int (length (xfer_active s)) \<and> remain_bytes s < 2147483648"

definition xfer_pending :: "xfer \<Rightarrow> ptr list" where
  "xfer_pending s = (if remain_bytes s > 0 then xfer_active s else [])"

lemma xfer_init_ok:
  "int (iov_total iov) < 2147483648 \<Longrightarrow>
     xfer_ok (xfer_init iov (length iov) (int (iov_total iov)) timeout)"
  by (simp add: xfer_ok_def xfer_init_def iov_active_def)

lemma xfer_init_pending:
  "xfer_pending (xfer_init iov (length iov) (int (iov_total iov)) timeout) = iov_addrs iov"
  by (cases "iov_addrs iov")
    (auto simp: xfer_pending_def xfer_init_def iov_active_def length_iov_addrs [symmetric]
      simp del: length_iov_addrs)

text \<open>The book-keeping shared by both loops after \<open>n\<close> bytes moved.\<close>

lemma advance_ok:
  assumes ok: "xfer_ok s" and n: "0 < n" "n \<le> int (length (xfer_active s))"
    and r: "r = remain_bytes s - n"
    and iv: "(iov, count) = (if r > 0 then recalc_iovec (x_iov s) (x_count s) n
                             else (x_iov s, x_count s))"
    and t: "remain_bytes t = r" "x_iov t = iov" "x_count t = count"
  shows "xfer_pending t = drop (nat n) (xfer_active s)" and "remain_bytes t > 0 \<longrightarrow> xfer_ok t"
proof -
  have rem: "remain_bytes s = int (length (xfer_active s))" "remain_bytes s < 2147483648"
    using ok by (simp_all add: xfer_ok_def)
  have act: "iov_active (iov, count) = drop (nat n) (xfer_active s)" if "r > 0"
  proof -
    from that r rem have "n < int (length (xfer_active s))" by simp
    moreover have "n < 2147483648" using n rem by simp
    ultimately show ?thesis
      using that iv n recalc_iovec_addrs [of n "x_iov s" "x_count s"] by simp
  qed
  show "xfer_pending t = drop (nat n) (xfer_active s)"
    using act t r rem n by (auto simp: xfer_pending_def)
  show "remain_bytes t > 0 \<longrightarrow> xfer_ok t"
    using act t r rem n by (auto simp: xfer_ok_def of_nat_diff nat_le_iff)
qed

lemma sys_writev_le: "sys_writev e bs \<le> int (length bs)"
  by (simp add: sys_writev_def)

lemma sys_readv_le:
  "sys_readv e ps = (n, d) \<Longrightarrow> length d \<le> length ps \<and> (n \<ge> 0 \<longrightarrow> n = int (length d))"
  by (auto simp: sys_readv_def Let_def split: if_splits)

lemma send_iter_return:
  "send_iter m e s = (Inl r, t, out) \<Longrightarrow> r < 0 \<and> out = []"
  by (auto simp: send_iter_def Let_def split: if_splits prod.splits)

lemma send_iter_continue:
  assumes it: "send_iter m e s = (Inr u, t, out)" and ok: "xfer_ok s" and pos: "remain_bytes s > 0"
  shows "out @ gather m (xfer_pending t) = gather m (xfer_pending s)
         \<and> (remain_bytes t > 0 \<longrightarrow> xfer_ok t)"
proof (cases "remain_bytes t = remain_bytes s")
  case True
  with it have "out = [] \<and> x_iov t = x_iov s \<and> x_count t = x_count s"
    by (auto simp: send_iter_def Let_def split: if_splits prod.splits)
  with True ok show ?thesis by (auto simp: xfer_ok_def xfer_pending_def)
next
  case False
  let ?n = "sys_writev e (gather m (xfer_active s))"
  let ?s = "s\<lparr>x_tvs := x_tvs s @ [x_tv s], x_tv := sel_tv e, x_err := io_errno e\<rparr>"
  from False it have n: "?n > 0"
    by (auto simp: send_iter_def Let_def split: if_splits prod.splits)
  from False it obtain iov count where iv: "(iov, count) = (if remain_bytes s - ?n > 0
        then recalc_iovec (x_iov s) (x_count s) ?n else (x_iov s, x_count s))"
      and t: "t = ?s\<lparr>remain_bytes := remain_bytes s - ?n, x_iov := iov, x_count := count\<rparr>"
      and out: "out = take (nat ?n) (gather m (xfer_active s))"
    by (auto simp: send_iter_def Let_def split: if_splits prod.splits)
  have "xfer_pending t = drop (nat ?n) (xfer_active s)" "remain_bytes t > 0 \<longrightarrow> xfer_ok t"
    using advance_ok [OF ok n _ refl iv, of t] t sys_writev_le [of e "gather m (xfer_active s)"]
    by simp_all
  then show ?thesis using pos out
    by (simp add: xfer_pending_def drop_gather [symmetric] del: append_take_drop_id)
      (metis append_take_drop_id drop_gather)
qed

lemma recv_iter_return:
  "recv_iter e m s = (Inl r, m', t, got) \<Longrightarrow> r < 0 \<and> m' = m \<and> got = []"
  by (auto simp: recv_iter_def Let_def split: if_splits prod.splits)

lemma recv_iter_continue:
  assumes it: "recv_iter e m s = (Inr u, m', t, got)" and ok: "xfer_ok s" and pos: "remain_bytes s > 0"
  shows "length got \<le> length (xfer_pending s) \<and> m' = scatter m (xfer_pending s) got
         \<and> xfer_pending t = drop (length got) (xfer_pending s)
         \<and> (remain_bytes t > 0 \<longrightarrow> xfer_ok t)"
proof (cases "remain_bytes t = remain_bytes s")
  case True
  with it have "got = [] \<and> m' = m \<and> x_iov t = x_iov s \<and> x_count t = x_count s"
    by (auto simp: recv_iter_def Let_def split: if_splits prod.splits)
  with True ok show ?thesis by (auto simp: xfer_ok_def xfer_pending_def)
next
  case False
  obtain n d where nd: "sys_readv e (xfer_active s) = (n, d)"
    by (cases "sys_readv e (xfer_active s)")
  let ?s = "s\<lparr>x_tvs := x_tvs s @ [500], x_tv := sel_tv e, x_err := io_errno e,
      timeout_ms := timeout_ms s - 1\<rparr>"
  from False it nd have n: "n > 0"
    by (auto simp: recv_iter_def Let_def split: if_splits prod.splits)
  from False it nd obtain iov count where iv: "(iov, count) = (if remain_bytes s - n > 0
        then recalc_iovec (x_iov s) (x_count s) n else (x_iov s, x_count s))"
      and t: "t = ?s\<lparr>remain_bytes := remain_bytes s - n, x_iov := iov, x_count := count\<rparr>"
      and got: "got = d" and m': "m' = scatter m (xfer_active s) d"
    by (auto simp: recv_iter_def Let_def split: if_splits prod.splits)
  from sys_readv_le [OF nd] n have le: "length d \<le> length (xfer_active s)" "n = int (length d)"
    by simp_all
  have "xfer_pending t = drop (nat n) (xfer_active s)" "remain_bytes t > 0 \<longrightarrow> xfer_ok t"
    using advance_ok [OF ok n _ refl iv, of t] t le by simp_all
  then show ?thesis using pos got m' le by (simp add: xfer_pending_def)
qed

lemma recv_iter_timeout:
  "recv_iter e m s = (Inr u, m', t, got) \<Longrightarrow> timeout_ms s > 0 \<Longrightarrow> timeout_ms t < timeout_ms s"
  by (auto simp: recv_iter_def Let_def split: if_splits prod.splits)

section \<open>The loops\<close>

lemma send_loop_spec:
  assumes "send_loop m es s = Some (r, t, out)" and "remain_bytes s > 0 \<longrightarrow> xfer_ok s"
  shows "r \<le> 0 \<and> (\<exists>rest. out @ rest = gather m (xfer_pending s) \<and> (r = 0 \<longleftrightarrow> rest = []))"
  using assms
proof (induction es arbitrary: s r t out)
  case Nil
  then show ?case
    by (subst (asm) send_loop.simps) (auto simp: loop_exit_def xfer_pending_def xfer_ok_def gather_def
        split: if_splits)
next
  case (Cons e es)
  show ?case
  proof (cases "timeout_ms s > 0 \<and> remain_bytes s > 0")
    case False
    with Cons.prems show ?thesis
      by (subst (asm) send_loop.simps) (auto simp: loop_exit_def xfer_pending_def xfer_ok_def gather_def
          split: if_splits)
  next
    case True
    obtain q s' o1 where it: "send_iter m e s = (q, s', o1)"
      by (cases "send_iter m e s") auto
    show ?thesis
    proof (cases q)
      case (Inl r')
      with it True Cons.prems(1) have "r = r' \<and> out = o1"
        by (subst (asm) send_loop.simps) simp
      moreover have "r' < 0 \<and> o1 = []" using send_iter_return it Inl by blast
      moreover have "gather m (xfer_pending s) \<noteq> []"
        using True Cons.prems(2) by (auto simp: xfer_pending_def xfer_ok_def gather_def)
      ultimately show ?thesis by auto
    next
      case (Inr u)
      with it True Cons.prems(1) obtain o2 where
          rec: "send_loop m es s' = Some (r, t, o2)" and out: "out = o1 @ o2"
        by (subst (asm) send_loop.simps) auto
      have st: "o1 @ gather m (xfer_pending s') = gather m (xfer_pending s)"
        "remain_bytes s' > 0 \<longrightarrow> xfer_ok s'"
        using send_iter_continue [of m e s u s' o1] it Inr True Cons.prems(2) by auto
      from Cons.IH [OF rec st(2)] obtain rest where "r \<le> 0" "r = 0 \<longleftrightarrow> rest = []"
          "o2 @ rest = gather m (xfer_pending s')" by blast
      then have "out @ rest = gather m (xfer_pending s)" using st(1) out by simp
      with \<open>r \<le> 0\<close> \<open>r = 0 \<longleftrightarrow> rest = []\<close> show ?thesis by blast
    qed
  qed
qed

lemma recv_loop_spec:
  assumes "recv_loop es m s = Some (r, m', t, got)" and "remain_bytes s > 0 \<longrightarrow> xfer_ok s"
  shows "r \<le> 0 \<and> length got \<le> length (xfer_pending s) \<and> m' = scatter m (xfer_pending s) got
         \<and> (r = 0 \<longleftrightarrow> length got = length (xfer_pending s))"
  using assms
proof (induction es arbitrary: m s r m' t got)
  case Nil
  then show ?case
    by (subst (asm) recv_loop.simps)
      (auto simp: loop_exit_def xfer_pending_def xfer_ok_def split: if_splits)
next
  case (Cons e es)
  show ?case
  proof (cases "timeout_ms s > 0 \<and> remain_bytes s > 0")
    case False
    with Cons.prems show ?thesis
      by (subst (asm) recv_loop.simps)
        (auto simp: loop_exit_def xfer_pending_def xfer_ok_def split: if_splits)
  next
    case True
    obtain q m1 s' g1 where it: "recv_iter e m s = (q, m1, s', g1)"
      by (cases "recv_iter e m s") auto
    show ?thesis
    proof (cases q)
      case (Inl r')
      with it True Cons.prems(1) have "r = r' \<and> got = g1 \<and> m' = m1"
        by (subst (asm) recv_loop.simps) simp
      moreover have "r' < 0 \<and> m1 = m \<and> g1 = []" using recv_iter_return it Inl by blast
      moreover have "length (xfer_pending s) > 0"
        using True Cons.prems(2) by (simp add: xfer_pending_def xfer_ok_def)
      ultimately show ?thesis by simp
    next
      case (Inr u)
      with it True Cons.prems(1) obtain g2 where
          rec: "recv_loop es m1 s' = Some (r, m', t, g2)" and got: "got = g1 @ g2"
        by (subst (asm) recv_loop.simps) auto
      have st: "length g1 \<le> length (xfer_pending s)" "m1 = scatter m (xfer_pending s) g1"
        "xfer_pending s' = drop (length g1) (xfer_pending s)" "remain_bytes s' > 0 \<longrightarrow> xfer_ok s'"
        using recv_iter_continue [of e m s u m1 s' g1] it Inr True Cons.prems(2) by auto
      from Cons.IH [OF rec st(4)] st(1-3) got show ?thesis
        by (auto simp: scatter_append)
    qed
  qed
qed

lemma recv_loop_returns:
  "timeout_ms s \<le> length es \<Longrightarrow> \<exists>x. recv_loop es m s = Some x"
proof (induction es arbitrary: m s)
  case Nil
  then show ?case by (subst recv_loop.simps) simp
next
  case (Cons e es)
  show ?case
  proof (cases "timeout_ms s > 0 \<and> remain_bytes s > 0")
    case False
    then show ?thesis by (subst recv_loop.simps) auto
  next
    case True
    obtain q m1 s' g1 where it: "recv_iter e m s = (q, m1, s', g1)"
      by (cases "recv_iter e m s") auto
    show ?thesis
    proof (cases q)
      case (Inl r')
      with it True show ?thesis by (subst recv_loop.simps) simp
    next
      case (Inr u)
      with it True have "timeout_ms s' < timeout_ms s" using recv_iter_timeout by blast
      with Cons.prems obtain x where "recv_loop es m1 s' = Some x"
        using Cons.IH [of s' m1] by auto
      with it True Inr show ?thesis by (subst recv_loop.simps) (simp split: prod.splits)
    qed
  qed
qed

end
