(* ===== verification/Drpc.thy ===== *)
theory Drpc
  imports Drpc_Transport
begin

text \<open>
  The RPC layer of \<open>local_rpc/drpc_core.cpp\<close> over the transport: the packet header, the
  \<open>__posix_call_dunix_*\<close> operations of the call table, the variadic \<open>drpc_call_core_*\<close>
  wrappers, and the two client/server pairs of the file (\<open>rpc_call_plus\<close> with
  \<open>rpc_call_srv\<close>, \<open>drpc_cli_plus\<close> with \<open>dispatch\<close> and \<open>drpc_srv_routine\<close>).
  A system call's result is an argument; the descriptors a process holds open and the bound
  socket path are the record \<open>osw\<close>. Each C array or variable is a memory block.
\<close>

section \<open>Packet header\<close>

record pkt_hdr =
  hdr_cmd :: int
  hdr_len :: int
  hdr_cnt :: int

abbreviation IOV_MAX :: nat where "IOV_MAX \<equiv> 1024"

definition sum_iov :: "iovec list \<Rightarrow> int" where
  "sum_iov iov = foldl (\<lambda>s v. to_i32 (s + int (iov_len v))) 0 iov"

definition pkt_len :: "iovec list \<Rightarrow> int" where
  "pkt_len iov = to_i32 (sum_iov iov + (int (length iov) + 8) * 4)"

definition inv_headinfo :: "int \<Rightarrow> iovec list \<Rightarrow> int list" where
  "inv_headinfo cmd iov = [cmd, pkt_len iov, int (length iov), 0, 0, 0, 0, 0]
     @ map (\<lambda>v. to_i32 (int (iov_len v))) iov"

definition store32s :: "mem \<Rightarrow> ptr \<Rightarrow> int list \<Rightarrow> mem" where
  "store32s m p xs = scatter m (span p (4 * length xs)) (concat (map enc32 xs))"

definition load32 :: "mem \<Rightarrow> ptr \<Rightarrow> nat \<Rightarrow> int" where
  "load32 m p i = dec32 (gather m (span (fst p, snd p + 4 * i) 4))"

definition parse_header :: "int \<Rightarrow> iovec list \<Rightarrow> (nat \<Rightarrow> int) \<Rightarrow> int" where
  "parse_header cmd iov headinfo =
     (if cmd \<noteq> headinfo 0 then - 1
      else if \<exists>n \<in> set [0..<length iov]. to_size (headinfo (n + 8)) \<noteq> int (iov_len (iov ! n)) then - 1
      else 0)"

definition parse_header2 :: "iovec list \<Rightarrow> (nat \<Rightarrow> int) \<Rightarrow> int" where
  "parse_header2 iov headinfo =
     (if \<exists>n \<in> set [0..<length iov]. to_size (headinfo n) \<noteq> int (iov_len (iov ! n)) then - 1 else 0)"

section \<open>The call table\<close>

text \<open>\<open>hb\<close> is the block of the local array \<open>headinfo\<close>, \<open>es\<close> the script of the transport.\<close>

definition call_dunix_inv ::
  "mem \<Rightarrow> nat \<Rightarrow> sysev list \<Rightarrow> int \<Rightarrow> iovec list \<Rightarrow> int \<Rightarrow> (int \<times> byte list) option" where
  "call_dunix_inv m hb es cmd iov timeout =
     (let count = length iov; count_in = count + 1 in
      if count_in > IOV_MAX then Some (- 1, [])
      else
        let headinfo = inv_headinfo cmd iov;
            m' = store32s m (hb, 0) headinfo;
            iov_in = \<lparr>iov_base = (hb, 0), iov_len = 4 * (count + 8)\<rparr> # iov
        in map_option (\<lambda>(r, s, out). (r, out))
             (posix_do_send m' es iov_in count_in (pkt_len iov) timeout))"

definition call_dunix_ouv ::
  "mem \<Rightarrow> nat \<Rightarrow> sysev list \<Rightarrow> int \<Rightarrow> iovec list \<Rightarrow> int \<Rightarrow> (int \<times> mem \<times> byte list) option" where
  "call_dunix_ouv m hb es cmd iov timeout =
     (let count = length iov; count_ou = count + 1 in
      if count_ou > IOV_MAX then Some (- 1, m, [])
      else
        let m' = store32s m (hb, 0) (replicate (count + 8) 0);
            iov_ou = \<lparr>iov_base = (hb, 0), iov_len = 4 * (count + 8)\<rparr> # iov
        in map_option (\<lambda>(r, m'', s, got).
               (if r < 0 \<or> parse_header cmd iov (load32 m'' (hb, 0)) < 0 then - 2 else 0, m'', got))
             (posix_do_recv es m' iov_ou count_ou (pkt_len iov) timeout))"

definition call_dunix_ou_header ::
  "mem \<Rightarrow> nat \<Rightarrow> sysev list \<Rightarrow> int \<Rightarrow> (int \<times> pkt_hdr option \<times> mem \<times> byte list) option" where
  "call_dunix_ou_header m hb es timeout =
     map_option (\<lambda>(r, m', s, got).
         if r < 0 then (- 2, None, m', got)
         else (0, Some \<lparr>hdr_cmd = load32 m' (hb, 0) 0, hdr_len = load32 m' (hb, 0) 1,
                        hdr_cnt = load32 m' (hb, 0) 2\<rparr>, m', got))
       (posix_do_recv es m [\<lparr>iov_base = (hb, 0), iov_len = 32\<rparr>] 1 32 timeout)"

definition call_dunix_ouv2 ::
  "mem \<Rightarrow> nat \<Rightarrow> sysev list \<Rightarrow> iovec list \<Rightarrow> int \<Rightarrow> (int \<times> mem \<times> byte list) option" where
  "call_dunix_ouv2 m hb es iov timeout =
     (let count = length iov; count_ou = count + 1 in
      if count_ou > IOV_MAX then Some (- 1, m, [])
      else
        let m' = store32s m (hb, 0) (replicate count 0);
            iov_ou = \<lparr>iov_base = (hb, 0), iov_len = 4 * count\<rparr> # iov;
            sum_len = to_i32 (sum_iov iov + int count * 4)
        in map_option (\<lambda>(r, m'', s, got).
               (if r < 0 \<or> parse_header2 iov (load32 m'' (hb, 0)) < 0 then - 2 else 0, m'', got))
             (posix_do_recv es m' iov_ou count_ou sum_len timeout))"

section \<open>Sockets\<close>

record osw =
  w_fds :: "int list"
  w_path :: bool

definition os_open :: "int \<Rightarrow> osw \<Rightarrow> osw" where
  "os_open fd w = w\<lparr>w_fds := fd # w_fds w\<rparr>"

definition os_close :: "int \<Rightarrow> osw \<Rightarrow> osw" where
  "os_close fd w = w\<lparr>w_fds := removeAll fd (w_fds w)\<rparr>"

definition set_non_block :: "int \<Rightarrow> int" where
  "set_non_block sock = 0"

definition begin_cli :: "int \<Rightarrow> int \<Rightarrow> osw \<Rightarrow> int \<times> osw" where
  "begin_cli sock_r connect_r w =
     (if sock_r < 0 then (- 1, w)
      else let w1 = os_open sock_r w in
        if connect_r < 0 then (- 2, os_close sock_r w1) else (sock_r, w1))"

definition end_cli :: "int \<Rightarrow> osw \<Rightarrow> int \<times> osw" where
  "end_cli handle w = (0, os_close handle w)"

definition begin_srv :: "int \<Rightarrow> int \<Rightarrow> int \<Rightarrow> osw \<Rightarrow> int \<times> osw" where
  "begin_srv sock_r bind_r listen_r w =
     (if sock_r < 0 then (- 1, w)
      else let w1 = (os_open sock_r w)\<lparr>w_path := False\<rparr> in
        if bind_r < 0 then (- 1, (os_close sock_r w1)\<lparr>w_path := False\<rparr>)
        else let w2 = w1\<lparr>w_path := True\<rparr> in
          if listen_r < 0 then (- 1, (os_close sock_r w2)\<lparr>w_path := False\<rparr>)
          else (sock_r, w2))"

definition accept_srv :: "int \<Rightarrow> osw \<Rightarrow> int \<times> osw" where
  "accept_srv accept_r w = (if accept_r < 0 then (- 1, w) else (accept_r, os_open accept_r w))"

definition end_srv :: "int \<Rightarrow> osw \<Rightarrow> int \<times> osw" where
  "end_srv handle w = (0, (os_close handle w)\<lparr>w_path := False\<rparr>)"

section \<open>Variadic wrappers\<close>

text \<open>
  The variadic tail is an alternation of addresses and sizes; the loop over \<open>i\<close> stores
  argument \<open>2k\<close> as the base and argument \<open>2k + 1\<close> as the length of entry \<open>k\<close>.
\<close>

datatype va_arg = VaPtr ptr | VaLen nat

fun va_iov :: "va_arg list \<Rightarrow> iovec list" where
  "va_iov (VaPtr p # VaLen l # r) = \<lparr>iov_base = p, iov_len = l\<rparr> # va_iov r"
| "va_iov _ = []"

definition input_param_cli ::
  "mem \<Rightarrow> nat \<Rightarrow> sysev list \<Rightarrow> int \<Rightarrow> int \<Rightarrow> osw \<Rightarrow> int \<Rightarrow> va_arg list
     \<Rightarrow> (int \<times> osw \<times> byte list) option" where
  "input_param_cli m hb es sock_r connect_r w cmd args =
     (let iov = va_iov args; (handle, w1) = begin_cli sock_r connect_r w in
      if handle < 0 then Some (handle, w1, [])
      else map_option (\<lambda>(r, out). if r < 0 then (- 1, snd (end_cli handle w1), out)
                                   else (handle, w1, out))
             (call_dunix_inv m hb es cmd iov 1000))"

definition output_param_cli ::
  "mem \<Rightarrow> nat \<Rightarrow> sysev list \<Rightarrow> int \<Rightarrow> va_arg list \<Rightarrow> (int \<times> mem \<times> byte list) option" where
  "output_param_cli m hb es cmd args = call_dunix_ouv m hb es cmd (va_iov args) 1000"

definition fetch_head_srv ::
  "mem \<Rightarrow> nat \<Rightarrow> sysev list \<Rightarrow> (int \<times> pkt_hdr option \<times> mem \<times> byte list) option" where
  "fetch_head_srv m hb es = call_dunix_ou_header m hb es 1000"

definition input_param_srv ::
  "mem \<Rightarrow> nat \<Rightarrow> sysev list \<Rightarrow> va_arg list \<Rightarrow> (int \<times> mem \<times> byte list) option" where
  "input_param_srv m hb es args = call_dunix_ouv2 m hb es (va_iov args) 1000"

definition output_param_srv ::
  "mem \<Rightarrow> nat \<Rightarrow> sysev list \<Rightarrow> int \<Rightarrow> va_arg list \<Rightarrow> (int \<times> byte list) option" where
  "output_param_srv m hb es cmd args = call_dunix_inv m hb es cmd (va_iov args) 1000"

section \<open>Dispatch, server and client\<close>

text \<open>
  Blocks of the locals: 6 and 7 hold the two operands, 3 the header array, 4 the result.
  \<open>srv_script\<close> is what the system does to one accepted connection.
\<close>

definition PARM1 :: "ptr \<Rightarrow> va_arg list" where
  "PARM1 p = [VaPtr p, VaLen 4]"

definition PARM2 :: "ptr \<Rightarrow> ptr \<Rightarrow> va_arg list" where
  "PARM2 p p1 = [VaPtr p, VaLen 4, VaPtr p1, VaLen 4]"

record srv_script =
  sc_accept :: int
  sc_head :: "sysev list"
  sc_in :: "sysev list"
  sc_out :: "sysev list"

definition dispatch ::
  "mem \<Rightarrow> sysev list \<Rightarrow> sysev list \<Rightarrow> int \<Rightarrow> (int \<times> mem \<times> byte list \<times> byte list) option" where
  "dispatch m es_in es_out cmd =
     (if cmd = 1 then
        let m0 = store32s (store32s m (6, 0) [0]) (7, 0) [0] in
        (case input_param_srv m0 3 es_in (PARM2 (6, 0) (7, 0)) of
           None \<Rightarrow> None
         | Some (ret, m1, got) \<Rightarrow>
             if ret < 0 then Some (- 1, m1, got, [])
             else
               let ou_c = to_i32 (load32 m1 (6, 0) 0 + load32 m1 (7, 0) 0);
                   m2 = store32s m1 (4, 0) [ou_c] in
               (case output_param_srv m2 3 es_out cmd (PARM1 (4, 0)) of
                  None \<Rightarrow> None
                | Some (ret2, out) \<Rightarrow> Some (if ret2 < 0 then - 1 else 0, m2, got, out)))
      else Some (0, m, [], []))"

text \<open>One accepted connection: result of the body, bytes read, bytes written.\<close>

definition srv_conn ::
  "mem \<Rightarrow> osw \<Rightarrow> srv_script \<Rightarrow> (int \<times> mem \<times> osw \<times> byte list \<times> byte list) option" where
  "srv_conn m w sc =
     (let cli_handle = sc_accept sc in
      case fetch_head_srv m 3 (sc_head sc) of
        None \<Rightarrow> None
      | Some (ret, None, m1, got) \<Rightarrow> Some (ret, m1, snd (end_cli cli_handle w), got, [])
      | Some (ret, Some hdr, m1, got) \<Rightarrow>
          (case dispatch m1 (sc_in sc) (sc_out sc) (hdr_cmd hdr) of
             None \<Rightarrow> None
           | Some (ret2, m2, got2, out) \<Rightarrow>
               Some (ret2, m2, if ret2 < 0 then snd (end_cli cli_handle w) else w, got @ got2, out)))"

fun srv_loop :: "mem \<Rightarrow> osw \<Rightarrow> srv_script list \<Rightarrow> (mem \<times> osw) option" where
  "srv_loop m w [] = None"
| "srv_loop m w (sc # scs) =
     (let (cli_handle, w1) = accept_srv (sc_accept sc) w in
      if cli_handle > 0 then
        (case srv_conn m w1 sc of
           None \<Rightarrow> None
         | Some (ret, m2, w2, got, out) \<Rightarrow> srv_loop m2 w2 scs)
      else Some (m, w1))"

definition drpc_srv_routine ::
  "mem \<Rightarrow> osw \<Rightarrow> int \<Rightarrow> int \<Rightarrow> int \<Rightarrow> srv_script list \<Rightarrow> (int \<times> osw) option" where
  "drpc_srv_routine m w sock_r bind_r listen_r scs =
     (let (handle, w1) = begin_srv sock_r bind_r listen_r w in
      if handle < 0 then Some (- 1, w1)
      else map_option (\<lambda>(m', w2). (0, snd (end_srv handle w2))) (srv_loop m w1 scs))"

definition drpc_cli_plus ::
  "mem \<Rightarrow> osw \<Rightarrow> int \<Rightarrow> int \<Rightarrow> sysev list \<Rightarrow> sysev list \<Rightarrow> int \<Rightarrow> int
     \<Rightarrow> (int \<times> osw \<times> byte list \<times> byte list) option" where
  "drpc_cli_plus m w sock_r connect_r es_out es_in a b =
     (let m0 = store32s (store32s m (6, 0) [a]) (7, 0) [b] in
      case input_param_cli m0 3 es_out sock_r connect_r w 1 (PARM2 (6, 0) (7, 0)) of
        None \<Rightarrow> None
      | Some (handle, w1, out) \<Rightarrow>
          if handle < 0 then Some (- 1, w1, out, [])
          else
            let m1 = store32s m0 (4, 0) [0] in
            (case output_param_cli m1 3 es_in 1 (PARM1 (4, 0)) of
               None \<Rightarrow> None
             | Some (ret, m2, got) \<Rightarrow>
                 Some (if ret < 0 then - 1 else load32 m2 (4, 0) 0,
                       snd (end_cli handle w1), out, got)))"

section \<open>The direct client and server\<close>

text \<open>
  \<open>rpc_call_plus\<close> and \<open>rpc_call_srv\<close> use the call table's functions without the
  wrappers, with a timeout of 10 instead of 1000.
\<close>

definition rpc_call_plus ::
  "mem \<Rightarrow> osw \<Rightarrow> int \<Rightarrow> int \<Rightarrow> sysev list \<Rightarrow> sysev list \<Rightarrow> int \<Rightarrow> int
     \<Rightarrow> (int \<times> osw \<times> byte list \<times> byte list) option" where
  "rpc_call_plus m w sock_r connect_r es_out es_in a b =
     (let m0 = store32s (store32s m (6, 0) [a]) (7, 0) [b];
          iov = [\<lparr>iov_base = (6, 0), iov_len = 4\<rparr>, \<lparr>iov_base = (7, 0), iov_len = 4\<rparr>];
          (handle, w1) = begin_cli sock_r connect_r w in
      if handle < 0 then Some (- 1, w1, [], [])
      else (case call_dunix_inv m0 3 es_out 1 iov 10 of
          None \<Rightarrow> None
        | Some (ret, out) \<Rightarrow>
            if ret < 0 then Some (- 1, snd (end_cli handle w1), out, [])
            else
              let m1 = store32s m0 (4, 0) [0];
                  iov2 = [\<lparr>iov_base = (4, 0), iov_len = 4\<rparr>] in
              (case call_dunix_ouv m1 3 es_in 1 iov2 10 of
                 None \<Rightarrow> None
               | Some (ret, m2, got) \<Rightarrow>
                   if ret < 0 then Some (- 1, snd (end_cli handle w1), out, got)
                   else Some (load32 m2 (4, 0) 0, snd (end_cli handle w1), out, got))))"

text \<open>The body of the accept loop of \<open>rpc_call_srv\<close> for one connection.\<close>

definition rpc_srv_conn ::
  "mem \<Rightarrow> osw \<Rightarrow> srv_script \<Rightarrow> (mem \<times> osw \<times> byte list \<times> byte list) option" where
  "rpc_srv_conn m w sc =
     (let cli_handle = sc_accept sc in
      case call_dunix_ou_header m 3 (sc_head sc) 10 of
        None \<Rightarrow> None
      | Some (ret, None, m1, got) \<Rightarrow> Some (m1, snd (end_cli cli_handle w), got, [])
      | Some (ret, Some hdr, m1, got) \<Rightarrow>
          if hdr_cmd hdr = 1 then
            (case call_dunix_ouv2 m1 3 (sc_in sc)
                    [\<lparr>iov_base = (6, 0), iov_len = 4\<rparr>, \<lparr>iov_base = (7, 0), iov_len = 4\<rparr>] 10 of
               None \<Rightarrow> None
             | Some (ret, m2, got2) \<Rightarrow>
                 if ret < 0 then Some (m2, snd (end_cli cli_handle w), got @ got2, [])
                 else
                   let c = to_i32 (load32 m2 (6, 0) 0 + load32 m2 (7, 0) 0);
                       m3 = store32s m2 (4, 0) [c] in
                   (case call_dunix_inv m3 3 (sc_out sc) 1 [\<lparr>iov_base = (4, 0), iov_len = 4\<rparr>] 10 of
                      None \<Rightarrow> None
                    | Some (ret, out) \<Rightarrow> Some (m3, w, got @ got2, out)))
          else Some (m1, w, got, []))"

fun rpc_srv_loop :: "mem \<Rightarrow> osw \<Rightarrow> srv_script list \<Rightarrow> (mem \<times> osw) option" where
  "rpc_srv_loop m w [] = None"
| "rpc_srv_loop m w (sc # scs) =
     (let (cli_handle, w1) = accept_srv (sc_accept sc) w in
      if cli_handle > 0 then
        (case rpc_srv_conn m w1 sc of
           None \<Rightarrow> None
         | Some (m2, w2, got, out) \<Rightarrow> rpc_srv_loop m2 w2 scs)
      else Some (m, w1))"

definition rpc_call_srv ::
  "mem \<Rightarrow> osw \<Rightarrow> int \<Rightarrow> int \<Rightarrow> int \<Rightarrow> srv_script list \<Rightarrow> (int \<times> osw) option" where
  "rpc_call_srv m w sock_r bind_r listen_r scs =
     (let (handle, w1) = begin_srv sock_r bind_r listen_r w in
      if handle < 0 then Some (- 1, w1)
      else map_option (\<lambda>(m', w2). (0, snd (end_srv handle w2))) (rpc_srv_loop m w1 scs))"

end
