(* ===== verification/Drpc_Props.thy ===== *)
theory Drpc_Props
  imports Drpc
begin

text \<open>
  What the RPC layer of \<open>local_rpc/drpc_core.cpp\<close> guarantees: the bytes a call puts on the
  wire, the round trip of a call from the client's arguments to the server's variables and
  back, termination of the receiving side, and the descriptors a call leaves open.
\<close>

section \<open>Headers in memory\<close>

lemma gather_store32s:
  "gather (store32s m p xs) (span p (4 * length xs)) = concat (map enc32 xs)"
  using gather_scatter [of "span p (4 * length xs)" "concat (map enc32 xs)" m]
  by (simp add: store32s_def)

lemma store32s_frame:
  "set ps \<inter> {q. fst q = fst p} = {} \<Longrightarrow> gather (store32s m p xs) ps = gather m ps"
  unfolding store32s_def by (rule gather_scatter_frame) (auto simp: set_span)

lemma dec32_take: "4 \<le> length bs \<Longrightarrow> dec32 (take 4 bs) = dec32 bs"
  by (simp add: dec32_def)

lemma load32_words:
  assumes "gather m (span p (4 * length xs)) = concat (map enc32 xs)" and "i < length xs"
  shows "load32 m p i = to_i32 (xs ! i)"
proof -
  have "span (fst p, snd p + 4 * i) 4 = take 4 (drop (4 * i) (span p (4 * length xs)))"
    using assms(2) by (cases p) (simp add: drop_span take_span)
  then have "load32 m p i = dec32 (take 4 (drop (4 * i) (concat (map enc32 xs))))"
    by (simp add: load32_def assms(1) [symmetric] take_gather drop_gather)
  also have "\<dots> = dec32 (drop (4 * i) (concat (map enc32 xs)))"
    using assms(2) by (intro dec32_take) simp
  finally show ?thesis using assms(2) by (simp add: dec32_concat_nth)
qed

lemma load32_store32s: "i < length xs \<Longrightarrow> load32 (store32s m p xs) p i = to_i32 (xs ! i)"
  by (rule load32_words [OF gather_store32s])

lemma sum_iov_fold:
  "0 \<le> a \<Longrightarrow> a + int (iov_total iov) < 2147483648 \<Longrightarrow>
     foldl (\<lambda>s v. to_i32 (s + int (iov_len v))) a iov = a + int (iov_total iov)"
  by (induction iov arbitrary: a) (simp_all add: c_conv)

lemma sum_iov_total: "int (iov_total iov) < 2147483648 \<Longrightarrow> sum_iov iov = int (iov_total iov)"
  using sum_iov_fold [of 0 iov] by (simp add: sum_iov_def)

section \<open>The packet a call sends\<close>

text \<open>The bytes of a packet: header, then parameter lengths, then the parameters.\<close>

definition packet :: "int \<Rightarrow> int list \<Rightarrow> byte list \<Rightarrow> byte list" where
  "packet cmd lens params =
     concat (map enc32 ([cmd, int (length params) + (int (length lens) + 8) * 4, int (length lens),
        0, 0, 0, 0, 0] @ lens)) @ params"

definition iov_lens :: "iovec list \<Rightarrow> int list" where
  "iov_lens iov = map (\<lambda>v. int (iov_len v)) iov"

lemma length_iov_lens [simp]: "length (iov_lens iov) = length iov"
  by (simp add: iov_lens_def)

text \<open>A vector a call may use: small enough for an \<open>int\<close> length, away from the header block.\<close>

definition iov_fits :: "nat \<Rightarrow> iovec list \<Rightarrow> bool" where
  "iov_fits hb iov \<longleftrightarrow> length iov + 1 \<le> IOV_MAX
     \<and> int (iov_total iov) + (int (length iov) + 8) * 4 < 2147483648
     \<and> (\<forall>p \<in> set (iov_addrs iov). fst p \<noteq> hb)"

lemma iov_len_le_total: "v \<in> set iov \<Longrightarrow> iov_len v \<le> iov_total iov"
  by (induction iov) auto

lemma pkt_len_fits:
  assumes "iov_fits hb iov"
  shows "pkt_len iov = int (iov_total (\<lparr>iov_base = (hb, 0), iov_len = 4 * (length iov + 8)\<rparr> # iov))"
  using assms by (simp add: pkt_len_def iov_fits_def sum_iov_total c_conv)

lemma inv_headinfo_fits:
  assumes "iov_fits hb iov"
  shows "concat (map enc32 (inv_headinfo cmd iov)) @ gather m (iov_addrs iov)
         = packet cmd (iov_lens iov) (gather m (iov_addrs iov))"
proof -
  have "map (\<lambda>v. to_i32 (int (iov_len v))) iov = iov_lens iov"
  proof (unfold iov_lens_def, rule map_cong [OF refl])
    fix v assume "v \<in> set iov"
    then have "int (iov_len v) < 2147483648"
      using iov_len_le_total [of v iov] assms by (simp add: iov_fits_def)
    then show "to_i32 (int (iov_len v)) = int (iov_len v)" by (simp add: c_conv)
  qed
  then have "inv_headinfo cmd iov = [cmd, int (iov_total iov) + (int (length iov) + 8) * 4,
      int (length iov), 0, 0, 0, 0, 0] @ iov_lens iov"
    using pkt_len_fits [OF assms] by (simp add: inv_headinfo_def algebra_simps)
  then show ?thesis by (simp only: packet_def length_gather length_iov_addrs length_iov_lens append_assoc)
qed

lemma inv_gather:
  assumes "iov_fits hb iov"
  shows "gather (store32s m (hb, 0) (inv_headinfo cmd iov))
           (iov_addrs (\<lparr>iov_base = (hb, 0), iov_len = 4 * (length iov + 8)\<rparr> # iov))
         = packet cmd (iov_lens iov) (gather m (iov_addrs iov))"
proof -
  have "gather (store32s m (hb, 0) (inv_headinfo cmd iov)) (iov_addrs iov) = gather m (iov_addrs iov)"
    using assms by (intro store32s_frame) (auto simp: iov_fits_def)
  moreover have "gather (store32s m (hb, 0) (inv_headinfo cmd iov)) (span (hb, 0) (4 * (length iov + 8)))
      = concat (map enc32 (inv_headinfo cmd iov))"
    using gather_store32s [of m "(hb, 0)" "inv_headinfo cmd iov"]
    by (simp add: inv_headinfo_def algebra_simps)
  ultimately show ?thesis
    using inv_headinfo_fits [OF assms] by (simp add: gather_append)
qed

lemma inv_spec:
  assumes "call_dunix_inv m hb es cmd iov timeout = Some (r, out)" and "iov_fits hb iov"
  shows "r \<le> 0 \<and> (\<exists>rest. out @ rest = packet cmd (iov_lens iov) (gather m (iov_addrs iov))
                    \<and> (r = 0 \<longleftrightarrow> rest = []))"
proof -
  let ?iov = "\<lparr>iov_base = (hb, 0), iov_len = 4 * (length iov + 8)\<rparr> # iov"
  let ?m = "store32s m (hb, 0) (inv_headinfo cmd iov)"
  let ?s = "xfer_init ?iov (length ?iov) (int (iov_total ?iov)) timeout"
  have "length iov + 1 \<le> IOV_MAX" using assms(2) by (simp add: iov_fits_def)
  then obtain t where l: "send_loop ?m es ?s = Some (r, t, out)"
    using assms by (auto simp: call_dunix_inv_def Let_def posix_do_send_def pkt_len_fits)
  have "xfer_ok ?s"
    using assms(2) by (intro xfer_init_ok) (simp add: iov_fits_def)
  then show ?thesis
    using send_loop_spec [OF l] by (simp only: xfer_init_pending inv_gather [OF assms(2)] simp_thms)
qed


section \<open>What a call receives\<close>

text \<open>A destination vector: addresses pairwise distinct and away from the header block.\<close>

definition iov_dest :: "nat \<Rightarrow> iovec list \<Rightarrow> bool" where
  "iov_dest hb iov \<longleftrightarrow> iov_fits hb iov \<and> distinct (iov_addrs iov)"

lemma do_recv_spec:
  assumes "posix_do_recv es m iov (length iov) (int (iov_total iov)) timeout = Some (r, m', t, got)"
    and "int (iov_total iov) < 2147483648"
  shows "r \<le> 0 \<and> length got \<le> iov_total iov \<and> m' = scatter m (iov_addrs iov) got
         \<and> (r = 0 \<longleftrightarrow> length got = iov_total iov)"
  using recv_loop_spec [OF assms(1) [unfolded posix_do_recv_def]] xfer_init_ok [OF assms(2), of timeout]
  by (simp only: xfer_init_pending simp_thms length_iov_addrs)

lemma ou_header_spec:
  assumes "call_dunix_ou_header m hb es timeout = Some (r, h, m', got)"
  shows "m' = scatter m (span (hb, 0) 32) got \<and> length got \<le> 32
     \<and> (length got = 32 \<longrightarrow> r = 0 \<and> h = Some \<lparr>hdr_cmd = dec32 got, hdr_len = dec32 (drop 4 got),
          hdr_cnt = dec32 (drop 8 got)\<rparr>)
     \<and> (length got \<noteq> 32 \<longrightarrow> r = - 2 \<and> h = None)"
proof -
  let ?iov = "[\<lparr>iov_base = (hb, 0), iov_len = 32\<rparr>] :: iovec list"
  obtain q t where rc: "posix_do_recv es m ?iov (length ?iov) (int (iov_total ?iov)) timeout
       = Some (q, m', t, got)"
     and rh: "r = (if q < 0 then - 2 else 0)" "h = (if q < 0 then None else
       Some \<lparr>hdr_cmd = load32 m' (hb, 0) 0, hdr_len = load32 m' (hb, 0) 1, hdr_cnt = load32 m' (hb, 0) 2\<rparr>)"
    using assms by (auto simp: call_dunix_ou_header_def split: if_splits)
  from do_recv_spec [OF rc] have s: "q \<le> 0" "length got \<le> 32" "m' = scatter m (span (hb, 0) 32) got"
      "q = 0 \<longleftrightarrow> length got = 32"
    by simp_all
  have ld: "load32 m' (hb, 0) i = dec32 (drop (4 * i) got)" if "length got = 32" "i < 8" for i
  proof -
    have "gather m' (span (hb, 0) 32) = got"
      using gather_scatter [of "span (hb, 0) 32" got m] that s(3) by simp
    moreover have "span (hb, 4 * i) 4 = take 4 (drop (4 * i) (span (hb, 0) 32))"
      using that(2) by (simp add: drop_span take_span)
    ultimately have "load32 m' (hb, 0) i = dec32 (take 4 (drop (4 * i) got))"
      by (simp add: load32_def flip: take_gather drop_gather)
    then show ?thesis using that by (simp add: dec32_take)
  qed
  show ?thesis using s rh ld [of 0] ld [of 1] ld [of 2] by auto
qed

text \<open>A full read into a header array followed by a destination vector.\<close>

lemma load_header_and_params:
  assumes "iov_dest hb iov" and "length got = 4 * n + iov_total iov"
    and "m' = scatter m (span (hb, 0) (4 * n) @ iov_addrs iov) got"
  shows "gather m' (iov_addrs iov) = drop (4 * n) got"
    and "i < n \<Longrightarrow> load32 m' (hb, 0) i = dec32 (drop (4 * i) got)"
proof -
  let ?ps = "span (hb, 0) (4 * n) @ iov_addrs iov"
  have "distinct ?ps"
    using assms(1) by (auto simp: iov_dest_def iov_fits_def set_span)
  then have all: "gather m' ?ps = got"
    using gather_scatter [of ?ps got m] assms(2,3) by simp
  show "gather m' (iov_addrs iov) = drop (4 * n) got"
    using arg_cong [OF all, of "drop (4 * n)"] by (simp add: gather_append)
  assume i: "i < n"
  have h: "gather m' (span (hb, 0) (4 * n)) = take (4 * n) got"
    using arg_cong [OF all, of "take (4 * n)"] by (simp add: gather_append)
  have "span (hb, 4 * i) 4 = take 4 (drop (4 * i) (span (hb, 0) (4 * n)))"
    using i by (simp add: drop_span take_span)
  then have "load32 m' (hb, 0) i = dec32 (take 4 (drop (4 * i) (take (4 * n) got)))"
    by (simp add: load32_def h flip: take_gather drop_gather)
  also have "\<dots> = dec32 (take 4 (drop (4 * i) got))"
    using i by (simp add: drop_take take_take min_def)
  also have "\<dots> = dec32 (drop (4 * i) got)"
    using i assms(2) by (simp add: dec32_take)
  finally show "load32 m' (hb, 0) i = dec32 (drop (4 * i) got)" .
qed

lemma dest_len:
  assumes "iov_dest hb iov" and "k \<le> 8"
  shows "int (iov_total (\<lparr>iov_base = (hb, 0), iov_len = 4 * (length iov + k)\<rparr> # iov)) < 2147483648"
  using assms by (simp add: iov_dest_def iov_fits_def)

lemma parse_header2_lens:
  "parse_header2 iov h = (if \<forall>i < length iov. to_size (h i) = int (iov_len (iov ! i)) then 0 else - 1)"
  by (auto simp: parse_header2_def)

lemma parse_header_lens:
  "parse_header cmd iov h = (if h 0 = cmd \<and> (\<forall>i < length iov. to_size (h (i + 8)) = int (iov_len (iov ! i)))
     then 0 else - 1)"
  by (auto simp: parse_header_def)

lemma ouv2_spec:
  assumes "call_dunix_ouv2 m hb es iov timeout = Some (r, m', got)" and "iov_dest hb iov"
  defines "full \<equiv> 4 * length iov + iov_total iov"
  defines "match \<equiv> \<forall>i < length iov. to_size (dec32 (drop (4 * i) got)) = int (iov_len (iov ! i))"
  shows "length got \<le> full"
    and "length got = full \<Longrightarrow> r = (if match then 0 else - 2)"
    and "length got = full \<Longrightarrow> gather m' (iov_addrs iov) = drop (4 * length iov) got"
    and "length got \<noteq> full \<Longrightarrow> r = - 2"
proof -
  let ?m = "store32s m (hb, 0) (replicate (length iov) 0)"
  let ?iov = "\<lparr>iov_base = (hb, 0), iov_len = 4 * length iov\<rparr> # iov"
  have c: "length iov + 1 \<le> IOV_MAX" and tot: "to_i32 (sum_iov iov + int (length iov) * 4) = int (iov_total ?iov)"
    using assms(2) by (simp_all add: iov_dest_def iov_fits_def sum_iov_total c_conv)
  obtain q t where rc: "posix_do_recv es ?m ?iov (length ?iov) (int (iov_total ?iov)) timeout = Some (q, m', t, got)"
    and r: "r = (if q < 0 \<or> parse_header2 iov (load32 m' (hb, 0)) < 0 then - 2 else 0)"
    using assms(1) c tot by (auto simp: call_dunix_ouv2_def Let_def split: if_splits)
  have s: "q \<le> 0" "length got \<le> full" "q = 0 \<longleftrightarrow> length got = full"
      "m' = scatter ?m (span (hb, 0) (4 * length iov) @ iov_addrs iov) got"
    using do_recv_spec [OF rc] dest_len [OF assms(2), of 0] by (simp_all add: full_def)
  show "length got \<le> full" by (fact s)
  show "r = - 2" if "length got \<noteq> full" using that s r by auto
  assume f: "length got = full"
  note ld = load_header_and_params [OF assms(2) f [unfolded full_def] s(4)]
  show "gather m' (iov_addrs iov) = drop (4 * length iov) got" by (fact ld(1))
  show "r = (if match then 0 else - 2)"
    using r s(3) f ld(2) by (auto simp: parse_header2_lens match_def)
qed

lemma ouv2_result:
  "call_dunix_ouv2 m hb es iov timeout = Some (r, m', got) \<Longrightarrow> iov_dest hb iov \<Longrightarrow>
     r \<noteq> - 2 \<Longrightarrow> r = 0 \<and> length got = 4 * length iov + iov_total iov"
  using ouv2_spec(2,4) by meson

lemma ouv_spec:
  assumes "call_dunix_ouv m hb es cmd iov timeout = Some (r, m', got)" and "iov_dest hb iov"
  defines "full \<equiv> 4 * (length iov + 8) + iov_total iov"
  defines "match \<equiv> dec32 got = cmd
     \<and> (\<forall>i < length iov. to_size (dec32 (drop (4 * (i + 8)) got)) = int (iov_len (iov ! i)))"
  shows "length got \<le> full"
    and "length got = full \<Longrightarrow> r = (if match then 0 else - 2)"
    and "length got = full \<Longrightarrow> gather m' (iov_addrs iov) = drop (4 * (length iov + 8)) got"
    and "length got \<noteq> full \<Longrightarrow> r = - 2"
proof -
  let ?m = "store32s m (hb, 0) (replicate (length iov + 8) 0)"
  let ?iov = "\<lparr>iov_base = (hb, 0), iov_len = 4 * (length iov + 8)\<rparr> # iov"
  have c: "length iov + 1 \<le> IOV_MAX" and tot: "pkt_len iov = int (iov_total ?iov)"
    using assms(2) pkt_len_fits [of hb iov] by (simp_all add: iov_dest_def iov_fits_def)
  obtain q t where rc: "posix_do_recv es ?m ?iov (length ?iov) (int (iov_total ?iov)) timeout = Some (q, m', t, got)"
    and r: "r = (if q < 0 \<or> parse_header cmd iov (load32 m' (hb, 0)) < 0 then - 2 else 0)"
    using assms(1) c tot by (auto simp: call_dunix_ouv_def Let_def split: if_splits)
  have s: "q \<le> 0" "length got \<le> full" "q = 0 \<longleftrightarrow> length got = full"
      "m' = scatter ?m (span (hb, 0) (4 * (length iov + 8)) @ iov_addrs iov) got"
    using do_recv_spec [OF rc] dest_len [OF assms(2), of 8] by (simp_all add: full_def)
  show "length got \<le> full" by (fact s)
  show "r = - 2" if "length got \<noteq> full" using that s r by auto
  assume f: "length got = full"
  note ld = load_header_and_params [OF assms(2) f [unfolded full_def] s(4)]
  show "gather m' (iov_addrs iov) = drop (4 * (length iov + 8)) got" by (fact ld(1))
  show "r = (if match then 0 else - 2)"
    using r s(3) f ld(2) [of 0] ld(2) [of "_ + 8"] by (auto simp: parse_header_lens match_def)
qed

section \<open>Decoding a packet\<close>

lemma dec32_append: "4 \<le> length bs \<Longrightarrow> dec32 (bs @ cs) = dec32 bs"
  by (auto simp: dec32_def nth_append)

lemma dec32_words_append:
  "i < length xs \<Longrightarrow> dec32 (drop (4 * i) (concat (map enc32 xs) @ bs)) = to_i32 (xs ! i)"
  by (simp add: dec32_append dec32_concat_nth)

lemma length_packet: "length (packet cmd lens params) = 4 * (length lens + 8) + length params"
  by (simp add: packet_def)

lemma packet_decode:
  defines "hs \<equiv> \<lambda>cmd lens params. [cmd, int (length (params :: byte list)) + (int (length lens) + 8) * 4,
     int (length lens), 0, 0, 0, 0, 0] @ lens"
  shows "i < length lens + 8 \<Longrightarrow> dec32 (drop (4 * i) (packet cmd lens params)) = to_i32 (hs cmd lens params ! i)"
  unfolding packet_def hs_def by (rule dec32_words_append) simp

lemma packet_decode_hdr:
  "dec32 (packet cmd lens params) = to_i32 cmd"
  "dec32 (drop 4 (packet cmd lens params)) = to_i32 (int (length params) + (int (length lens) + 8) * 4)"
  "dec32 (drop 8 (packet cmd lens params)) = to_i32 (int (length lens))"
  using packet_decode [of 0 lens cmd params] packet_decode [of 1 lens cmd params]
    packet_decode [of 2 lens cmd params] by simp_all

lemma packet_decode_len:
  "i < length lens \<Longrightarrow> dec32 (drop (4 * (i + 8)) (packet cmd lens params)) = to_i32 (lens ! i)"
  using packet_decode [of "i + 8" lens cmd params] by simp

lemma packet_params: "drop (4 * (length lens + 8)) (packet cmd lens params) = params"
  by (simp add: packet_def)

lemma iov_lens_to_size:
  assumes "iov_fits hb iov" and "i < length iov"
  shows "to_size (to_i32 (iov_lens iov ! i)) = int (iov_len (iov ! i))"
proof -
  have "iov_len (iov ! i) \<le> iov_total iov" using assms(2) by (simp add: iov_len_le_total)
  with assms show ?thesis by (simp add: iov_fits_def iov_lens_def c_conv)
qed

lemma iov_lens_total: "iov_lens iov = iov_lens iov2 \<Longrightarrow> iov_total iov = iov_total iov2"
proof -
  have "int (iov_total v) = sum_list (iov_lens v)" for v
    by (induction v) (simp_all add: iov_lens_def)
  then show "iov_lens iov = iov_lens iov2 \<Longrightarrow> iov_total iov = iov_total iov2"
    by (metis of_nat_eq_iff)
qed

lemma iov_lens_eqD:
  "iov_lens iov = iov_lens iov2 \<Longrightarrow> length iov = length iov2"
  "iov_lens iov = iov_lens iov2 \<Longrightarrow> i < length iov \<Longrightarrow> iov_len (iov ! i) = iov_len (iov2 ! i)"
proof -
  assume e: "iov_lens iov = iov_lens iov2"
  from arg_cong [OF e, of length] show l: "length iov = length iov2" by simp
  assume "i < length iov"
  with l arg_cong [OF e, of "\<lambda>xs. xs ! i"] show "iov_len (iov ! i) = iov_len (iov2 ! i)"
    by (simp add: iov_lens_def)
qed

section \<open>Properties of a call\<close>

lemma inv_ok_packet:
  "call_dunix_inv m hb es cmd iov timeout = Some (0, out) \<Longrightarrow> iov_fits hb iov \<Longrightarrow>
     out = packet cmd (iov_lens iov) (gather m (iov_addrs iov))"
  using inv_spec by fastforce

lemma stream_split:
  assumes "length got1 \<le> a" and "length got2 \<le> b" and "got1 @ got2 = out" and "length out = a + b"
  shows "length got1 = a" and "length got2 = b" and "got1 = take a out" and "got2 = drop a out"
proof -
  have "length got1 + length got2 = a + b" using assms(3,4) by (metis length_append)
  with assms(1,2) show "length got1 = a" "length got2 = b" by simp_all
  with assms(3) show "got1 = take a out" "got2 = drop a out" by auto
qed

lemma request_roundtrip:
  assumes snd: "call_dunix_inv m hb es cmd iov tm = Some (0, out)" "iov_fits hb iov" "in_i32 cmd"
    and hd: "call_dunix_ou_header m2 hb2 es1 tm1 = Some (r1, h, m3, got1)"
    and rcv: "call_dunix_ouv2 m3' hb2 es2 iov2 tm2 = Some (r2, m4, got2)" "iov_dest hb2 iov2"
    and stream: "got1 @ got2 = out" and lens: "iov_lens iov2 = iov_lens iov"
  shows "r1 = 0 \<and> h = Some \<lparr>hdr_cmd = cmd, hdr_len = int (length out), hdr_cnt = int (length iov)\<rparr>
     \<and> r2 = 0 \<and> gather m4 (iov_addrs iov2) = gather m (iov_addrs iov)"
proof -
  let ?P = "packet cmd (iov_lens iov) (gather m (iov_addrs iov))"
  have out: "out = ?P" using snd by (intro inv_ok_packet)
  note n = iov_lens_eqD(1) [OF lens] and tot = iov_lens_total [OF lens]
  have len: "length out = 32 + (4 * length iov2 + iov_total iov2)"
    using n tot by (simp add: out length_packet)
  note h = ou_header_spec [OF hd]
  have sp: "length got1 = 32" "length got2 = 4 * length iov2 + iov_total iov2" "got1 = take 32 out"
      "got2 = drop 32 out"
    using stream_split [OF _ ouv2_spec(1) [OF rcv] stream len] h by auto
  have le: "length out < 2147483648" "length iov < 2147483648"
    using snd(2) by (simp_all add: out length_packet iov_fits_def)
  have "dec32 (take 32 out) = cmd" "dec32 (drop 4 (take 32 out)) = int (length out)"
       "dec32 (drop 8 (take 32 out)) = int (length iov)"
  proof -
    have t: "dec32 (drop k (take 32 out)) = dec32 (drop k out)" if "k \<le> 8" for k
      using that len by (simp add: dec32_def)
    show "dec32 (take 32 out) = cmd"
      using t [of 0] snd(3) by (simp add: out packet_decode_hdr to_i32_id)
    show "dec32 (drop 4 (take 32 out)) = int (length out)"
      using t [of 4] le len n tot by (simp add: out packet_decode_hdr c_conv)
    show "dec32 (drop 8 (take 32 out)) = int (length iov)"
      using t [of 8] le by (simp add: out packet_decode_hdr c_conv)
  qed
  with h sp have hdr: "r1 = 0"
      "h = Some \<lparr>hdr_cmd = cmd, hdr_len = int (length out), hdr_cnt = int (length iov)\<rparr>"
    by auto
  have "to_size (dec32 (drop (4 * i) got2)) = int (iov_len (iov2 ! i))" if "i < length iov2" for i
    using that packet_decode_len [of i "iov_lens iov" cmd "gather m (iov_addrs iov)"] n sp
      iov_lens_to_size [OF snd(2), of i] iov_lens_eqD(2) [OF lens that]
    by (simp add: out add.commute)
  then have "r2 = 0" using ouv2_spec(2) [OF rcv sp(2)] by simp
  moreover have "gather m4 (iov_addrs iov2) = gather m (iov_addrs iov)"
    using ouv2_spec(3) [OF rcv sp(2)] sp n packet_params [of "iov_lens iov" cmd]
    by (simp add: out add.commute)
  ultimately show ?thesis using hdr by simp
qed

section \<open>One call end to end\<close>

abbreviation two_ints :: "iovec list" where
  "two_ints \<equiv> [\<lparr>iov_base = (6, 0), iov_len = 4\<rparr>, \<lparr>iov_base = (7, 0), iov_len = 4\<rparr>]"

abbreviation one_int :: "iovec list" where
  "one_int \<equiv> [\<lparr>iov_base = (4, 0), iov_len = 4\<rparr>]"

lemma iov_dest_locals [simp]:
  "iov_dest 3 two_ints" "iov_dest 3 one_int" "iov_fits 3 two_ints" "iov_fits 3 one_int"
proof -
  show "iov_dest 3 two_ints" "iov_dest 3 one_int"
    by (auto simp: iov_dest_def iov_fits_def set_span)
  then show "iov_fits 3 two_ints" "iov_fits 3 one_int" by (simp_all add: iov_dest_def)
qed

lemma gather_int: "gather (store32s m p [x]) (span p 4) = enc32 x"
  using gather_store32s [of m p "[x]"] by simp

lemma gather_operands:
  "gather (store32s (store32s m (6, 0) [a]) (7, 0) [b]) (iov_addrs two_ints) = enc32 a @ enc32 b"
proof -
  have "gather (store32s (store32s m (6, 0) [a]) (7, 0) [b]) (span (6, 0) 4) = enc32 a"
    by (subst store32s_frame) (auto simp: set_span gather_int)
  then show ?thesis by (simp add: gather_append gather_int)
qed

lemma load32_int: "gather m (span p 4) = enc32 x \<Longrightarrow> load32 m p 0 = to_i32 x"
  using load32_words [of m p "[x]" 0] by simp

lemma operands_loaded:
  assumes "gather m (iov_addrs two_ints) = enc32 a @ enc32 b"
  shows "load32 m (6, 0) 0 = to_i32 a" and "load32 m (7, 0) 0 = to_i32 b"
  using assms by (auto simp: gather_append intro!: load32_int)

lemma va_iov_parms [simp]:
  "va_iov (PARM2 (6, 0) (7, 0)) = two_ints" "va_iov (PARM1 (4, 0)) = one_int"
  by (simp_all add: PARM1_def PARM2_def)

text \<open>The reply a client decodes is the packet the server sent.\<close>

lemma reply_roundtrip:
  assumes "call_dunix_inv m hb es cmd iov tm = Some (0, out)" "iov_fits hb iov" "in_i32 cmd"
    and "call_dunix_ouv m2 hb2 es2 cmd iov2 tm2 = Some (r, m3, got)" "iov_dest hb2 iov2"
    and "got = out" and "iov_lens iov2 = iov_lens iov"
  shows "r = 0 \<and> gather m3 (iov_addrs iov2) = gather m (iov_addrs iov)"
proof -
  have out: "out = packet cmd (iov_lens iov) (gather m (iov_addrs iov))"
    using assms(1,2) by (rule inv_ok_packet)
  note n = iov_lens_eqD(1) [OF assms(7)] and tot = iov_lens_total [OF assms(7)]
  have full: "length got = 4 * (length iov2 + 8) + iov_total iov2"
    using n tot assms(6) by (simp add: out length_packet)
  have "to_size (dec32 (drop (4 * (i + 8)) got)) = int (iov_len (iov2 ! i))" if "i < length iov2" for i
    using that packet_decode_len [of i "iov_lens iov" cmd "gather m (iov_addrs iov)"] n assms(6)
      iov_lens_to_size [OF assms(2), of i] iov_lens_eqD(2) [OF assms(7) that]
    by (simp add: out)
  moreover have "dec32 got = cmd"
    using assms(3,6) by (simp add: out packet_decode_hdr to_i32_id)
  ultimately have "r = 0" using ouv_spec(2) [OF assms(4,5) full] by simp
  moreover have "gather m3 (iov_addrs iov2) = gather m (iov_addrs iov)"
    using ouv_spec(3) [OF assms(4,5) full] n assms(6) packet_params [of "iov_lens iov" cmd]
    by (simp add: out)
  ultimately show ?thesis by simp
qed

lemma dispatch_plusE:
  assumes "dispatch m ei eo 1 = Some (0, m3, got, out)"
  obtains m0 m1 c where "call_dunix_ouv2 m0 3 ei two_ints 1000 = Some (0, m1, got)"
    and "c = to_i32 (load32 m1 (6, 0) 0 + load32 m1 (7, 0) 0)"
    and "call_dunix_inv (store32s m1 (4, 0) [c]) 3 eo 1 one_int 1000 = Some (0, out)"
proof -
  let ?m0 = "store32s (store32s m (6, 0) [0]) (7, 0) [0]"
  obtain r m1 where i: "call_dunix_ouv2 ?m0 3 ei two_ints 1000 = Some (r, m1, got)" and r: "\<not> r < 0"
    using assms by (auto simp: dispatch_def input_param_srv_def Let_def split: option.splits if_splits)
  let ?c = "to_i32 (load32 m1 (6, 0) 0 + load32 m1 (7, 0) 0)"
  obtain r2 where o: "call_dunix_inv (store32s m1 (4, 0) [?c]) 3 eo 1 one_int 1000 = Some (r2, out)"
      and r2: "\<not> r2 < 0"
    using assms i r by (auto simp: dispatch_def input_param_srv_def output_param_srv_def Let_def
        split: option.splits if_splits)
  have "r2 = 0" using inv_spec [OF o] r2 by simp
  moreover have "r = 0"
    using ouv2_result [OF i iov_dest_locals(1)] r by fastforce
  ultimately show thesis using that i o by blast
qed

lemma srv_connE:
  assumes "srv_conn m w sc = Some (0, m', w', sin, sout)"
  obtains m1 hdr got1 got2 where
      "call_dunix_ou_header m 3 (sc_head sc) 1000 = Some (0, Some hdr, m1, got1)"
    and "dispatch m1 (sc_in sc) (sc_out sc) (hdr_cmd hdr) = Some (0, m', got2, sout)"
    and "sin = got1 @ got2" and "length got1 = 32" and "hdr_cmd hdr = dec32 got1"
proof -
  obtain r h m1 got1 where hd: "call_dunix_ou_header m 3 (sc_head sc) 1000 = Some (r, h, m1, got1)"
    using assms by (auto simp: srv_conn_def fetch_head_srv_def Let_def split: option.splits)
  note s = ou_header_spec [OF hd]
  have h: "length got1 = 32"
    using assms s hd by (cases "length got1 = 32") (auto simp: srv_conn_def fetch_head_srv_def Let_def)
  with s obtain hdr where hdr: "h = Some hdr" "r = 0" "hdr_cmd hdr = dec32 got1" by auto
  then show thesis
    using assms hd h that by (auto simp: srv_conn_def fetch_head_srv_def Let_def split: option.splits)
qed

lemma cli_plusE:
  assumes "drpc_cli_plus m w sock_r connect_r es_out es_in a b = Some (v, w', cout, cin)"
    and "0 \<le> sock_r" and "0 \<le> connect_r"
  defines "mc \<equiv> store32s (store32s m (6, 0) [a]) (7, 0) [b]"
  obtains r where "call_dunix_inv mc 3 es_out 1 two_ints 1000 = Some (r, cout)"
    and "r < 0 \<Longrightarrow> v = - 1 \<and> cin = []"
    and "\<not> r < 0 \<Longrightarrow> \<exists>ret m2. call_dunix_ouv (store32s mc (4, 0) [0]) 3 es_in 1 one_int 1000
           = Some (ret, m2, cin) \<and> v = (if ret < 0 then - 1 else load32 m2 (4, 0) 0)"
proof -
  have b: "begin_cli sock_r connect_r w = (sock_r, os_open sock_r w)"
    using assms(2,3) by (simp add: begin_cli_def Let_def)
  obtain r out where i: "call_dunix_inv mc 3 es_out 1 two_ints 1000 = Some (r, out)"
    using assms b by (auto simp: drpc_cli_plus_def input_param_cli_def Let_def split: option.splits)
  show thesis
    using assms b i that [of r]
    by (cases "r < 0")
      (auto simp: drpc_cli_plus_def input_param_cli_def output_param_cli_def Let_def
        split: option.splits)
qed

lemma plus_call:
  assumes cli: "drpc_cli_plus mc wc sock_r connect_r es_out es_in a b = Some (v, wc', cout, cin)"
    and srv: "srv_conn ms ws sc = Some (0, ms', ws', sin, sout)"
    and wire: "sin = cout" "cin = sout" and conn: "0 \<le> sock_r" "0 \<le> connect_r"
  shows "v = to_i32 (a + b)"
proof -
  let ?mc = "store32s (store32s mc (6, 0) [a]) (7, 0) [b]"
  from cli_plusE [OF cli conn] obtain r where
      i: "call_dunix_inv ?mc 3 es_out 1 two_ints 1000 = Some (r, cout)"
    and ok: "\<not> r < 0 \<Longrightarrow> \<exists>ret m2. call_dunix_ouv (store32s ?mc (4, 0) [0]) 3 es_in 1 one_int 1000
           = Some (ret, m2, cin) \<and> v = (if ret < 0 then - 1 else load32 m2 (4, 0) 0)"
    by metis
  from inv_spec [OF i iov_dest_locals(3)] obtain rest where
      rest: "cout @ rest = packet 1 (iov_lens two_ints) (enc32 a @ enc32 b)" "r = 0 \<longleftrightarrow> rest = []"
    by (metis gather_operands)
  from srv_connE [OF srv] obtain m1 hdr got1 got2 where
      hd: "call_dunix_ou_header ms 3 (sc_head sc) 1000 = Some (0, Some hdr, m1, got1)"
    and di: "dispatch m1 (sc_in sc) (sc_out sc) (hdr_cmd hdr) = Some (0, ms', got2, sout)"
    and sin: "sin = got1 @ got2" "length got1 = 32" "hdr_cmd hdr = dec32 got1" .
  have "dec32 (got1 @ got2 @ rest) = dec32 (packet 1 (iov_lens two_ints) (enc32 a @ enc32 b))"
    using rest(1) sin(1) wire(1) by simp
  then have "hdr_cmd hdr = 1"
    using sin(2,3) by (simp add: dec32_append packet_decode_hdr c_conv)
  with di have "dispatch m1 (sc_in sc) (sc_out sc) 1 = Some (0, ms', got2, sout)" by simp
  then obtain m0 m2 c where rcv: "call_dunix_ouv2 m0 3 (sc_in sc) two_ints 1000 = Some (0, m2, got2)"
    and c: "c = to_i32 (load32 m2 (6, 0) 0 + load32 m2 (7, 0) 0)"
    and rep: "call_dunix_inv (store32s m2 (4, 0) [c]) 3 (sc_out sc) 1 one_int 1000 = Some (0, sout)"
    by (rule dispatch_plusE)
  have "length got2 = 16"
    using ouv2_result [OF rcv iov_dest_locals(1)] by simp
  then have full: "rest = []" "r = 0"
    using rest sin wire arg_cong [OF rest(1), of length] by (simp_all add: length_packet)
  then have "call_dunix_inv ?mc 3 es_out 1 two_ints 1000 = Some (0, got1 @ got2)"
    using i sin wire by simp
  from request_roundtrip [OF this _ _ hd rcv _ refl refl]
  have "gather m2 (iov_addrs two_ints) = enc32 a @ enc32 b"
    by (simp add: gather_operands in_i32_def del: iov_addrs_simps)
  from operands_loaded [OF this] have c': "c = to_i32 (a + b)"
    by (simp add: c to_i32_add)
  from ok full obtain ret m4 where
      o: "call_dunix_ouv (store32s ?mc (4, 0) [0]) 3 es_in 1 one_int 1000 = Some (ret, m4, cin)"
    and v: "v = (if ret < 0 then - 1 else load32 m4 (4, 0) 0)" by auto
  from reply_roundtrip [OF rep _ _ o _ wire(2) refl]
  have "ret = 0" "gather m4 (span (4, 0) 4) = enc32 c"
    by (simp_all add: in_i32_def gather_int)
  then show ?thesis using v c' by (simp add: load32_int)
qed

section \<open>Time limits\<close>

definition ev_again :: sysev where
  "ev_again = \<lparr>sel_r = 1, sel_isset = True, sel_errno = 0, sel_tv = 500, io_r = - 1, io_errno = EAGAIN,
     io_data = []\<rparr>"

lemma send_iter_again:
  "\<exists>u. send_iter m ev_again s = (Inr u, s\<lparr>x_tvs := x_tvs s @ [x_tv s], x_tv := 500, x_err := EAGAIN\<rparr>, [])"
  by (simp add: send_iter_def ev_again_def Let_def sys_writev_def again_def)

lemma send_loop_again:
  "timeout_ms s > 0 \<Longrightarrow> remain_bytes s > 0 \<Longrightarrow> send_loop m (replicate n ev_again) s = None"
proof (induction n arbitrary: s)
  case 0
  then show ?case by (subst send_loop.simps) simp
next
  case (Suc n)
  obtain u where it: "send_iter m ev_again s
      = (Inr u, s\<lparr>x_tvs := x_tvs s @ [x_tv s], x_tv := 500, x_err := EAGAIN\<rparr>, [])"
    using send_iter_again by blast
  show ?case
    using Suc.prems by (subst send_loop.simps) (simp add: it Suc.IH)
qed

lemma timeout_ms_init:
  "0 \<le> timeout \<Longrightarrow> timeout \<le> 2147483 \<Longrightarrow>
     timeout_ms (xfer_init iov count n timeout) = nat (timeout * 1000)"
  by (simp add: xfer_init_def c_conv)

section \<open>Descriptors\<close>

lemma begin_cli_fds:
  assumes "begin_cli sock_r connect_r w = (h, w')" and "sock_r \<notin> set (w_fds w)"
  shows "w_fds w' = (if h < 0 then w_fds w else h # w_fds w)"
  using assms by (auto simp: begin_cli_def os_open_def os_close_def Let_def split: if_splits)

lemma end_cli_fds: "h \<notin> set fs \<Longrightarrow> w_fds w = h # fs \<Longrightarrow> w_fds (snd (end_cli h w)) = fs"
  by (simp add: end_cli_def os_close_def)

lemma begin_cli_handle:
  "begin_cli sock_r connect_r w = (h, w') \<Longrightarrow> \<not> h < 0 \<Longrightarrow> h = sock_r"
  by (auto simp: begin_cli_def Let_def split: if_splits)

lemma input_param_cli_fds:
  assumes "input_param_cli m hb es sock_r connect_r w cmd args = Some (h, w', out)"
    and "sock_r \<notin> set (w_fds w)"
  shows "w_fds w' = (if h < 0 then w_fds w else h # w_fds w) \<and> (\<not> h < 0 \<longrightarrow> h = sock_r)"
proof -
  obtain h1 w1 where b: "begin_cli sock_r connect_r w = (h1, w1)"
    by (cases "begin_cli sock_r connect_r w")
  note f = begin_cli_fds [OF b assms(2)] begin_cli_handle [OF b]
  show ?thesis
    using assms f by (auto simp: input_param_cli_def b end_cli_fds Let_def split: if_splits)
qed

lemma drpc_cli_plus_fds:
  assumes "drpc_cli_plus m w sock_r connect_r es_out es_in a b = Some (v, w', cout, cin)"
    and "sock_r \<notin> set (w_fds w)"
  shows "w_fds w' = w_fds w"
  using assms by (auto simp: drpc_cli_plus_def Let_def end_cli_fds
      dest!: input_param_cli_fds split: option.splits if_splits)

lemma srv_conn_fds:
  assumes "srv_conn m w sc = Some (r, m', w', sin, sout)"
  shows "w_fds w' = (if r < 0 then removeAll (sc_accept sc) (w_fds w) else w_fds w)"
proof -
  obtain r1 h m1 got1 where hd: "call_dunix_ou_header m 3 (sc_head sc) 1000 = Some (r1, h, m1, got1)"
    using assms by (auto simp: srv_conn_def fetch_head_srv_def Let_def split: option.splits)
  then have "h = None \<longrightarrow> r1 < 0" using ou_header_spec [OF hd] by auto
  with assms hd show ?thesis
    by (auto simp: srv_conn_def fetch_head_srv_def Let_def end_cli_def os_close_def split: option.splits)
qed

section \<open>Properties\<close>

text \<open>Scripts for the witnesses: one iteration that moves everything offered.\<close>

definition ev_out :: "nat \<Rightarrow> sysev" where
  "ev_out n = \<lparr>sel_r = 1, sel_isset = True, sel_errno = 0, sel_tv = 500, io_r = int n, io_errno = 0,
     io_data = []\<rparr>"

definition ev_in :: "byte list \<Rightarrow> sysev" where
  "ev_in bs = \<lparr>sel_r = 1, sel_isset = True, sel_errno = 0, sel_tv = 500, io_r = 1, io_errno = 0,
     io_data = bs\<rparr>"

abbreviation m_zero :: mem where "m_zero \<equiv> \<lambda>_. 0"

abbreviation req_2_3 :: "byte list" where
  "req_2_3 \<equiv> packet 1 [4, 4] (enc32 2 @ enc32 3)"

abbreviation rep_5 :: "byte list" where
  "rep_5 \<equiv> packet 1 [4] (enc32 5)"

text \<open>One event that moves everything makes each operation succeed.\<close>

lemma send_loop_one:
  assumes "xfer_ok s" and "0 < remain_bytes s" and "0 < timeout_ms s" and "length (xfer_active s) \<le> n"
  shows "\<exists>t. send_loop m [ev_out n] s = Some (0, t, gather m (xfer_active s))"
proof -
  let ?bs = "gather m (xfer_active s)"
  have w: "sys_writev (ev_out n) ?bs = int (length (xfer_active s))"
    using assms by (simp add: sys_writev_def ev_out_def)
  have r: "remain_bytes s = int (length (xfer_active s))" using assms by (simp add: xfer_ok_def)
  obtain u t where it: "send_iter m (ev_out n) s = (Inr u, t, ?bs)" "remain_bytes t = 0"
    using assms r w by (auto simp: send_iter_def Let_def ev_out_def)
  then show ?thesis
    using assms by (auto simp: send_loop.simps loop_exit_def)
qed

lemma recv_loop_one:
  assumes "xfer_ok s" and "0 < remain_bytes s" and "0 < timeout_ms s"
    and "length (xfer_active s) = length bs"
  shows "\<exists>t. recv_loop [ev_in bs] m s = Some (0, scatter m (xfer_active s) bs, t, bs)"
proof -
  have r: "remain_bytes s = int (length bs)" using assms by (simp add: xfer_ok_def)
  have d: "sys_readv (ev_in bs) (xfer_active s) = (int (length bs), bs)"
    using assms by (simp add: sys_readv_def ev_in_def)
  obtain u t where it: "recv_iter (ev_in bs) m s = (Inr u, scatter m (xfer_active s) bs, t, bs)"
      "remain_bytes t = 0"
    using assms r d by (auto simp: recv_iter_def Let_def ev_in_def)
  then show ?thesis
    using assms by (auto simp: recv_loop.simps loop_exit_def)
qed

lemma inv_one:
  assumes "iov_fits hb iov" and "0 < timeout" and "timeout \<le> 2147483"
    and "length (packet cmd (iov_lens iov) (gather m (iov_addrs iov))) \<le> n"
  shows "call_dunix_inv m hb [ev_out n] cmd iov timeout
           = Some (0, packet cmd (iov_lens iov) (gather m (iov_addrs iov)))"
proof -
  let ?iov = "\<lparr>iov_base = (hb, 0), iov_len = 4 * (length iov + 8)\<rparr> # iov"
  let ?m = "store32s m (hb, 0) (inv_headinfo cmd iov)"
  let ?s = "xfer_init ?iov (length ?iov) (int (iov_total ?iov)) timeout"
  have ok: "xfer_ok ?s" using assms(1) by (intro xfer_init_ok) (simp add: iov_fits_def)
  have pos: "0 < remain_bytes ?s" "0 < timeout_ms ?s"
    using assms(2,3) by (simp_all add: xfer_init_def c_conv)
  have act: "xfer_active ?s = iov_addrs ?iov" by (simp add: xfer_init_def iov_active_def)
  have "length (xfer_active ?s) \<le> n"
    using assms(4) by (simp only: act) (simp add: length_packet)
  from send_loop_one [OF ok pos this, of ?m] obtain t where "send_loop ?m [ev_out n] ?s
      = Some (0, t, packet cmd (iov_lens iov) (gather m (iov_addrs iov)))"
    by (simp only: act inv_gather [OF assms(1)]) blast
  moreover have "length iov + 1 \<le> IOV_MAX" using assms(1) by (simp add: iov_fits_def)
  ultimately show ?thesis
    using pkt_len_fits [OF assms(1)] by (simp add: call_dunix_inv_def Let_def posix_do_send_def)
qed

lemma do_recv_one:
  assumes "int (iov_total iov) < 2147483648" and "length bs = iov_total iov" and "bs \<noteq> []"
    and "0 < timeout" and "timeout \<le> 2147483"
  shows "\<exists>t. posix_do_recv [ev_in bs] m iov (length iov) (int (iov_total iov)) timeout
     = Some (0, scatter m (iov_addrs iov) bs, t, bs)"
proof -
  let ?s = "xfer_init iov (length iov) (int (iov_total iov)) timeout"
  have "0 < iov_total iov" using assms(2,3) by (metis length_greater_0_conv)
  then have "0 < remain_bytes ?s" "0 < timeout_ms ?s" "xfer_active ?s = iov_addrs iov"
    using assms by (auto simp: xfer_init_def c_conv iov_active_def)
  with recv_loop_one [OF xfer_init_ok [OF assms(1)], of timeout bs m] assms show ?thesis
    by (simp add: posix_do_recv_def)
qed

lemma ou_header_one:
  assumes "length bs = 32" and "0 < timeout" and "timeout \<le> 2147483"
  shows "\<exists>r h m'. call_dunix_ou_header m hb [ev_in bs] timeout = Some (r, h, m', bs)"
proof -
  have "bs \<noteq> []" using assms(1) by auto
  with do_recv_one [of "[\<lparr>iov_base = (hb, 0), iov_len = 32\<rparr>]" bs timeout m] assms show ?thesis
    by (fastforce simp: call_dunix_ou_header_def)
qed

lemma ouv2_one:
  assumes "iov_dest hb iov" and "length bs = 4 * length iov + iov_total iov" and "bs \<noteq> []"
    and "0 < timeout" and "timeout \<le> 2147483"
  shows "\<exists>r m'. call_dunix_ouv2 m hb [ev_in bs] iov timeout = Some (r, m', bs)"
proof -
  let ?iov = "\<lparr>iov_base = (hb, 0), iov_len = 4 * length iov\<rparr> # iov"
  have c: "length iov + 1 \<le> IOV_MAX" and tot: "to_i32 (sum_iov iov + int (length iov) * 4) = int (iov_total ?iov)"
    using assms(1) by (simp_all add: iov_dest_def iov_fits_def sum_iov_total c_conv)
  have "int (iov_total ?iov) < 2147483648" "length bs = iov_total ?iov"
    using dest_len [OF assms(1), of 0] assms(2) by simp_all
  from do_recv_one [OF this assms(3-5)] c tot show ?thesis
    by (fastforce simp: call_dunix_ouv2_def Let_def)
qed

lemma ouv_one:
  assumes "iov_dest hb iov" and "length bs = 4 * (length iov + 8) + iov_total iov"
    and "0 < timeout" and "timeout \<le> 2147483"
  shows "\<exists>r m'. call_dunix_ouv m hb [ev_in bs] cmd iov timeout = Some (r, m', bs)"
proof -
  let ?iov = "\<lparr>iov_base = (hb, 0), iov_len = 4 * (length iov + 8)\<rparr> # iov"
  have c: "length iov + 1 \<le> IOV_MAX" and tot: "pkt_len iov = int (iov_total ?iov)"
    using assms(1) pkt_len_fits [of hb iov] by (simp_all add: iov_dest_def iov_fits_def)
  have "int (iov_total ?iov) < 2147483648" "length bs = iov_total ?iov" "bs \<noteq> []"
    using dest_len [OF assms(1), of 8] assms(2) by auto
  from do_recv_one [OF this assms(3-4)] c tot show ?thesis
    by (fastforce simp: call_dunix_ouv_def Let_def)
qed

abbreviation m_2_3 :: mem where
  "m_2_3 \<equiv> store32s (store32s m_zero (6, 0) [2]) (7, 0) [3]"

lemma lens_locals: "iov_lens two_ints = [4, 4]" "iov_lens one_int = [4]"
  by (simp_all add: iov_lens_def)

lemma send_2_3:
  "call_dunix_inv m_2_3 3 [ev_out 48] 1 two_ints 1000 = Some (0, req_2_3)"
  using inv_one [of 3 two_ints 1000 1 m_2_3 48] by (simp only: gather_operands lens_locals) (simp add: length_packet)

lemma fetch_2_3:
  "\<exists>r h m'. call_dunix_ou_header m 3 [ev_in (take 32 req_2_3)] 1000 = Some (r, h, m', take 32 req_2_3)"
  by (rule ou_header_one) (simp_all add: length_packet)

lemma read_2_3:
  "\<exists>r m'. call_dunix_ouv2 m 3 [ev_in (drop 32 req_2_3)] two_ints 1000 = Some (r, m', drop 32 req_2_3)"
proof -
  have "length (drop 32 req_2_3) = 16" by (simp add: length_packet)
  moreover from this have "drop 32 req_2_3 \<noteq> []" by (metis list.size(3) zero_neq_numeral)
  ultimately show ?thesis by (intro ouv2_one) simp_all
qed

lemma reply_5:
  "call_dunix_inv (store32s m (4, 0) [5]) 3 [ev_out 40] 1 one_int 1000 = Some (0, rep_5)"
  using inv_one [of 3 one_int 1000 1 "store32s m (4, 0) [5]" 40]
  by (simp add: gather_int lens_locals length_packet)

lemma client_2_3:
  "\<exists>v w'. drpc_cli_plus m_zero w 7 0 [ev_out 48] [ev_in rep_5] 2 3 = Some (v, w', req_2_3, rep_5)"
proof -
  obtain r m' where "call_dunix_ouv (store32s m_2_3 (4, 0) [0]) 3 [ev_in rep_5] 1 one_int 1000
      = Some (r, m', rep_5)"
    using ouv_one [of 3 one_int rep_5 1000 "store32s m_2_3 (4, 0) [0]" 1] by (auto simp: length_packet)
  then show ?thesis
    using send_2_3
    by (simp add: drpc_cli_plus_def input_param_cli_def output_param_cli_def begin_cli_def Let_def)
qed

definition sc_2_3 :: srv_script where
  "sc_2_3 = \<lparr>sc_accept = 9, sc_head = [ev_in (take 32 req_2_3)], sc_in = [ev_in (drop 32 req_2_3)],
     sc_out = [ev_out 40]\<rparr>"

lemma server_2_3: "\<exists>ms' ws'. srv_conn m w sc_2_3 = Some (0, ms', ws', req_2_3, rep_5)"
proof -
  obtain r h m1 where hd: "call_dunix_ou_header m 3 [ev_in (take 32 req_2_3)] 1000
      = Some (r, h, m1, take 32 req_2_3)" using fetch_2_3 by blast
  let ?m0 = "store32s (store32s m1 (6, 0) [0]) (7, 0) [0]"
  obtain r2 m2 where rd: "call_dunix_ouv2 ?m0 3 [ev_in (drop 32 req_2_3)] two_ints 1000
      = Some (r2, m2, drop 32 req_2_3)" using read_2_3 by blast
  from request_roundtrip [OF send_2_3 _ _ hd rd _ append_take_drop_id refl]
  have rt: "r = 0" "h = Some \<lparr>hdr_cmd = 1, hdr_len = int (length req_2_3), hdr_cnt = 2\<rparr>" "r2 = 0"
      "gather m2 (iov_addrs two_ints) = enc32 2 @ enc32 3"
    by (simp_all add: in_i32_def gather_operands del: iov_addrs_simps)
  have "load32 m2 (6, 0) 0 = 2" "load32 m2 (7, 0) 0 = 3"
    using operands_loaded [OF rt(4)] by (simp_all add: c_conv)
  then have "dispatch m1 [ev_in (drop 32 req_2_3)] [ev_out 40] 1
      = Some (0, store32s m2 (4, 0) [5], drop 32 req_2_3, rep_5)"
    using rd rt reply_5
    by (simp add: dispatch_def input_param_srv_def output_param_srv_def Let_def c_conv)
  then show ?thesis
    using hd rt by (simp add: srv_conn_def sc_2_3_def fetch_head_srv_def)
qed

text \<open>
  The bytes \<open>__posix_call_dunix_inv\<close> writes are a prefix of the packet of the call (header,
  parameter lengths, parameters in order), whatever the partial writes, the retries and the
  error; the call returns 0 exactly when the packet is out completely.
\<close>

theorem call_sends_packet:
  assumes "call_dunix_inv m hb es cmd iov timeout = Some (r, out)" and "iov_fits hb iov"
  shows "r \<le> 0 \<and> (\<exists>rest. out @ rest = packet cmd (iov_lens iov) (gather m (iov_addrs iov))
                    \<and> (r = 0 \<longleftrightarrow> rest = []))"
  using assms by (rule inv_spec)

theorem call_sends_packet_witness:
  "\<exists>r out rest. call_dunix_inv m_2_3 3 [ev_out 48] 1 two_ints 1000 = Some (r, out)
     \<and> out @ rest = req_2_3 \<and> (r = 0 \<longleftrightarrow> rest = [])"
  using call_sends_packet [OF send_2_3] send_2_3 by (simp only: gather_operands lens_locals iov_dest_locals) blast

text \<open>
  C2. Round trip of a request: when the server reads the bytes a successful call wrote, first
  with \<open>__posix_call_dunix_ou_header\<close> and then with \<open>__posix_call_dunix_ouv2\<close> into variables
  of the same sizes, both succeed, the header carries the command, the length and the count,
  and the variables hold the client's parameters.
\<close>

theorem call_roundtrip:
  assumes "call_dunix_inv m hb es cmd iov tm = Some (0, out)" "iov_fits hb iov" "in_i32 cmd"
    and "call_dunix_ou_header m2 hb2 es1 tm1 = Some (r1, h, m3, got1)"
    and "call_dunix_ouv2 m3' hb2 es2 iov2 tm2 = Some (r2, m4, got2)" "iov_dest hb2 iov2"
    and "got1 @ got2 = out" and "iov_lens iov2 = iov_lens iov"
  shows "r1 = 0 \<and> h = Some \<lparr>hdr_cmd = cmd, hdr_len = int (length out), hdr_cnt = int (length iov)\<rparr>
     \<and> r2 = 0 \<and> gather m4 (iov_addrs iov2) = gather m (iov_addrs iov)"
  using assms by (rule request_roundtrip)

theorem call_roundtrip_witness:
  "\<exists>r2 m4. call_dunix_ouv2 m_zero 3 [ev_in (drop 32 req_2_3)] two_ints 1000 = Some (r2, m4, drop 32 req_2_3)
     \<and> r2 = 0 \<and> gather m4 (iov_addrs two_ints) = enc32 2 @ enc32 3"
proof -
  obtain r h m1 where hd: "call_dunix_ou_header m_zero 3 [ev_in (take 32 req_2_3)] 1000
      = Some (r, h, m1, take 32 req_2_3)" using fetch_2_3 by blast
  obtain r2 m2 where rd: "call_dunix_ouv2 m_zero 3 [ev_in (drop 32 req_2_3)] two_ints 1000
      = Some (r2, m2, drop 32 req_2_3)" using read_2_3 by blast
  from call_roundtrip [OF send_2_3 _ _ hd rd _ append_take_drop_id refl] rd
  show ?thesis by (simp add: in_i32_def gather_operands del: iov_addrs_simps)
qed

text \<open>
  C1. \<open>drpc_cli_plus\<close> against \<open>drpc_srv_routine\<close>: when one connection's bytes reach the
  other side unchanged, under any splitting, retrying and timing on either side, and the
  server's handling of the connection reports success, the client returns the 32-bit sum of
  its arguments.
\<close>

theorem plus_end_to_end:
  assumes "drpc_cli_plus mc wc sock_r connect_r es_out es_in a b = Some (v, wc', cout, cin)"
    and "srv_conn ms ws sc = Some (0, ms', ws', sin, sout)"
    and "sin = cout" "cin = sout" and "0 \<le> sock_r" "0 \<le> connect_r"
  shows "v = to_i32 (a + b)"
  using assms by (rule plus_call)

theorem plus_end_to_end_witness:
  "\<exists>v w'. drpc_cli_plus m_zero \<lparr>w_fds = [], w_path = True\<rparr> 7 0 [ev_out 48] [ev_in rep_5] 2 3
     = Some (v, w', req_2_3, rep_5) \<and> v = 5"
proof -
  obtain v w' where c: "drpc_cli_plus m_zero \<lparr>w_fds = [], w_path = True\<rparr> 7 0 [ev_out 48] [ev_in rep_5] 2 3
     = Some (v, w', req_2_3, rep_5)" using client_2_3 by blast
  obtain ms' ws' where s: "srv_conn m_zero \<lparr>w_fds = [9], w_path = True\<rparr> sc_2_3
     = Some (0, ms', ws', req_2_3, rep_5)" using server_2_3 by blast
  from plus_end_to_end [OF c s] have "v = 5" by (simp add: c_conv)
  with c show ?thesis by blast
qed

text \<open>
  C25. \<open>__posix_do_recv\<close> returns after at most \<open>timeout * 1000\<close> rounds of its loop, whatever
  \<open>select\<close> and \<open>readv\<close> report.
\<close>

theorem recv_returns:
  assumes "0 \<le> timeout" "timeout \<le> 2147483" and "timeout * 1000 \<le> int (length es)"
  shows "\<exists>r m' t got. posix_do_recv es m iov count total_len timeout = Some (r, m', t, got)"
  using recv_loop_returns [of "xfer_init iov count total_len timeout" es m] assms
  by (auto simp: posix_do_recv_def timeout_ms_init)

theorem recv_returns_witness:
  "\<exists>r m' t got. posix_do_recv (replicate 1000 ev_again) m_zero two_ints 2 8 1 = Some (r, m', t, got)"
  by (rule recv_returns) simp_all

text \<open>
  \<open>__posix_do_send\<close> has no such bound: a socket that \<open>select\<close> calls writable while
  \<open>writev\<close> says \<open>EAGAIN\<close> keeps the loop running for ever, since that branch does not
  touch \<open>timeout_ms\<close>.
\<close>

theorem send_spins_on_again:
  assumes "0 < timeout" "timeout \<le> 2147483" and "0 < total_len"
  shows "posix_do_send m (replicate n ev_again) iov count total_len timeout = None"
  unfolding posix_do_send_def using assms
  by (intro send_loop_again) (simp_all add: timeout_ms_init, simp add: xfer_init_def)

theorem send_spins_on_again_witness:
  "posix_do_send m_zero (replicate 5000000 ev_again) two_ints 2 8 1000 = None"
  by (rule send_spins_on_again) simp_all

text \<open>
  C24. A reply is accepted exactly when all of it arrived, its command is the one called and its
  lengths are the sizes of the destination variables; otherwise the call reports -2.
\<close>

theorem reply_accepted_iff:
  assumes "call_dunix_ouv m hb es cmd iov timeout = Some (r, m', got)" and "iov_dest hb iov"
  shows "r = (if length got = 4 * (length iov + 8) + iov_total iov \<and> dec32 got = cmd
      \<and> (\<forall>i < length iov. to_size (dec32 (drop (4 * (i + 8)) got)) = int (iov_len (iov ! i)))
    then 0 else - 2)"
  using ouv_spec(2,4) [OF assms]
  by (cases "length got = 4 * (length iov + 8) + iov_total iov") simp_all

theorem reply_accepted_iff_witness:
  "\<exists>r m'. call_dunix_ouv m_zero 3 [ev_in rep_5] 1 one_int 1000 = Some (r, m', rep_5) \<and> r = 0"
proof -
  obtain r m' where o: "call_dunix_ouv m_zero 3 [ev_in rep_5] 1 one_int 1000 = Some (r, m', rep_5)"
    using ouv_one [of 3 one_int rep_5 1000 m_zero 1] by (auto simp: length_packet)
  have "dec32 rep_5 = 1" "dec32 (drop (4 * (0 + 8)) rep_5) = 4"
    using packet_decode_len [of 0 "[4]" 1 "enc32 5"] by (simp_all add: packet_decode_hdr c_conv)
  then have "r = 0"
    using reply_accepted_iff [OF o] by (simp add: length_packet c_conv)
  with o show ?thesis by blast
qed

text \<open>
  Descriptors: a client call leaves the process with the descriptors it had, on every
  path; the server closes the accepted descriptor exactly when handling it failed, so each
  connection served successfully stays open.
\<close>

theorem call_descriptors:
  assumes "drpc_cli_plus m w sock_r connect_r es_out es_in a b = Some (v, w', cout, cin)"
    and "sock_r \<notin> set (w_fds w)"
    and "srv_conn ms ws sc = Some (r, ms', ws', sin, sout)"
    and "sc_accept sc \<in> set (w_fds ws)"
  shows "w_fds w' = w_fds w \<and> (sc_accept sc \<in> set (w_fds ws') \<longleftrightarrow> \<not> r < 0)
    \<and> (\<forall>fd. fd \<noteq> sc_accept sc \<longrightarrow> (fd \<in> set (w_fds ws') \<longleftrightarrow> fd \<in> set (w_fds ws)))"
  using drpc_cli_plus_fds [OF assms(1,2)] srv_conn_fds [OF assms(3)] assms(4) by auto

theorem call_descriptors_witness:
  "\<exists>v w' ms' ws'. drpc_cli_plus m_zero \<lparr>w_fds = [0], w_path = True\<rparr> 7 0 [ev_out 48] [ev_in rep_5] 2 3
       = Some (v, w', req_2_3, rep_5)
     \<and> srv_conn m_zero \<lparr>w_fds = [9], w_path = True\<rparr> sc_2_3 = Some (0, ms', ws', req_2_3, rep_5)
     \<and> w_fds w' = [0] \<and> 9 \<in> set (w_fds ws')"
proof -
  obtain v w' where c: "drpc_cli_plus m_zero \<lparr>w_fds = [0], w_path = True\<rparr> 7 0 [ev_out 48] [ev_in rep_5] 2 3
     = Some (v, w', req_2_3, rep_5)" using client_2_3 by blast
  obtain ms' ws' where s: "srv_conn m_zero \<lparr>w_fds = [9], w_path = True\<rparr> sc_2_3
     = Some (0, ms', ws', req_2_3, rep_5)" using server_2_3 by blast
  have "w_fds w' = [0] \<and> 9 \<in> set (w_fds ws')"
    using call_descriptors [OF c _ s] by (simp add: sc_2_3_def)
  with c s show ?thesis by blast
qed

end
