(* ===== verification/Task_Io.thy ===== *)
theory Task_Io
  imports Prelude_C "HOL-Library.Multiset"
begin

text \<open>
  \<open>deviceagent/2deviceagent/io/async/task_io_service.hpp\<close>: the queue of completed operations
  and the threads that run them. One function per member function; a critical section is one
  function, since the mutex is held from its beginning to its end. Operations and
  \<open>thread_info\<close> objects are addresses (naturals); the chain from \<open>first_idle_thread_\<close>
  through \<open>next\<close> is the list \<open>idle\<close>. \<open>outstanding_work_\<close> is unbounded: reaching
  \<open>2 ^ 31\<close> needs that many live operations.
\<close>

section \<open>Recycled memory of a thread\<close>

text \<open>
  \<open>thread_info_base\<close>: a block is its bytes, the length is what was allocated. The byte after
  the object holds the usable size while the block is out, the first byte while it is kept.
  \<open>blk\<close> is the content \<open>operator new\<close> returns. The result flag says that the memory is new.
\<close>

type_synonym block = "byte list"

abbreviation UCHAR_MAX :: nat where "UCHAR_MAX \<equiv> 255"

definition ti_allocate :: "(nat \<Rightarrow> block) \<Rightarrow> block option option \<Rightarrow> nat \<Rightarrow> block \<times> bool \<times> block option option" where
  "ti_allocate new this_thread sz =
     (let fresh = (let mem = new (sz + 1) in
            mem[sz := if sz \<le> UCHAR_MAX then word_of_nat sz else 0])
      in case this_thread of
           Some (Some mem) \<Rightarrow>
             if unat (mem ! 0) \<ge> sz then (mem[sz := mem ! 0], False, Some None)
             else (fresh, True, Some None)
         | _ \<Rightarrow> (fresh, True, this_thread))"

definition ti_deallocate :: "block option option \<Rightarrow> block \<Rightarrow> nat \<Rightarrow> block option option" where
  "ti_deallocate this_thread mem sz =
     (if sz \<le> UCHAR_MAX \<and> this_thread = Some None then Some (Some (mem[0 := mem ! sz]))
      else this_thread)"

section \<open>The call stack of a thread\<close>

text \<open>\<open>call_stack\<close>: the contexts of a thread, innermost first, as key and value.\<close>

type_synonym cstack = "(nat \<times> nat) list"

definition ctx_push :: "nat \<Rightarrow> nat \<Rightarrow> cstack \<Rightarrow> cstack" where
  "ctx_push k v cs = (k, v) # cs"

definition ctx_pop :: "cstack \<Rightarrow> cstack" where
  "ctx_pop cs = tl cs"

fun contains :: "nat \<Rightarrow> cstack \<Rightarrow> nat option" where
  "contains k [] = None"
| "contains k ((key, v) # elems) = (if key = k then Some v else contains k elems)"

definition next_by_key :: "cstack \<Rightarrow> nat option" where
  "next_by_key c = (case c of [] \<Rightarrow> None | (k, _) # nx \<Rightarrow> contains k nx)"

definition ctx_top :: "cstack \<Rightarrow> nat option" where
  "ctx_top c = (case c of [] \<Rightarrow> None | (_, v) # _ \<Rightarrow> Some v)"

section \<open>State\<close>

record tinfo =
  private_op_que :: "nat list"
  private_outstanding_work :: int
  signalled :: bool

record tio =
  self :: nat
  one_thread :: bool
  poller :: bool
  task_op :: nat
  task_interrupted :: bool
  outstanding_work :: int
  op_que :: "nat list"
  stopped :: bool
  shutdown :: bool
  idle :: "nat list"
  infos :: "nat \<Rightarrow> tinfo"
  interrupts :: nat
  destroyed :: "nat list"

definition tio_init :: "nat \<Rightarrow> nat \<Rightarrow> nat \<Rightarrow> tio" where
  "tio_init self_addr task_addr concurrency_hint =
     \<lparr>self = self_addr, one_thread = (concurrency_hint = 1), poller = False, task_op = task_addr,
      task_interrupted = True, outstanding_work = 0, op_que = [], stopped = False, shutdown = False,
      idle = [], infos = (\<lambda>_. \<lparr>private_op_que = [], private_outstanding_work = 0, signalled = False\<rparr>),
      interrupts = 0, destroyed = []\<rparr>"

definition upd_info :: "nat \<Rightarrow> (tinfo \<Rightarrow> tinfo) \<Rightarrow> tio \<Rightarrow> tio" where
  "upd_info ti f s = s\<lparr>infos := (infos s)(ti := f (infos s ti))\<rparr>"

text \<open>
  \<open>std::list::merge\<close> of the standard library, which the source uses to move a queue of
  pointers: it takes the smaller head first, by the order of the addresses.
\<close>

fun list_merge :: "nat list \<Rightarrow> nat list \<Rightarrow> nat list" where
  "list_merge [] ys = ys"
| "list_merge (x # xs) [] = x # xs"
| "list_merge (x # xs) (y # ys) =
     (if y < x then y # list_merge (x # xs) ys else x # list_merge xs (y # ys))"

section \<open>Waking and stopping\<close>

definition interrupt_poller :: "tio \<Rightarrow> tio" where
  "interrupt_poller s =
     (if \<not> task_interrupted s \<and> poller s
      then s\<lparr>task_interrupted := True, interrupts := interrupts s + 1\<rparr> else s)"

definition wake_one_idle :: "tio \<Rightarrow> bool \<times> tio" where
  "wake_one_idle s =
     (case idle s of [] \<Rightarrow> (False, s)
      | ti # rest \<Rightarrow> (True, upd_info ti (\<lambda>i. i\<lparr>signalled := True\<rparr>) (s\<lparr>idle := rest\<rparr>)))"

definition wake_one_thread :: "tio \<Rightarrow> tio" where
  "wake_one_thread s = (let (woken, s1) = wake_one_idle s in if woken then s1 else interrupt_poller s1)"

fun signal_all :: "nat list \<Rightarrow> tio \<Rightarrow> tio" where
  "signal_all [] s = s"
| "signal_all (ti # rest) s =
     signal_all rest (upd_info ti (\<lambda>i. i\<lparr>signalled := True\<rparr>) (s\<lparr>idle := rest\<rparr>))"

definition stop_all_threads :: "tio \<Rightarrow> tio" where
  "stop_all_threads s = interrupt_poller (signal_all (idle s) (s\<lparr>stopped := True\<rparr>))"

definition reset_svc :: "tio \<Rightarrow> tio" where
  "reset_svc s = s\<lparr>stopped := False\<rparr>"

section \<open>Work and posting\<close>

definition work_started :: "tio \<Rightarrow> tio" where
  "work_started s = s\<lparr>outstanding_work := outstanding_work s + 1\<rparr>"

definition work_finished :: "tio \<Rightarrow> tio" where
  "work_finished s =
     (let s1 = s\<lparr>outstanding_work := outstanding_work s - 1\<rparr>
      in if outstanding_work s1 = 0 then stop_all_threads s1 else s1)"

text \<open>\<open>cs\<close> is the calling thread's call stack.\<close>

definition post_immediate_completion :: "cstack \<Rightarrow> nat \<Rightarrow> tio \<Rightarrow> tio" where
  "post_immediate_completion cs op s =
     (case (if one_thread s then contains (self s) cs else None) of
        Some ti \<Rightarrow> upd_info ti (\<lambda>i. i\<lparr>private_outstanding_work := private_outstanding_work i + 1,
                                      private_op_que := private_op_que i @ [op]\<rparr>) s
      | None \<Rightarrow> let s1 = work_started s in wake_one_thread (s1\<lparr>op_que := op_que s1 @ [op]\<rparr>))"

definition post_deferred_completion :: "cstack \<Rightarrow> nat \<Rightarrow> tio \<Rightarrow> tio" where
  "post_deferred_completion cs op s =
     (case (if one_thread s then contains (self s) cs else None) of
        Some ti \<Rightarrow> upd_info ti (\<lambda>i. i\<lparr>private_op_que := private_op_que i @ [op]\<rparr>) s
      | None \<Rightarrow> wake_one_thread (s\<lparr>op_que := op_que s @ [op]\<rparr>))"

definition post_deferred_completions :: "cstack \<Rightarrow> nat list \<Rightarrow> tio \<Rightarrow> tio" where
  "post_deferred_completions cs ops s =
     (if ops = [] then s
      else case (if one_thread s then contains (self s) cs else None) of
        Some ti \<Rightarrow> upd_info ti (\<lambda>i. i\<lparr>private_op_que := list_merge (private_op_que i) ops\<rparr>) s
      | None \<Rightarrow> wake_one_thread (s\<lparr>op_que := list_merge (op_que s) ops\<rparr>))"

text \<open>\<open>new op_complete(h)\<close> is at the fresh address \<open>p\<close>.\<close>

definition post_handler :: "cstack \<Rightarrow> nat \<Rightarrow> tio \<Rightarrow> tio" where
  "post_handler cs p s = post_immediate_completion cs p s"

fun destroy_back :: "nat list \<Rightarrow> tio \<Rightarrow> tio" where
  "destroy_back [] s = s"
| "destroy_back (x # xs) s =
     destroy_back (butlast (x # xs)) (s\<lparr>destroyed := destroyed s @ [last (x # xs)]\<rparr>)"

definition abandon_operations :: "nat list \<Rightarrow> tio \<Rightarrow> tio" where
  "abandon_operations ops s = destroy_back (list_merge [] ops) s"

fun destroy_queue :: "nat list \<Rightarrow> tio \<Rightarrow> tio" where
  "destroy_queue [] s = s\<lparr>op_que := []\<rparr>"
| "destroy_queue (x # q) s =
     destroy_queue q (if x \<noteq> task_op s then s\<lparr>op_que := q, destroyed := destroyed s @ [x]\<rparr>
                      else s\<lparr>op_que := q\<rparr>)"

definition shutdown_service :: "tio \<Rightarrow> tio" where
  "shutdown_service s = (destroy_queue (op_que s) (s\<lparr>shutdown := True\<rparr>))\<lparr>poller := False\<rparr>"

definition init_task :: "tio \<Rightarrow> tio" where
  "init_task s =
     (if \<not> shutdown s \<and> \<not> poller s
      then wake_one_thread (s\<lparr>poller := True, op_que := op_que s @ [task_op s]\<rparr>) else s)"

section \<open>Running\<close>

definition task_cleanup :: "nat \<Rightarrow> tio \<Rightarrow> tio" where
  "task_cleanup ti s =
     (let b = private_outstanding_work (infos s ti);
          s1 = (if b > 0 then s\<lparr>outstanding_work := outstanding_work s + b\<rparr> else s);
          s2 = upd_info ti (\<lambda>i. i\<lparr>private_outstanding_work := 0\<rparr>) s1;
          s3 = s2\<lparr>task_interrupted := True,
                  op_que := list_merge (op_que s2) (private_op_que (infos s2 ti))\<rparr>;
          s4 = upd_info ti (\<lambda>i. i\<lparr>private_op_que := []\<rparr>) s3
      in s4\<lparr>op_que := op_que s4 @ [task_op s4]\<rparr>)"

definition work_cleanup :: "nat \<Rightarrow> tio \<Rightarrow> tio" where
  "work_cleanup ti s =
     (let b = private_outstanding_work (infos s ti);
          s1 = (if b > 1 then s\<lparr>outstanding_work := outstanding_work s + (b - 1)\<rparr>
                else if b < 1 then work_finished s else s);
          s2 = upd_info ti (\<lambda>i. i\<lparr>private_outstanding_work := 0\<rparr>) s1
      in if private_op_que (infos s2 ti) \<noteq> []
         then upd_info ti (\<lambda>i. i\<lparr>private_op_que := []\<rparr>)
                (s2\<lparr>op_que := list_merge (op_que s2) (private_op_que (infos s2 ti))\<rparr>)
         else s2)"

text \<open>
  One round of the loop of \<open>do_run_one\<close>, under the lock: what the thread does next and the
  state when it lets the lock go.
\<close>

datatype round = RStopped | RPoll bool | RHandle nat | RWait

definition do_run_one_round :: "nat \<Rightarrow> tio \<Rightarrow> round \<times> tio" where
  "do_run_one_round ti s =
     (if stopped s then (RStopped, s)
      else case op_que s of
          ob # q \<Rightarrow>
            let s1 = s\<lparr>op_que := q\<rparr>; more_handlers = (q \<noteq> []) in
            if ob = task_op s then
              let s2 = s1\<lparr>task_interrupted := more_handlers\<rparr> in
              (RPoll (\<not> more_handlers),
               if more_handlers \<and> \<not> one_thread s2 then snd (wake_one_idle s2) else s2)
            else
              (RHandle ob, if more_handlers \<and> \<not> one_thread s1 then wake_one_thread s1 else s1)
        | [] \<Rightarrow> (RWait, upd_info ti (\<lambda>i. i\<lparr>signalled := False\<rparr>) (s\<lparr>idle := ti # idle s\<rparr>)))"

text \<open>The prologue of \<open>run\<close>: the thread's information, at address \<open>ti\<close>, and its context.\<close>

definition run_enter :: "nat \<Rightarrow> cstack \<Rightarrow> tio \<Rightarrow> (tio \<times> cstack) option" where
  "run_enter ti cs s =
     (if outstanding_work s = 0 then None
      else Some (upd_info ti (\<lambda>_. \<lparr>private_op_que = [], private_outstanding_work = 0,
                                   signalled = signalled (infos s ti)\<rparr>) s,
                 ctx_push (self s) ti cs))"

text \<open>\<open>reactor::run\<close> appends the ready descriptor sets to the thread's private queue.\<close>

definition poll_into :: "nat \<Rightarrow> nat list \<Rightarrow> tio \<Rightarrow> tio" where
  "poll_into ti ops s = upd_info ti (\<lambda>i. i\<lparr>private_op_que := private_op_que i @ ops\<rparr>) s"

end
