(* ===== verification/Task_Io_Run.thy ===== *)
theory Task_Io_Run
  imports Task_Io
begin

text \<open>
  Threads running \<open>task_io_service::run\<close>: the step relation over a service and its threads,
  and the invariants of every interleaving. A thread is in one of the places of
  \<open>do_run_one\<close> where it holds or has let go of the mutex; every step that enters a critical
  section needs the mutex free.
\<close>

section \<open>What the operations leave alone\<close>

lemma upd_info_simps [simp]:
  "self (upd_info ti f s) = self s" "one_thread (upd_info ti f s) = one_thread s"
  "poller (upd_info ti f s) = poller s" "task_op (upd_info ti f s) = task_op s"
  "task_interrupted (upd_info ti f s) = task_interrupted s"
  "outstanding_work (upd_info ti f s) = outstanding_work s" "op_que (upd_info ti f s) = op_que s"
  "stopped (upd_info ti f s) = stopped s" "shutdown (upd_info ti f s) = shutdown s"
  "idle (upd_info ti f s) = idle s" "interrupts (upd_info ti f s) = interrupts s"
  "destroyed (upd_info ti f s) = destroyed s"
  "infos (upd_info ti f s) = (infos s)(ti := f (infos s ti))"
  by (simp_all add: upd_info_def)

lemma mset_list_merge [simp]: "mset (list_merge xs ys) = mset xs + mset ys"
  by (induction xs ys rule: list_merge.induct) auto

lemma set_list_merge [simp]: "set (list_merge xs ys) = set xs \<union> set ys"
  by (metis mset_list_merge set_mset_mset set_mset_union)

lemma length_list_merge [simp]: "length (list_merge xs ys) = length xs + length ys"
  by (metis mset_list_merge size_mset size_union)

lemma list_merge_Nil2 [simp]: "list_merge xs [] = xs"
  by (cases xs) simp_all

lemma list_merge_eq_Nil [simp]: "list_merge xs ys = [] \<longleftrightarrow> xs = [] \<and> ys = []"
  by (metis length_0_conv length_list_merge add_is_0)

lemma count_list_merge [simp]: "count_list (list_merge xs ys) x = count_list xs x + count_list ys x"
  by (induction xs ys rule: list_merge.induct) auto

lemma interrupt_poller_simps [simp]:
  "self (interrupt_poller s) = self s" "one_thread (interrupt_poller s) = one_thread s"
  "poller (interrupt_poller s) = poller s" "task_op (interrupt_poller s) = task_op s"
  "outstanding_work (interrupt_poller s) = outstanding_work s"
  "op_que (interrupt_poller s) = op_que s" "stopped (interrupt_poller s) = stopped s"
  "shutdown (interrupt_poller s) = shutdown s" "idle (interrupt_poller s) = idle s"
  "infos (interrupt_poller s) = infos s" "destroyed (interrupt_poller s) = destroyed s"
  by (simp_all add: interrupt_poller_def)

lemma wake_one_thread_simps [simp]:
  "self (wake_one_thread s) = self s" "one_thread (wake_one_thread s) = one_thread s"
  "poller (wake_one_thread s) = poller s" "task_op (wake_one_thread s) = task_op s"
  "outstanding_work (wake_one_thread s) = outstanding_work s"
  "op_que (wake_one_thread s) = op_que s" "stopped (wake_one_thread s) = stopped s"
  "shutdown (wake_one_thread s) = shutdown s" "destroyed (wake_one_thread s) = destroyed s"
  "idle (wake_one_thread s) = tl (idle s)"
  by (simp_all add: wake_one_thread_def wake_one_idle_def split: list.splits)

lemma wake_one_idle_simps [simp]:
  "self (snd (wake_one_idle s)) = self s" "one_thread (snd (wake_one_idle s)) = one_thread s"
  "poller (snd (wake_one_idle s)) = poller s" "task_op (snd (wake_one_idle s)) = task_op s"
  "outstanding_work (snd (wake_one_idle s)) = outstanding_work s"
  "op_que (snd (wake_one_idle s)) = op_que s" "stopped (snd (wake_one_idle s)) = stopped s"
  "idle (snd (wake_one_idle s)) = tl (idle s)"
  by (simp_all add: wake_one_idle_def split: list.splits)

definition wake_infos :: "tio \<Rightarrow> nat \<Rightarrow> tinfo" where
  "wake_infos s = (case idle s of [] \<Rightarrow> infos s
     | ti # _ \<Rightarrow> (infos s)(ti := (infos s ti)\<lparr>signalled := True\<rparr>))"

lemma wake_infos [simp]:
  "infos (wake_one_thread s) = wake_infos s" "infos (snd (wake_one_idle s)) = wake_infos s"
  by (simp_all add: wake_infos_def wake_one_thread_def wake_one_idle_def split: list.splits)

lemma wake_infos_upd [simp]:
  "wake_infos (s\<lparr>op_que := q\<rparr>) = wake_infos s" "wake_infos (s\<lparr>outstanding_work := n\<rparr>) = wake_infos s"
  "wake_infos (s\<lparr>poller := b\<rparr>) = wake_infos s"
  by (simp_all add: wake_infos_def cong: list.case_cong)

lemma signal_all_simps [simp]:
  "self (signal_all is s) = self s" "one_thread (signal_all is s) = one_thread s"
  "poller (signal_all is s) = poller s" "task_op (signal_all is s) = task_op s"
  "outstanding_work (signal_all is s) = outstanding_work s"
  "op_que (signal_all is s) = op_que s" "stopped (signal_all is s) = stopped s"
  "infos (signal_all is s) = (\<lambda>ti. if ti \<in> set is then (infos s ti)\<lparr>signalled := True\<rparr> else infos s ti)"
  by (induction "is" s rule: signal_all.induct) (auto simp: fun_eq_iff)

lemma idle_signal_all: "idle (signal_all (idle s) (s\<lparr>stopped := b\<rparr>)) = []"
proof -
  have "idle s' = is \<Longrightarrow> idle (signal_all is s') = []" for "is" s'
    by (induction "is" s' rule: signal_all.induct) auto
  from this [of "s\<lparr>stopped := b\<rparr>" "idle s"] show ?thesis by simp
qed

lemma stop_all_threads_simps [simp]:
  "self (stop_all_threads s) = self s" "one_thread (stop_all_threads s) = one_thread s"
  "poller (stop_all_threads s) = poller s" "task_op (stop_all_threads s) = task_op s"
  "outstanding_work (stop_all_threads s) = outstanding_work s"
  "op_que (stop_all_threads s) = op_que s" "stopped (stop_all_threads s)" "idle (stop_all_threads s) = []"
  "infos (stop_all_threads s) =
     (\<lambda>ti. if ti \<in> set (idle s) then (infos s ti)\<lparr>signalled := True\<rparr> else infos s ti)"
  by (auto simp: stop_all_threads_def idle_signal_all fun_eq_iff)

section \<open>Threads\<close>

datatype tpc = Outside | Top nat | Waiting nat | Polling nat bool | Handling nat nat

record cfg =
  svc :: tio
  pcs :: "tpc list"
  lock_by :: "nat option"
  stks :: "cstack list"

text \<open>The events of a run; \<open>t\<close> is the thread. \<open>ECall\<close> is a call of the public interface.\<close>

datatype call = CPost nat | CDeferred "nat list" | CStarted | CStop | CReset | CInit

datatype event = EEnter nat nat | ERound nat | EWake nat | EPolled nat "nat list"
  | EHandled nat | ECall nat call

fun do_call :: "cstack \<Rightarrow> call \<Rightarrow> tio \<Rightarrow> tio" where
  "do_call cs (CPost p) s = post_immediate_completion cs p s"
| "do_call cs (CDeferred ps) s = post_deferred_completions cs ps s"
| "do_call cs CStarted s = work_started s"
| "do_call cs CStop s = stop_all_threads s"
| "do_call cs CReset s = reset_svc s"
| "do_call cs CInit s = init_task s"

text \<open>The operations a call hands over are objects of their own, not \<open>task_operation_\<close>.\<close>

fun call_ok :: "call \<Rightarrow> tio \<Rightarrow> bool" where
  "call_ok (CPost p) s = (p \<noteq> task_op s)"
| "call_ok (CDeferred ps) s = (task_op s \<notin> set ps)"
| "call_ok _ s = True"

fun info_of :: "tpc \<Rightarrow> nat option" where
  "info_of Outside = None"
| "info_of (Top ti) = Some ti"
| "info_of (Waiting ti) = Some ti"
| "info_of (Polling ti b) = Some ti"
| "info_of (Handling ti op) = Some ti"

definition after_round :: "nat \<Rightarrow> round \<Rightarrow> tpc" where
  "after_round ti r = (case r of RStopped \<Rightarrow> Outside | RPoll b \<Rightarrow> Polling ti b
     | RHandle op \<Rightarrow> Handling ti op | RWait \<Rightarrow> Waiting ti)"

inductive tstep :: "cfg \<Rightarrow> event \<Rightarrow> cfg \<Rightarrow> bool" where
  enter_none: "t < length (pcs c) \<Longrightarrow> pcs c ! t = Outside \<Longrightarrow> lock_by c = None \<Longrightarrow>
     run_enter ti (stks c ! t) (svc c) = None \<Longrightarrow>
     tstep c (EEnter t ti) (c\<lparr>svc := stop_all_threads (svc c)\<rparr>)"
| enter: "t < length (pcs c) \<Longrightarrow> pcs c ! t = Outside \<Longrightarrow> lock_by c = None \<Longrightarrow>
     Some ti \<notin> set (map info_of (pcs c)) \<Longrightarrow> run_enter ti (stks c ! t) (svc c) = Some (s, cs) \<Longrightarrow>
     tstep c (EEnter t ti)
       (c\<lparr>svc := s, pcs := (pcs c)[t := Top ti], lock_by := Some t, stks := (stks c)[t := cs]\<rparr>)"
| round: "t < length (pcs c) \<Longrightarrow> pcs c ! t = Top ti \<Longrightarrow> lock_by c = Some t \<Longrightarrow>
     do_run_one_round ti (svc c) = (r, s) \<Longrightarrow>
     tstep c (ERound t) (c\<lparr>svc := s, pcs := (pcs c)[t := after_round ti r], lock_by := None,
       stks := if r = RStopped then (stks c)[t := ctx_pop (stks c ! t)] else stks c\<rparr>)"
| wake: "t < length (pcs c) \<Longrightarrow> pcs c ! t = Waiting ti \<Longrightarrow> signalled (infos (svc c) ti) \<Longrightarrow>
     lock_by c = None \<Longrightarrow>
     tstep c (EWake t) (c\<lparr>pcs := (pcs c)[t := Top ti], lock_by := Some t\<rparr>)"
| polled: "t < length (pcs c) \<Longrightarrow> pcs c ! t = Polling ti b \<Longrightarrow> lock_by c = None \<Longrightarrow>
     task_op (svc c) \<notin> set ops \<Longrightarrow>
     tstep c (EPolled t ops) (c\<lparr>svc := task_cleanup ti (poll_into ti ops (svc c)),
       pcs := (pcs c)[t := Top ti], lock_by := Some t\<rparr>)"
| handled: "t < length (pcs c) \<Longrightarrow> pcs c ! t = Handling ti op \<Longrightarrow> lock_by c = None \<Longrightarrow>
     tstep c (EHandled t) (c\<lparr>svc := work_cleanup ti (svc c), pcs := (pcs c)[t := Top ti],
       lock_by := Some t\<rparr>)"
| call: "t < length (pcs c) \<Longrightarrow> (pcs c ! t = Outside \<or> (\<exists>ti op. pcs c ! t = Handling ti op)) \<Longrightarrow>
     lock_by c = None \<Longrightarrow> call_ok x (svc c) \<Longrightarrow>
     tstep c (ECall t x) (c\<lparr>svc := do_call (stks c ! t) x (svc c)\<rparr>)"

inductive_cases tstepE: "tstep c e c'"

definition cfg_init :: "nat \<Rightarrow> tio \<Rightarrow> cfg" where
  "cfg_init n s = \<lparr>svc = s, pcs = replicate n Outside, lock_by = None, stks = replicate n []\<rparr>"

inductive trun :: "cfg \<Rightarrow> event list \<Rightarrow> cfg \<Rightarrow> bool" where
  nil: "trun c [] c"
| snoc: "trun c es c' \<Longrightarrow> tstep c' e c'' \<Longrightarrow> trun c (es @ [e]) c''"

section \<open>Counting threads\<close>

definition sum_pcs :: "(tpc \<Rightarrow> int) \<Rightarrow> cfg \<Rightarrow> int" where
  "sum_pcs w c = sum_list (map w (pcs c))"

lemma sum_list_upd:
  "t < length xs \<Longrightarrow> sum_list (map w (xs[t := x])) = sum_list (map w xs) - w (xs ! t) + (w x :: int)"
  by (induction xs arbitrary: t) (auto split: nat.splits)

lemma sum_pcs_upd:
  "t < length (pcs c) \<Longrightarrow> pcs c' = (pcs c)[t := p] \<Longrightarrow>
     sum_pcs w c' = sum_pcs w c - w (pcs c ! t) + w p"
  by (simp add: sum_pcs_def sum_list_upd)

fun w_polling :: "tpc \<Rightarrow> int" where
  "w_polling (Polling ti b) = 1"
| "w_polling _ = 0"

fun w_handling :: "tpc \<Rightarrow> int" where
  "w_handling (Handling ti op) = 1"
| "w_handling _ = 0"

section \<open>Mutual exclusion and the reactor's token\<close>

definition lock_inv :: "cfg \<Rightarrow> bool" where
  "lock_inv c \<longleftrightarrow> (\<forall>t < length (pcs c). (\<exists>ti. pcs c ! t = Top ti) \<longleftrightarrow> lock_by c = Some t)
     \<and> (\<forall>t. lock_by c = Some t \<longrightarrow> t < length (pcs c))"

text \<open>\<open>task_operation_\<close> is in the queue or one thread is inside the reactor, never both.\<close>

definition token_inv :: "cfg \<Rightarrow> bool" where
  "token_inv c \<longleftrightarrow> int (count_list (op_que (svc c)) (task_op (svc c))) + sum_pcs w_polling c
       = (if poller (svc c) then 1 else 0)
     \<and> (\<forall>ti. task_op (svc c) \<notin> set (private_op_que (infos (svc c) ti)))"

lemma lock_inv_step: "tstep c e c' \<Longrightarrow> lock_inv c \<Longrightarrow> lock_inv c'"
  by (erule tstepE)
    (auto simp: lock_inv_def nth_list_update after_round_def split: if_splits round.splits)

lemma do_call_token:
  assumes "call_ok x s" and "\<forall>ti. task_op s \<notin> set (private_op_que (infos s ti))"
    and "0 \<le> k" and "int (count_list (op_que s) (task_op s)) + k = (if poller s then 1 else 0)"
  shows "int (count_list (op_que (do_call cs x s)) (task_op (do_call cs x s))) + k
       = (if poller (do_call cs x s) then 1 else 0)
     \<and> (\<forall>ti. task_op (do_call cs x s) \<notin> set (private_op_que (infos (do_call cs x s) ti)))"
  using assms
  by (cases x)
    (auto simp: post_immediate_completion_def post_deferred_completions_def work_started_def
      reset_svc_def init_task_def wake_infos_def Let_def count_list_0_iff
      split: option.splits list.splits if_splits)

lemma sum_pcs_svc [simp]: "sum_pcs w (c\<lparr>svc := s\<rparr>) = sum_pcs w c"
  by (simp add: sum_pcs_def)

lemma sum_pcs_nonneg: "(\<And>p. 0 \<le> w p) \<Longrightarrow> 0 \<le> sum_pcs w c"
  by (auto simp: sum_pcs_def intro: sum_list_map_nonneg)

lemma w_polling_nonneg [simp]: "0 \<le> w_polling p"
  by (cases p) auto

lemma w_handling_nonneg [simp]: "0 \<le> w_handling p"
  by (cases p) auto

lemma run_enter_simps:
  assumes "run_enter ti cs s = Some (s', cs')"
  shows "op_que s' = op_que s" "task_op s' = task_op s" "poller s' = poller s" "idle s' = idle s"
    "stopped s' = stopped s" "outstanding_work s' = outstanding_work s" "one_thread s' = one_thread s"
    "infos s' = (infos s)(ti := \<lparr>private_op_que = [], private_outstanding_work = 0,
                                 signalled = signalled (infos s ti)\<rparr>)"
  using assms by (auto simp: run_enter_def split: if_splits)

lemma work_finished_simps [simp]:
  "op_que (work_finished s) = op_que s" "task_op (work_finished s) = task_op s"
  "poller (work_finished s) = poller s" "one_thread (work_finished s) = one_thread s"
  "outstanding_work (work_finished s) = outstanding_work s - 1"
  "private_op_que (infos (work_finished s) ti) = private_op_que (infos s ti)"
  "private_outstanding_work (infos (work_finished s) ti) = private_outstanding_work (infos s ti)"
  by (auto simp: work_finished_def Let_def)

lemma wake_infos_private [simp]:
  "private_op_que (wake_infos s ti) = private_op_que (infos s ti)"
  "private_outstanding_work (wake_infos s ti) = private_outstanding_work (infos s ti)"
  by (simp_all add: wake_infos_def split: list.splits)

lemma round_token:
  assumes "do_run_one_round ti s = (r, s')"
  shows "task_op s' = task_op s" "poller s' = poller s" "one_thread s' = one_thread s"
    "outstanding_work s' = outstanding_work s"
    "private_op_que (infos s' tj) = private_op_que (infos s tj)"
    "private_outstanding_work (infos s' tj) = private_outstanding_work (infos s tj)"
    "mset (op_que s) = (case r of RPoll b \<Rightarrow> {#task_op s#} | RHandle op \<Rightarrow> {#op#} | _ \<Rightarrow> {#})
       + mset (op_que s')"
    "r = RHandle op \<Longrightarrow> op \<noteq> task_op s"
  using assms by (auto simp: do_run_one_round_def Let_def split: if_splits list.splits)

lemma count_list_mset: "count_list xs x = count (mset xs) x"
  by (induction xs) auto

lemma round_count:
  assumes "do_run_one_round ti s = (r, s')"
  shows "int (count_list (op_que s') (task_op s)) + w_polling (after_round ti r)
       = int (count_list (op_que s) (task_op s))"
  using round_token(7,8) [OF assms]
  by (cases r) (auto simp: count_list_mset after_round_def)

lemma task_cleanup_simps:
  "task_op (task_cleanup ti s) = task_op s" "poller (task_cleanup ti s) = poller s"
  "one_thread (task_cleanup ti s) = one_thread s" "idle (task_cleanup ti s) = idle s"
  "stopped (task_cleanup ti s) = stopped s"
  "op_que (task_cleanup ti s) = list_merge (op_que s) (private_op_que (infos s ti)) @ [task_op s]"
  "infos (task_cleanup ti s) = (infos s)(ti := (infos s ti)\<lparr>private_outstanding_work := 0, private_op_que := []\<rparr>)"
  "outstanding_work (task_cleanup ti s) = outstanding_work s + max 0 (private_outstanding_work (infos s ti))"
  by (simp_all add: task_cleanup_def Let_def)

lemma poll_into_simps [simp]:
  "task_op (poll_into ti ops s) = task_op s" "poller (poll_into ti ops s) = poller s"
  "one_thread (poll_into ti ops s) = one_thread s" "op_que (poll_into ti ops s) = op_que s"
  "outstanding_work (poll_into ti ops s) = outstanding_work s" "idle (poll_into ti ops s) = idle s"
  "stopped (poll_into ti ops s) = stopped s"
  "infos (poll_into ti ops s) = (infos s)(ti := (infos s ti)\<lparr>private_op_que := private_op_que (infos s ti) @ ops\<rparr>)"
  by (simp_all add: poll_into_def)

lemma work_cleanup_simps:
  "task_op (work_cleanup ti s) = task_op s" "poller (work_cleanup ti s) = poller s"
  "one_thread (work_cleanup ti s) = one_thread s"
  "op_que (work_cleanup ti s) = list_merge (op_que s) (private_op_que (infos s ti))"
  "private_op_que (infos (work_cleanup ti s) tj) = (if tj = ti then [] else private_op_que (infos s tj))"
  "private_outstanding_work (infos (work_cleanup ti s) tj)
     = (if tj = ti then 0 else private_outstanding_work (infos s tj))"
  "0 \<le> private_outstanding_work (infos s ti) \<Longrightarrow>
     outstanding_work (work_cleanup ti s) = outstanding_work s + private_outstanding_work (infos s ti) - 1"
  by (auto simp: work_cleanup_def Let_def)

lemma token_inv_step: "tstep c e c' \<Longrightarrow> token_inv c \<Longrightarrow> token_inv c'"
proof (induction rule: tstep.induct)
  case (enter_none t c ti)
  then show ?case by (simp add: token_inv_def)
next
  case (enter t c ti s cs)
  then show ?case
    by (simp add: token_inv_def sum_pcs_upd [of t c] run_enter_simps)
next
  case (round t c ti r s)
  note rt = round_token [OF round(4)] and rc = round_count [OF round(4)]
  from round rc show ?case
    by (simp add: token_inv_def sum_pcs_upd [of t c] rt)
next
  case (wake t c ti)
  then show ?case by (simp add: token_inv_def sum_pcs_upd [of t c])
next
  case (polled t c ti b ops)
  then show ?case
    by (simp add: token_inv_def sum_pcs_upd [of t c] task_cleanup_simps count_list_0_iff)
next
  case (handled t c ti op)
  then show ?case
    by (simp add: token_inv_def sum_pcs_upd [of t c] work_cleanup_simps count_list_0_iff)
next
  case (call t c x)
  then show ?case
    using do_call_token [of x "svc c" "sum_pcs w_polling c" "stks c ! t"]
    by (simp add: token_inv_def sum_pcs_nonneg)
qed

lemma trun_invariant:
  assumes "trun c es c'" and "P c" and "\<And>c e c'. tstep c e c' \<Longrightarrow> P c \<Longrightarrow> P c'"
  shows "P c'"
  using assms by (induction rule: trun.induct) auto

lemma two_le_sum_list:
  "i < j \<Longrightarrow> j < length xs \<Longrightarrow> (\<And>x. 0 \<le> w x) \<Longrightarrow> w (xs ! i) + w (xs ! j) \<le> (sum_list (map w xs) :: int)"
proof (induction xs arbitrary: i j)
  case (Cons x xs)
  have one: "w (xs ! k) \<le> sum_list (map w xs)" if "k < length xs" for k
    using that Cons.prems(3) by (intro member_le_sum_list [of _ "map w xs"]) auto
  show ?case
  proof (cases i)
    case 0
    then show ?thesis using Cons.prems one [of "j - 1"] by (cases j) auto
  next
    case (Suc i')
    then show ?thesis using Cons.prems Cons.IH [of i' "j - 1"] Cons.prems(3) by (cases j) (auto intro: add_increasing)
  qed
qed simp

lemma token_one_poller:
  assumes "token_inv c" and "i < length (pcs c)" "j < length (pcs c)"
    and "pcs c ! i = Polling ti b" "pcs c ! j = Polling tj b'"
  shows "i = j" and "task_op (svc c) \<notin> set (op_que (svc c))"
proof -
  have le: "sum_pcs w_polling c \<le> 1" "int (count_list (op_que (svc c)) (task_op (svc c))) + sum_pcs w_polling c \<le> 1"
    using assms(1) by (auto simp: token_inv_def split: if_splits)
  show "i = j"
  proof (rule ccontr)
    assume "i \<noteq> j"
    then consider "i < j" | "j < i" by linarith
    then have "2 \<le> sum_pcs w_polling c"
      using two_le_sum_list [of i j "pcs c" w_polling] two_le_sum_list [of j i "pcs c" w_polling] assms
      by cases (auto simp: sum_pcs_def)
    with le show False by simp
  qed
  have "w_polling (pcs c ! i) \<in> set (map w_polling (pcs c))" using assms(2) by simp
  then have "w_polling (pcs c ! i) \<le> sum_pcs w_polling c"
    unfolding sum_pcs_def by (rule member_le_sum_list) auto
  with le assms(4) show "task_op (svc c) \<notin> set (op_que (svc c))"
    by (simp add: count_list_0_iff [symmetric])
qed

section \<open>Work accounting\<close>

text \<open>
  Work counted by \<open>outstanding_work_\<close> without an operation in the queue: started from outside,
  less what was handed over since without being counted again.
\<close>

fun ext_of :: "event \<Rightarrow> int" where
  "ext_of (ECall t CStarted) = 1"
| "ext_of (ECall t (CDeferred ps)) = - int (length ps)"
| "ext_of (EPolled t ops) = - int (length ops)"
| "ext_of _ = 0"

definition queued :: "tio \<Rightarrow> int" where
  "queued s = int (length (op_que s)) - int (count_list (op_que s) (task_op s))"

definition work_inv :: "int \<Rightarrow> cfg \<Rightarrow> bool" where
  "work_inv ext c \<longleftrightarrow> \<not> one_thread (svc c)
     \<and> outstanding_work (svc c) = queued (svc c) + sum_pcs w_handling c + ext
     \<and> (\<forall>ti. private_outstanding_work (infos (svc c) ti) = 0 \<and> private_op_que (infos (svc c) ti) = [])"

lemma round_queued:
  assumes "do_run_one_round ti s = (r, s')"
  shows "queued s' + w_handling (after_round ti r) = queued s"
  using round_token(1,8) [OF assms] arg_cong [OF round_token(7) [OF assms], of size]
    arg_cong [OF round_token(7) [OF assms], of "\<lambda>m. count m (task_op s)"]
  by (cases r) (auto simp: queued_def count_list_mset after_round_def)

lemma do_call_work:
  assumes "\<not> one_thread s" and "call_ok x s"
  shows "\<not> one_thread (do_call cs x s)
     \<and> outstanding_work (do_call cs x s)
         = queued (do_call cs x s) + (outstanding_work s - queued s) + ext_of (ECall t x)
     \<and> private_outstanding_work (infos (do_call cs x s) ti) = private_outstanding_work (infos s ti)
     \<and> private_op_que (infos (do_call cs x s) ti) = private_op_que (infos s ti)"
  using assms
  by (cases x)
    (auto simp: post_immediate_completion_def post_deferred_completions_def work_started_def
      reset_svc_def init_task_def queued_def Let_def count_list_0_iff)

lemma work_inv_step:
  "tstep c e c' \<Longrightarrow> work_inv k c \<Longrightarrow> work_inv (k + ext_of e) c'"
proof (induction rule: tstep.induct)
  case (enter_none t c ti)
  then show ?case by (auto simp: work_inv_def queued_def)
next
  case (enter t c ti s cs)
  then show ?case
    by (auto simp: work_inv_def sum_pcs_upd [of t c] run_enter_simps queued_def)
next
  case (round t c ti r s)
  note rt = round_token [OF round(4)] and rc = round_queued [OF round(4)]
  from round rc show ?case
    by (simp add: work_inv_def sum_pcs_upd [of t c] rt)
next
  case (wake t c ti)
  then show ?case by (simp add: work_inv_def sum_pcs_upd [of t c])
next
  case (polled t c ti b ops)
  then show ?case
    by (auto simp: work_inv_def sum_pcs_upd [of t c] task_cleanup_simps queued_def count_list_0_iff)
next
  case (handled t c ti op)
  then show ?case
    by (simp add: work_inv_def sum_pcs_upd [of t c] work_cleanup_simps queued_def)
next
  case (call t c x)
  then show ?case
    using do_call_work [of "svc c" x "stks c ! t" t] by (auto simp: work_inv_def)
qed

lemma work_inv_run:
  "trun c es c' \<Longrightarrow> work_inv k c \<Longrightarrow> work_inv (k + sum_list (map ext_of es)) c'"
proof (induction rule: trun.induct)
  case (snoc c es c' e c'')
  then show ?case using work_inv_step by (fastforce simp: add.assoc)
qed simp

lemma work_inv_init: "h \<noteq> 1 \<Longrightarrow> work_inv 0 (cfg_init n (tio_init a b h))"
  by (simp add: work_inv_def cfg_init_def tio_init_def queued_def sum_pcs_def sum_list_replicate)

lemma token_inv_init: "token_inv (cfg_init n (tio_init a b h))"
  by (simp add: token_inv_def cfg_init_def tio_init_def sum_pcs_def sum_list_replicate)

lemma lock_inv_init: "lock_inv (cfg_init n s)"
  by (simp add: lock_inv_def cfg_init_def)

section \<open>Idle threads and wake-ups\<close>

text \<open>
  Threads have their own \<open>thread_info\<close>; the idle list holds exactly the waiting threads whose
  event is not signalled; nobody waits unsignalled once the service is stopped; and as long as
  somebody waits unsignalled while there is something in the queue, another thread is on
  its way to the queue.
\<close>

definition info_inv :: "cfg \<Rightarrow> bool" where
  "info_inv c \<longleftrightarrow> (\<forall>i < length (pcs c). \<forall>j < length (pcs c). \<forall>ti.
     info_of (pcs c ! i) = Some ti \<and> info_of (pcs c ! j) = Some ti \<longrightarrow> i = j)"

definition idle_inv :: "cfg \<Rightarrow> bool" where
  "idle_inv c \<longleftrightarrow> distinct (idle (svc c)) \<and> (\<forall>ti. ti \<in> set (idle (svc c)) \<longleftrightarrow>
     (\<exists>t < length (pcs c). pcs c ! t = Waiting ti) \<and> \<not> signalled (infos (svc c) ti))"

fun active :: "tio \<Rightarrow> tpc \<Rightarrow> bool" where
  "active s Outside = False"
| "active s (Waiting ti) = signalled (infos s ti)"
| "active s _ = True"

definition wake_inv :: "cfg \<Rightarrow> bool" where
  "wake_inv c \<longleftrightarrow> (stopped (svc c) \<longrightarrow> idle (svc c) = [])
     \<and> (op_que (svc c) \<noteq> [] \<and> idle (svc c) \<noteq> [] \<longrightarrow> (\<exists>t < length (pcs c). active (svc c) (pcs c ! t)))"

lemma info_inv_upd:
  assumes "info_inv c" and "t < length (pcs c)" and "pcs c' = (pcs c)[t := p]"
    and "info_of p = info_of (pcs c ! t) \<or> info_of p = None \<or> info_of p \<notin> set (map info_of (pcs c))"
  shows "info_inv c'"
proof -
  have other: "info_of (pcs c ! k) \<noteq> Some ti" if "k < length (pcs c)" "k \<noteq> t" "info_of p = Some ti" for k ti
  proof
    assume k: "info_of (pcs c ! k) = Some ti"
    then have "Some ti \<in> set (map info_of (pcs c))" using that(1) by (metis length_map nth_map nth_mem)
    then have "info_of (pcs c ! t) = Some ti" using assms(4) that(3) by auto
    with k that assms(1,2) show False by (auto simp: info_inv_def)
  qed
  show ?thesis
    unfolding info_inv_def
  proof (intro allI impI)
    fix i j ti
    assume ij: "i < length (pcs c')" "j < length (pcs c')"
      and eq: "info_of (pcs c' ! i) = Some ti \<and> info_of (pcs c' ! j) = Some ti"
    show "i = j"
      using assms(1-3) ij eq other [of i ti] other [of j ti]
      by (cases "i = t"; cases "j = t") (auto simp: info_inv_def)
  qed
qed

lemma info_of_after_round: "info_of (after_round ti r) = Some ti \<or> info_of (after_round ti r) = None"
  by (cases r) (auto simp: after_round_def)

lemma info_inv_step: "tstep c e c' \<Longrightarrow> info_inv c \<Longrightarrow> info_inv c'"
proof (induction rule: tstep.induct)
  case (round t c ti r s)
  have "info_of (after_round ti r) = info_of (pcs c ! t) \<or> info_of (after_round ti r) = None
      \<or> info_of (after_round ti r) \<notin> set (map info_of (pcs c))"
    using info_of_after_round [of ti r] round(2) by (auto simp del: set_map)
  then show ?case by (rule info_inv_upd [OF round(5,1), rotated]) simp
next
  case (enter t c ti s cs)
  show ?case by (rule info_inv_upd [of c t _ "Top ti"]) (use enter in simp_all)
next
  case (wake t c ti)
  show ?case by (rule info_inv_upd [of c t _ "Top ti"]) (use wake in simp_all)
next
  case (polled t c ti b ops)
  show ?case by (rule info_inv_upd [of c t _ "Top ti"]) (use polled in simp_all)
next
  case (handled t c ti op)
  show ?case by (rule info_inv_upd [of c t _ "Top ti"]) (use handled in simp_all)
qed (simp_all add: info_inv_def)

text \<open>How the operations move threads between the idle list and the signalled ones.\<close>

definition quiet :: "cfg \<Rightarrow> nat \<Rightarrow> bool" where
  "quiet c ti \<longleftrightarrow> (\<exists>t < length (pcs c). pcs c ! t = Waiting ti)"

lemma quiet_info: "quiet c ti \<Longrightarrow> Some ti \<in> set (map info_of (pcs c))"
  unfolding quiet_def in_set_conv_nth by force

lemma not_quiet:
  assumes "info_inv c" and "t < length (pcs c)" and "info_of (pcs c ! t) = Some ti"
    and "pcs c ! t \<noteq> Waiting ti"
  shows "\<not> quiet c ti"
  using assms by (auto simp: quiet_def info_inv_def)

lemma quiet_upd:
  assumes "info_inv c" and "t < length (pcs c)" and "info_of (pcs c ! t) = Some ti"
    and "pcs c' = (pcs c)[t := p]" and "info_of p = Some ti \<or> info_of p = None"
  shows "quiet c' tj \<longleftrightarrow> (if tj = ti then p = Waiting ti else quiet c tj)"
proof (cases "tj = ti")
  case True
  have "pcs c ! k \<noteq> Waiting ti" if "k < length (pcs c)" "k \<noteq> t" for k
    using assms(1-3) that by (auto simp: info_inv_def)
  then show ?thesis
    using True assms(2,4) by (auto simp: quiet_def nth_list_update)
next
  case False
  have "pcs c ! t \<noteq> Waiting tj" "p \<noteq> Waiting tj" using assms(3,5) False by auto
  then show ?thesis
    using False assms(2,4) by (auto simp: quiet_def nth_list_update)
qed

definition idle_of :: "cfg \<Rightarrow> tio \<Rightarrow> bool" where
  "idle_of c s \<longleftrightarrow> distinct (idle s) \<and> (\<forall>ti. ti \<in> set (idle s) \<longleftrightarrow> quiet c ti \<and> \<not> signalled (infos s ti))"

lemma idle_inv_of: "idle_inv c \<longleftrightarrow> idle_of c (svc c)"
  by (simp add: idle_inv_def idle_of_def quiet_def)

lemma signalled_wake_infos:
  "signalled (wake_infos s ti) \<longleftrightarrow> signalled (infos s ti) \<or> (idle s \<noteq> [] \<and> ti = hd (idle s))"
  by (simp add: wake_infos_def split: list.splits)

lemma idle_of_wake:
  assumes "idle_of c s" and "idle s' = tl (idle s)" and "\<And>ti. signalled (infos s' ti) = signalled (wake_infos s ti)"
  shows "idle_of c s'"
  using assms by (cases "idle s") (auto simp: idle_of_def signalled_wake_infos)

lemma idle_of_same:
  assumes "idle_of c s" and "idle s' = idle s" and "\<And>ti. signalled (infos s' ti) = signalled (infos s ti)"
  shows "idle_of c s'"
  using assms by (simp add: idle_of_def)

lemma idle_of_stop:
  assumes "idle_of c s" and "idle s' = []"
    and "\<And>ti. signalled (infos s' ti) \<longleftrightarrow> signalled (infos s ti) \<or> ti \<in> set (idle s)"
  shows "idle_of c s'"
  using assms by (auto simp: idle_of_def)

lemma idle_of_quiet: "idle_of c s \<Longrightarrow> (\<And>ti. quiet c' ti = quiet c ti) \<Longrightarrow> idle_of c' s"
  by (simp add: idle_of_def)

lemma do_call_idle:
  assumes "idle_of c s"
  shows "idle_of c (do_call cs x s)"
proof (cases x)
  case (CPost p)
  show ?thesis
  proof (cases "if one_thread s then contains (self s) cs else None")
    case None
    with CPost show ?thesis
      by (auto simp: post_immediate_completion_def work_started_def Let_def wake_infos_def
          split: list.splits intro!: idle_of_wake [OF assms])
  next
    case (Some a)
    with CPost show ?thesis
      by (auto simp: post_immediate_completion_def intro!: idle_of_same [OF assms] split: if_splits)
  qed
next
  case (CDeferred ps)
  show ?thesis
  proof (cases "if one_thread s then contains (self s) cs else None")
    case None
    with CDeferred assms show ?thesis
      by (auto simp: post_deferred_completions_def wake_infos_def
          split: list.splits intro!: idle_of_wake [OF assms])
  next
    case (Some a)
    with CDeferred assms show ?thesis
      by (auto simp: post_deferred_completions_def intro!: idle_of_same [OF assms] split: if_splits)
  qed
next
  case CStop
  then show ?thesis by (auto intro!: idle_of_stop [OF assms])
next
  case CInit
  then show ?thesis
    by (auto simp: init_task_def wake_infos_def assms split: list.splits intro!: idle_of_wake [OF assms])
qed (auto simp: work_started_def reset_svc_def intro!: idle_of_same [OF assms])

lemma round_idle:
  assumes "do_run_one_round ti s = (r, s')" and "idle_of c s" and "info_inv c"
    and "t < length (pcs c)" and "pcs c ! t = Top ti" and "pcs c' = (pcs c)[t := after_round ti r]"
  shows "idle_of c' s'"
proof -
  have q: "quiet c' tj \<longleftrightarrow> (if tj = ti then after_round ti r = Waiting ti else quiet c tj)" for tj
    using assms(3-6) info_of_after_round [of ti r] by (intro quiet_upd [of c t]) auto
  have nq: "\<not> quiet c ti"
    using assms(3-5) by (intro not_quiet [of c t]) auto
  show ?thesis
  proof (cases r)
    case RWait
    then have "s' = upd_info ti (\<lambda>i. i\<lparr>signalled := False\<rparr>) (s\<lparr>idle := ti # idle s\<rparr>)"
      using assms(1) by (auto simp: do_run_one_round_def Let_def split: if_splits list.splits)
    then show ?thesis
      using assms(2) q nq RWait by (auto simp: idle_of_def after_round_def)
  next
    case RStopped
    then have "s' = s" using assms(1)
      by (auto simp: do_run_one_round_def Let_def split: if_splits list.splits)
    then show ?thesis using assms(2) q nq RStopped by (auto simp: idle_of_def after_round_def)
  next
    case (RPoll b)
    then have "idle s' = tl (idle s) \<and> infos s' = wake_infos s \<or> idle s' = idle s \<and> infos s' = infos s"
      using assms(1)
      by (auto simp: do_run_one_round_def Let_def wake_infos_def split: if_splits list.splits)
    moreover have "idle_of c' s" using assms(2) q nq RPoll by (auto simp: idle_of_def after_round_def)
    ultimately show ?thesis using idle_of_wake idle_of_same by metis
  next
    case (RHandle op)
    then have "idle s' = tl (idle s) \<and> infos s' = wake_infos s \<or> idle s' = idle s \<and> infos s' = infos s"
      using assms(1)
      by (auto simp: do_run_one_round_def Let_def wake_infos_def split: if_splits list.splits)
    moreover have "idle_of c' s" using assms(2) q nq RHandle by (auto simp: idle_of_def after_round_def)
    ultimately show ?thesis using idle_of_wake idle_of_same by metis
  qed
qed

lemma work_cleanup_idle:
  assumes "idle_of c s"
  shows "idle_of c (work_cleanup ti s)"
proof -
  have "idle_of c (work_finished s)"
    using assms idle_of_same [OF assms] idle_of_stop [OF assms]
    by (auto simp: work_finished_def Let_def)
  moreover have "idle (work_cleanup ti s) = idle s
        \<and> (\<forall>tj. signalled (infos (work_cleanup ti s) tj) = signalled (infos s tj))
      \<or> idle (work_cleanup ti s) = idle (work_finished s)
        \<and> (\<forall>tj. signalled (infos (work_cleanup ti s) tj) = signalled (infos (work_finished s) tj))"
    by (auto simp: work_cleanup_def Let_def)
  ultimately show ?thesis using idle_of_same assms by metis
qed

lemma idle_inv_step:
  assumes "tstep c e c'" and "idle_inv c" and "info_inv c"
  shows "idle_inv c'"
  using assms
proof (induction rule: tstep.induct)
  case (enter_none t c ti)
  then show ?case
    by (auto simp: idle_inv_of quiet_def idle_of_def)
next
  case (enter t c ti s cs)
  have "\<not> quiet c ti"
    using enter(4) quiet_info by blast
  moreover have "quiet (c\<lparr>svc := s, pcs := (pcs c)[t := Top ti], lock_by := Some t, stks := (stks c)[t := cs]\<rparr>) tj
      = quiet c tj" for tj
    using enter(1,2) by (auto simp: quiet_def nth_list_update) (metis tpc.distinct(3))
  ultimately show ?case
    using enter(6) run_enter_simps [OF enter(5)] by (auto simp: idle_inv_of idle_of_def)
next
  case (round t c ti r s)
  from round_idle [OF round(4)] round show ?case by (simp add: idle_inv_of)
next
  case (wake t c ti)
  have "quiet (c\<lparr>pcs := (pcs c)[t := Top ti], lock_by := Some t\<rparr>) tj \<longleftrightarrow> (if tj = ti then Top ti = Waiting ti else quiet c tj)" for tj
    using wake by (intro quiet_upd [of c t]) auto
  with wake show ?case by (auto simp: idle_inv_of idle_of_def)
next
  case (polled t c ti b ops)
  let ?c = "c\<lparr>svc := task_cleanup ti (poll_into ti ops (svc c)), pcs := (pcs c)[t := Top ti], lock_by := Some t\<rparr>"
  have q: "quiet ?c tj \<longleftrightarrow> (if tj = ti then Top ti = Waiting ti else quiet c tj)" for tj
    using polled by (intro quiet_upd [of c t]) auto
  have nq: "\<not> quiet c ti"
    using polled by (intro not_quiet [of c t]) auto
  show ?case
    using polled q nq by (auto simp: idle_inv_of idle_of_def task_cleanup_simps)
next
  case (handled t c ti op)
  let ?c = "c\<lparr>svc := work_cleanup ti (svc c), pcs := (pcs c)[t := Top ti], lock_by := Some t\<rparr>"
  have q: "quiet ?c tj \<longleftrightarrow> (if tj = ti then Top ti = Waiting ti else quiet c tj)" for tj
    using handled by (intro quiet_upd [of c t]) auto
  have nq: "\<not> quiet c ti"
    using handled by (intro not_quiet [of c t]) auto
  have "quiet ?c tj = quiet c tj" for tj using q nq by auto
  then show ?case
    using handled work_cleanup_idle [of c "svc c" ti] by (simp add: idle_inv_of idle_of_def)
next
  case (call t c x)
  then show ?case
    using do_call_idle [of c "svc c" "stks c ! t" x] by (simp add: idle_inv_of idle_of_def quiet_def)
qed

lemma wake_inv_active:
  assumes "t < length (pcs c)" and "active (svc c) (pcs c ! t)" and "stopped (svc c) \<longrightarrow> idle (svc c) = []"
  shows "wake_inv c"
  using assms by (auto simp: wake_inv_def)

lemma round_wake:
  assumes "do_run_one_round ti s = (r, s')" and "stopped s \<longrightarrow> idle s = []"
  shows "stopped s' \<longrightarrow> idle s' = []"
    and "op_que s' \<noteq> [] \<and> idle s' \<noteq> [] \<longrightarrow> active s' (after_round ti r)"
  using assms
  by (auto simp: do_run_one_round_def Let_def after_round_def split: if_splits list.splits)

lemma work_cleanup_stopped:
  "stopped s \<longrightarrow> idle s = [] \<Longrightarrow> stopped (work_cleanup ti s) \<longrightarrow> idle (work_cleanup ti s) = []"
  by (auto simp: work_cleanup_def work_finished_def Let_def)

lemma call_wake:
  assumes "wake_inv c" and "idle_inv c"
  shows "wake_inv (c\<lparr>svc := do_call cs x (svc c)\<rparr>)"
proof -
  let ?s = "svc c" and ?s' = "do_call cs x (svc c)"
  have woken: "\<exists>t < length (pcs c). active s (pcs c ! t)"
    if "idle ?s \<noteq> []" and "infos s = wake_infos ?s" for s
  proof -
    from that(1) have "hd (idle ?s) \<in> set (idle ?s)" by simp
    then obtain t where "t < length (pcs c)" "pcs c ! t = Waiting (hd (idle ?s))"
      using assms(2) by (auto simp: idle_inv_def)
    then show ?thesis using that by (auto simp: signalled_wake_infos)
  qed
  have same: "active s p = active ?s p" if "\<And>ti. signalled (infos s ti) = signalled (infos ?s ti)" for s p
    using that by (cases p) auto
  consider "idle ?s' = tl (idle ?s)" "infos ?s' = wake_infos ?s" "stopped ?s' = stopped ?s"
    | "idle ?s' = []"
    | "idle ?s' = idle ?s" "\<And>ti. signalled (infos ?s' ti) = signalled (infos ?s ti)"
      "op_que ?s' = op_que ?s" "stopped ?s' \<longrightarrow> stopped ?s"
  proof (cases x)
    case (CPost p)
    then show ?thesis
      by (cases "if one_thread ?s then contains (self ?s) cs else None")
        (use that in \<open>auto simp: post_immediate_completion_def work_started_def Let_def
          split: if_splits\<close>)
  next
    case (CDeferred ps)
    then show ?thesis
      by (cases "ps = []"; cases "if one_thread ?s then contains (self ?s) cs else None")
        (use that in \<open>auto simp: post_deferred_completions_def split: if_splits\<close>)
  next
    case CInit
    show ?thesis
    proof (cases "\<not> shutdown ?s \<and> \<not> poller ?s")
      case True
      with CInit show ?thesis by (intro that(1)) (simp_all add: init_task_def)
    next
      case False
      with CInit have "?s' = ?s" by (auto simp: init_task_def)
      with that(3) show ?thesis by simp
    qed
  qed (use that in \<open>auto simp: work_started_def reset_svc_def\<close>)
  then show ?thesis
  proof cases
    case 1
    then show ?thesis
      using assms(1) woken [of ?s'] by (cases "idle ?s = []") (auto simp: wake_inv_def)
  next
    case 2
    then show ?thesis by (simp add: wake_inv_def)
  next
    case 3
    then show ?thesis using assms(1) same [of ?s'] by (auto simp: wake_inv_def)
  qed
qed

lemma wake_inv_step:
  assumes "tstep c e c'" and "wake_inv c" and "idle_inv c"
  shows "wake_inv c'"
  using assms
proof (induction rule: tstep.induct)
  case (enter_none t c ti)
  then show ?case by (simp add: wake_inv_def)
next
  case (enter t c ti s cs)
  then show ?case
    using run_enter_simps [OF enter(5)] by (intro wake_inv_active [of t]) (auto simp: wake_inv_def)
next
  case (round t c ti r s)
  then show ?case
    using round_wake [OF round(4)] by (auto simp: wake_inv_def intro!: exI [of _ t])
next
  case (wake t c ti)
  then show ?case by (intro wake_inv_active [of t]) (auto simp: wake_inv_def)
next
  case (polled t c ti b ops)
  then show ?case
    by (intro wake_inv_active [of t]) (auto simp: wake_inv_def task_cleanup_simps)
next
  case (handled t c ti op)
  then show ?case
    using work_cleanup_stopped [of "svc c" ti] by (intro wake_inv_active [of t]) (auto simp: wake_inv_def)
next
  case (call t c x)
  then show ?case by (intro call_wake)
qed

section \<open>All reachable configurations\<close>

definition run_inv :: "cfg \<Rightarrow> bool" where
  "run_inv c \<longleftrightarrow> lock_inv c \<and> token_inv c \<and> info_inv c \<and> idle_inv c \<and> wake_inv c"

lemma run_inv_step: "tstep c e c' \<Longrightarrow> run_inv c \<Longrightarrow> run_inv c'"
  by (simp add: run_inv_def lock_inv_step token_inv_step info_inv_step idle_inv_step wake_inv_step)

lemma run_inv_init: "run_inv (cfg_init n (tio_init a b h))"
  by (simp add: run_inv_def lock_inv_init token_inv_init)
    (simp add: info_inv_def idle_inv_def wake_inv_def cfg_init_def tio_init_def)

lemma reach_inv: "trun (cfg_init n (tio_init a b h)) es c \<Longrightarrow> run_inv c"
  using trun_invariant [where P = run_inv] run_inv_init run_inv_step by blast

lemma progress:
  assumes inv: "run_inv c" and t: "t < length (pcs c)" "pcs c ! t \<noteq> Outside"
    and work: "op_que (svc c) \<noteq> [] \<or> stopped (svc c)"
  shows "\<exists>u c'. tstep c (ERound u) c' \<or> tstep c (EWake u) c' \<or> tstep c (EPolled u []) c' \<or> tstep c (EHandled u) c'"
proof (cases "lock_by c")
  case (Some u)
  then obtain ti where u: "u < length (pcs c)" "pcs c ! u = Top ti"
    using inv by (auto simp: run_inv_def lock_inv_def)
  obtain r s where "do_run_one_round ti (svc c) = (r, s)" by (cases "do_run_one_round ti (svc c)")
  from tstep.round [OF u Some this] show ?thesis by blast
next
  case None
  obtain u where u: "u < length (pcs c)" "active (svc c) (pcs c ! u)"
  proof (cases "idle (svc c) = []")
    case True
    then have "active (svc c) (pcs c ! t)"
      using inv t by (cases "pcs c ! t") (auto simp: run_inv_def idle_inv_def)
    with t that show ?thesis by blast
  next
    case False
    with inv work that show ?thesis by (auto simp: run_inv_def wake_inv_def)
  qed
  then show ?thesis
  proof (cases "pcs c ! u")
    case (Top ti)
    with None u inv show ?thesis by (auto simp: run_inv_def lock_inv_def)
  next
    case (Waiting ti)
    with tstep.wake [OF u(1) Waiting _ None] u show ?thesis by auto
  next
    case (Polling ti b)
    with tstep.polled [OF u(1) Polling None, of "[]"] show ?thesis by auto
  next
    case (Handling ti op)
    with tstep.handled [OF u(1) Handling None] show ?thesis by auto
  qed auto
qed

section \<open>Single operations\<close>

lemma ti_allocate_ok:
  assumes "\<And>n. length (new n) = n"
    and "\<forall>mem. this_thread = Some (Some mem) \<longrightarrow> unat (mem ! 0) < length mem"
    and "ti_allocate new this_thread sz = (mem, fresh, this')"
  shows "sz < length mem" and "unat (mem ! sz) < length mem" and "this' \<noteq> None \<longrightarrow> this' = Some None"
proof -
  have f: "unat (if n \<le> UCHAR_MAX then word_of_nat n else 0 :: byte) \<le> n" for n
    by (auto simp: unat_of_nat)
  show "sz < length mem" "unat (mem ! sz) < length mem" "this' \<noteq> None \<longrightarrow> this' = Some None"
    using assms f [of sz]
    by (auto simp: ti_allocate_def Let_def less_Suc_eq_le split: option.splits if_splits)
qed

lemma destroy_back_destroyed: "destroyed (destroy_back ops s) = destroyed s @ rev ops"
proof (induction "length ops" arbitrary: ops s)
  case (Suc n)
  then obtain x xs where ops: "ops = x # xs" by (cases ops) auto
  have "ops \<noteq> []" "n = length (butlast ops)" using Suc ops by auto
  with Suc.hyps(1) [of "butlast ops"] show ?case
    by (simp add: ops del: butlast.simps last.simps)
      (metis append_butlast_last_id list.distinct(1) rev.simps rev_append append_Cons append_Nil)
qed simp

lemma destroy_queue_spec:
  "op_que (destroy_queue q s) = [] \<and> task_op (destroy_queue q s) = task_op s
     \<and> destroyed (destroy_queue q s) = destroyed s @ filter (\<lambda>x. x \<noteq> task_op s) q"
  by (induction q s rule: destroy_queue.induct) auto

end
