(* ===== verification/Task_Io_Props.thy ===== *)
theory Task_Io_Props
  imports Task_Io_Run
begin

text \<open>
  Properties of \<open>task_io_service\<close> over all interleavings of its threads, and of its single
  operations. \<open>texec\<close> computes the steps, so concrete runs can be evaluated.
\<close>

section \<open>Executing runs\<close>

definition texec :: "cfg \<Rightarrow> event \<Rightarrow> cfg option" where
  "texec c e =
     (case e of
        EEnter t ti \<Rightarrow>
          if t < length (pcs c) \<and> pcs c ! t = Outside \<and> lock_by c = None then
            (case run_enter ti (stks c ! t) (svc c) of
               None \<Rightarrow> Some (c\<lparr>svc := stop_all_threads (svc c)\<rparr>)
             | Some (s, cs) \<Rightarrow> if Some ti \<notin> set (map info_of (pcs c))
                 then Some (c\<lparr>svc := s, pcs := (pcs c)[t := Top ti], lock_by := Some t, stks := (stks c)[t := cs]\<rparr>)
                 else None)
          else None
      | ERound t \<Rightarrow>
          if t < length (pcs c) \<and> lock_by c = Some t then
            (case pcs c ! t of Top ti \<Rightarrow>
               (case do_run_one_round ti (svc c) of (r, s) \<Rightarrow>
                  Some (c\<lparr>svc := s, pcs := (pcs c)[t := after_round ti r], lock_by := None,
                    stks := if r = RStopped then (stks c)[t := ctx_pop (stks c ! t)] else stks c\<rparr>))
             | _ \<Rightarrow> None)
          else None
      | EWake t \<Rightarrow>
          if t < length (pcs c) \<and> lock_by c = None then
            (case pcs c ! t of Waiting ti \<Rightarrow> if signalled (infos (svc c) ti)
                 then Some (c\<lparr>pcs := (pcs c)[t := Top ti], lock_by := Some t\<rparr>) else None
             | _ \<Rightarrow> None)
          else None
      | EPolled t ops \<Rightarrow>
          if t < length (pcs c) \<and> lock_by c = None \<and> task_op (svc c) \<notin> set ops then
            (case pcs c ! t of Polling ti b \<Rightarrow>
                 Some (c\<lparr>svc := task_cleanup ti (poll_into ti ops (svc c)),
                         pcs := (pcs c)[t := Top ti], lock_by := Some t\<rparr>)
             | _ \<Rightarrow> None)
          else None
      | EHandled t \<Rightarrow>
          if t < length (pcs c) \<and> lock_by c = None then
            (case pcs c ! t of Handling ti ob \<Rightarrow>
                 Some (c\<lparr>svc := work_cleanup ti (svc c), pcs := (pcs c)[t := Top ti], lock_by := Some t\<rparr>)
             | _ \<Rightarrow> None)
          else None
      | ECall t x \<Rightarrow>
          if t < length (pcs c) \<and> lock_by c = None \<and> call_ok x (svc c)
             \<and> (case pcs c ! t of Outside \<Rightarrow> True | Handling ti ob \<Rightarrow> True | _ \<Rightarrow> False)
          then Some (c\<lparr>svc := do_call (stks c ! t) x (svc c)\<rparr>) else None)"

fun texecs :: "cfg \<Rightarrow> event list \<Rightarrow> cfg option" where
  "texecs c [] = Some c"
| "texecs c (e # es) = (case texec c e of None \<Rightarrow> None | Some c' \<Rightarrow> texecs c' es)"

lemma tstep_round_stopped:
  "t < length (pcs c) \<Longrightarrow> pcs c ! t = Top ti \<Longrightarrow> lock_by c = Some t \<Longrightarrow>
     do_run_one_round ti (svc c) = (RStopped, s) \<Longrightarrow>
     tstep c (ERound t) (c\<lparr>svc := s, pcs := (pcs c)[t := after_round ti RStopped], lock_by := None,
       stks := (stks c)[t := ctx_pop (stks c ! t)]\<rparr>)"
  using tstep.round [of t c ti RStopped s] by simp

lemma tstep_round_on:
  "t < length (pcs c) \<Longrightarrow> pcs c ! t = Top ti \<Longrightarrow> lock_by c = Some t \<Longrightarrow>
     do_run_one_round ti (svc c) = (r, s) \<Longrightarrow> r \<noteq> RStopped \<Longrightarrow>
     tstep c (ERound t) (c\<lparr>svc := s, pcs := (pcs c)[t := after_round ti r], lock_by := None\<rparr>)"
  using tstep.round [of t c ti r s] by simp

lemma texec_sound: "texec c e = Some c' \<Longrightarrow> tstep c e c'"
  by (cases e)
    (auto simp: texec_def intro: tstep_round_stopped tstep_round_on tstep.intros
      split: if_splits option.splits tpc.splits prod.splits)

lemma trun_Cons:
  assumes "tstep c e c'" and "trun c' es c''"
  shows "trun c (e # es) c''"
  using assms(2,1)
proof (induction rule: trun.induct)
  case (nil c')
  then show ?case using trun.snoc [OF trun.nil nil] by simp
next
  case (snoc c' es d e' d')
  then show ?case using trun.snoc [OF snoc.IH [OF snoc.prems] snoc.hyps(2)] by simp
qed

lemma texecs_sound: "texecs c es = Some c' \<Longrightarrow> trun c es c'"
  by (induction c es rule: texecs.induct)
    (auto intro: trun.nil trun_Cons texec_sound split: option.splits)

text \<open>A run: the service at address 1, its task operation at 50; two threads.\<close>

abbreviation cfg0 :: cfg where "cfg0 \<equiv> cfg_init 2 (tio_init 1 50 0)"

abbreviation run1 :: "event list" where
  "run1 \<equiv> [ECall 0 CInit, ECall 0 (CPost 60), ECall 1 CStarted, EEnter 0 100, ERound 0, EEnter 1 101,
     ERound 1, EPolled 0 [], ERound 0]"

lemma run1_result:
  "map_option (\<lambda>c. (pcs c, op_que (svc c), outstanding_work (svc c), stopped (svc c), poller (svc c), task_op (svc c)))
     (texecs cfg0 run1) = Some ([Polling 100 True, Handling 101 60], [], 2, False, True, 50)"
  by code_simp

lemma run1_reach:
  "\<exists>c. trun cfg0 run1 c \<and> pcs c = [Polling 100 True, Handling 101 60] \<and> op_que (svc c) = []
     \<and> outstanding_work (svc c) = 2 \<and> \<not> stopped (svc c) \<and> poller (svc c) \<and> task_op (svc c) = 50"
proof -
  obtain c where "texecs cfg0 run1 = Some c" using run1_result by fastforce
  then have "trun cfg0 run1 c" by (rule texecs_sound)
  moreover have "pcs c = [Polling 100 True, Handling 101 60]" "op_que (svc c) = []"
     "outstanding_work (svc c) = 2" "\<not> stopped (svc c)" "poller (svc c)" "task_op (svc c) = 50"
    using run1_result unfolding \<open>texecs cfg0 run1 = Some c\<close> by simp_all
  ultimately show ?thesis by blast
qed

section \<open>Properties\<close>

text \<open>
  C6. In every reachable configuration the mutex has at most one holder, at most one thread is
  inside the reactor, and \<open>task_operation_\<close> is in the queue exactly when a poller exists and no
  thread is inside it; so the reactor is never polled twice at once and never forgotten.
\<close>

theorem reactor_token:
  assumes "trun (cfg_init n (tio_init a b h)) es c"
  shows "(\<forall>i < length (pcs c). \<forall>j < length (pcs c). \<forall>ti tj.
       (pcs c ! i = Top ti \<and> pcs c ! j = Top tj \<longrightarrow> i = j)
     \<and> (\<forall>f g. pcs c ! i = Polling ti f \<and> pcs c ! j = Polling tj g \<longrightarrow> i = j))
   \<and> int (count_list (op_que (svc c)) (task_op (svc c))) + sum_pcs w_polling c
       = (if poller (svc c) then 1 else 0)"
proof -
  from reach_inv [OF assms] have l: "lock_inv c" and k: "token_inv c"
    by (simp_all add: run_inv_def)
  have "i = j" if "i < length (pcs c)" "j < length (pcs c)" "pcs c ! i = Top ti" "pcs c ! j = Top tj" for i j ti tj
    using l that unfolding lock_inv_def by (metis option.inject)
  moreover have "i = j" if "i < length (pcs c)" "j < length (pcs c)" "pcs c ! i = Polling ti f"
      "pcs c ! j = Polling tj g" for i j ti tj f g
    using token_one_poller(1) [OF k that] .
  ultimately show ?thesis using k unfolding token_inv_def by blast
qed

theorem reactor_token_witness:
  "\<exists>c. trun cfg0 run1 c \<and> pcs c ! 0 = Polling 100 True \<and> count_list (op_que (svc c)) 50 = 0"
proof -
  obtain c where c: "trun cfg0 run1 c" "pcs c = [Polling 100 True, Handling 101 60]" "poller (svc c)"
      "task_op (svc c) = 50" using run1_reach by blast
  from reactor_token [OF c(1)] c have "count_list (op_que (svc c)) 50 = 0"
    by (simp add: sum_pcs_def)
  with c show ?thesis by auto
qed







text \<open>
  Handing over completed operations keeps each of them exactly once but not their order:
  \<open>std::list::merge\<close> orders by address, so an operation completed later overtakes a queued one
  that lives at a higher address.
\<close>

theorem deferred_reorders:
  assumes "\<not> one_thread s"
  shows "mset (op_que (post_deferred_completions cs ops s)) = mset (op_que s) + mset ops
    \<and> (op_que s = [x] \<and> y < x \<longrightarrow> op_que (post_deferred_completions cs [y] s) = [y, x])"
  using assms by (simp add: post_deferred_completions_def)

theorem deferred_reorders_witness:
  "op_que (post_deferred_completions [] [7] ((tio_init 1 50 0)\<lparr>op_que := [9]\<rparr>)) = [7, 9]"
  using deferred_reorders [of "(tio_init 1 50 0)\<lparr>op_que := [9]\<rparr>" "[]" "[7]" 9 7]
  by (simp add: tio_init_def)

text \<open>
  \<open>shutdown_service\<close> empties the queue and destroys every queued operation but
  \<open>task_operation_\<close> exactly once, in order; \<open>abandon_operations\<close> destroys its list from the back.
\<close>

theorem shutdown_destroys:
  "op_que (shutdown_service s) = [] \<and> shutdown (shutdown_service s) \<and> \<not> poller (shutdown_service s)
   \<and> destroyed (shutdown_service s) = destroyed s @ filter (\<lambda>x. x \<noteq> task_op s) (op_que s)
   \<and> destroyed (abandon_operations ops s) = destroyed s @ rev ops"
proof -
  have "shutdown (destroy_queue q s) = shutdown s" for q s
    by (induction q s rule: destroy_queue.induct) auto
  then show ?thesis
    using destroy_queue_spec [of "op_que s" "s\<lparr>shutdown := True\<rparr>"]
    by (simp add: shutdown_service_def abandon_operations_def destroy_back_destroyed)
qed

text \<open>
  Recycled memory: a block handed out by \<open>allocate\<close> is long enough for the object and the
  byte behind it that keeps its size, and after \<open>deallocate\<close> the size kept in its first byte
  does not exceed it, so the next \<open>allocate\<close> from the same thread is safe again.
\<close>

theorem recycled_memory_safe:
  assumes "\<And>n. length (new n) = n"
    and "\<forall>mem. this_thread = Some (Some mem) \<longrightarrow> unat (mem ! 0) < length mem"
    and "ti_allocate new this_thread sz = (mem, fresh, this')"
    and "length used = length mem" "used ! sz = mem ! sz"
  shows "sz < length mem
    \<and> (\<forall>mem'. ti_deallocate this' used sz = Some (Some mem') \<longrightarrow> unat (mem' ! 0) < length mem')"
proof -
  note ok = ti_allocate_ok [OF assms(1-3)]
  have "used \<noteq> []" using ok(1) assms(4) by auto
  then show ?thesis
    using ok assms(4,5) by (cases used) (auto simp: ti_deallocate_def)
qed

theorem recycled_memory_safe_witness:
  "ti_allocate (\<lambda>n. replicate n 0) (Some (Some [3, 9, 9, 9])) 2 = ([3, 9, 3, 9], False, Some None)
   \<and> ti_deallocate (Some None) [7, 8, 3, 9] 2 = Some (Some [3, 8, 3, 9])
   \<and> unat (([3, 8, 3, 9] :: byte list) ! 0) < 4"
proof -
  have a: "ti_allocate (\<lambda>n. replicate n 0) (Some (Some [3, 9, 9, 9])) 2 = ([3, 9, 3, 9], False, Some None)"
    by (simp add: ti_allocate_def)
  have d: "ti_deallocate (Some None) [7, 8, 3, 9] 2 = Some (Some [3, 8, 3, 9])"
    by (simp add: ti_deallocate_def)
  have "unat (([3, 8, 3, 9] :: byte list) ! 0) < length ([3, 8, 3, 9] :: byte list)"
    using recycled_memory_safe [OF _ _ a, of "[7, 8, 3, 9]"] d by simp
  with a d show ?thesis by simp
qed

end
