(* ===== verification/Links.thy ===== *)
theory Links
  imports Prelude_C
begin

text \<open>
  Linked lists whose links are maps from addresses: what it is to follow the next pointers along
  a list of addresses, and the previous pointers back.
\<close>

fun nexts :: "(nat \<Rightarrow> nat option) \<Rightarrow> nat option \<Rightarrow> nat list \<Rightarrow> bool" where
  "nexts nx l [] = (l = None)"
| "nexts nx l (x # xs) = (l = Some x \<and> nexts nx (nx x) xs)"

fun prevs :: "(nat \<Rightarrow> nat option) \<Rightarrow> nat option \<Rightarrow> nat list \<Rightarrow> bool" where
  "prevs pv b [] = True"
| "prevs pv b (x # xs) = (pv x = b \<and> prevs pv (Some x) xs)"

lemma nexts_upd [simp]: "x \<notin> set xs \<Longrightarrow> nexts (nx(x := v)) l xs = nexts nx l xs"
  by (induction nx l xs rule: nexts.induct) auto

lemma nexts_cong: "\<forall>z \<in> set xs. f z = g z \<Longrightarrow> nexts f l xs = nexts g l xs"
  by (induction f l xs rule: nexts.induct) auto

lemma prevs_upd [simp]: "x \<notin> set xs \<Longrightarrow> prevs (pv(x := v)) b xs = prevs pv b xs"
  by (induction pv b xs rule: prevs.induct) auto

lemma nexts_append:
  "nexts nx l (xs @ y # ys) \<Longrightarrow> nexts nx (nx y) ys"
  by (induction nx l xs rule: nexts.induct) auto

lemma prevs_append:
  "prevs pv b (xs @ ys) \<longleftrightarrow> prevs pv b xs \<and> prevs pv (if xs = [] then b else Some (last xs)) ys"
  by (induction xs arbitrary: b) auto

lemma nexts_unlink:
  assumes "nexts nx l (xs @ y # ys)" and "distinct (xs @ y # ys)" and "xs \<noteq> []"
  shows "nexts (nx(last xs := nx y)) l (xs @ ys)"
  using assms
proof (induction xs arbitrary: l)
  case (Cons x xs)
  then show ?case
    by (cases "xs = []") (auto simp: nexts_cong [of ys "\<lambda>a. if a = x then nx y else nx a" nx])
qed simp

lemma prevs_relink:
  assumes "prevs pv b (y # ys)" and "distinct (y # ys)"
  shows "prevs (case ys of [] \<Rightarrow> pv | z # _ \<Rightarrow> pv(z := b)) b ys"
  using assms by (cases ys) auto

lemma nexts_last: "nexts nx l xs \<Longrightarrow> xs \<noteq> [] \<Longrightarrow> nx (last xs) = None"
  by (induction nx l xs rule: nexts.induct) (auto split: if_splits)

lemma nexts_last_cons: "nexts nx l (xs @ [y]) \<Longrightarrow> nx y = None"
  by (drule nexts_last) auto

lemma nexts_butlast:
  assumes "nexts nx l (xs @ [y])" and "distinct (xs @ [y])" and "xs \<noteq> []"
  shows "nexts (nx(last xs := None)) l xs"
  using nexts_unlink [of nx l xs y "[]"] assms nexts_last_cons [of nx l xs y] by simp

lemma prevs_last: "prevs pv b (xs @ [y]) \<Longrightarrow> pv y = (if xs = [] then b else Some (last xs))"
  by (simp add: prevs_append)

end
