(* ===== verification/Object_Pool.thy ===== *)
theory Object_Pool
  imports Links
begin

text \<open>
  \<open>deviceagent/2deviceagent/utils/object_pool.hpp\<close>: the pool of descriptor records. Live
  objects form a doubly linked list through \<open>next_\<close> and \<open>prev_\<close>, freed ones a singly linked
  list through \<open>next_\<close>. The model keeps the links as maps from addresses, so an operation
  is the same sequence of pointer assignments as in the source; the abstraction is the pair
  of lists of live and of free objects.
\<close>

section \<open>The pool\<close>

type_synonym obj = nat

record pool =
  nxt :: "obj \<Rightarrow> obj option"
  prv :: "obj \<Rightarrow> obj option"
  live_list :: "obj option"
  free_list :: "obj option"

definition pool_empty :: pool where
  "pool_empty = \<lparr>nxt = (\<lambda>_. None), prv = (\<lambda>_. None), live_list = None, free_list = None\<rparr>"

definition set_nxt :: "obj \<Rightarrow> obj option \<Rightarrow> pool \<Rightarrow> pool" where
  "set_nxt ob v p = p\<lparr>nxt := (nxt p)(ob := v)\<rparr>"

definition set_prv :: "obj \<Rightarrow> obj option \<Rightarrow> pool \<Rightarrow> pool" where
  "set_prv ob v p = p\<lparr>prv := (prv p)(ob := v)\<rparr>"

definition pool_first :: "pool \<Rightarrow> obj option" where
  "pool_first p = live_list p"

text \<open>\<open>fresh\<close> is the address \<open>new Object\<close> returns when the free list is empty.\<close>

definition pool_alloc :: "obj \<Rightarrow> pool \<Rightarrow> obj \<times> pool" where
  "pool_alloc fresh p =
     (let (ob, p1) = (case free_list p of
              Some f \<Rightarrow> (f, p\<lparr>free_list := nxt p f\<rparr>)
            | None \<Rightarrow> (fresh, p));
          p2 = set_nxt ob (live_list p1) p1;
          p3 = set_prv ob None p2;
          p4 = (case live_list p3 of Some l \<Rightarrow> set_prv l (Some ob) p3 | None \<Rightarrow> p3)
      in (ob, p4\<lparr>live_list := Some ob\<rparr>))"

definition pool_free :: "obj \<Rightarrow> pool \<Rightarrow> pool" where
  "pool_free ob p =
     (let p1 = (if live_list p = Some ob then p\<lparr>live_list := nxt p ob\<rparr> else p);
          p2 = (case prv p1 ob of Some q \<Rightarrow> set_nxt q (nxt p1 ob) p1 | None \<Rightarrow> p1);
          p3 = (case nxt p2 ob of Some n \<Rightarrow> set_prv n (prv p2 ob) p2 | None \<Rightarrow> p2);
          p4 = set_nxt ob (free_list p3) p3;
          p5 = set_prv ob None p4
      in p5\<lparr>free_list := Some ob\<rparr>)"

text \<open>
  \<open>destroy_list\<close> follows \<open>next_\<close> until it is null; \<open>None\<close> is a list that never ends. The
  value is the objects destroyed, in order. The destructor destroys both lists.
\<close>

partial_function (option) destroy_list :: "(obj \<Rightarrow> obj option) \<Rightarrow> obj option \<Rightarrow> obj list option" where
  "destroy_list nx l =
     (case l of None \<Rightarrow> Some []
      | Some ob \<Rightarrow> Option.bind (destroy_list nx (nx ob)) (\<lambda>ds. Some (ob # ds)))"

definition pool_destroy :: "pool \<Rightarrow> obj list option" where
  "pool_destroy p =
     (case destroy_list (nxt p) (live_list p) of None \<Rightarrow> None
      | Some ls \<Rightarrow> (case destroy_list (nxt p) (free_list p) of None \<Rightarrow> None
          | Some fs \<Rightarrow> Some (ls @ fs)))"

declare destroy_list.simps [code]

section \<open>The representation\<close>

definition pool_inv :: "pool \<Rightarrow> obj list \<Rightarrow> obj list \<Rightarrow> bool" where
  "pool_inv p ls fs \<longleftrightarrow> nexts (nxt p) (live_list p) ls \<and> prevs (prv p) None ls
     \<and> nexts (nxt p) (free_list p) fs \<and> distinct (ls @ fs)"

lemma destroy_list_nexts: "nexts nx l xs \<Longrightarrow> destroy_list nx l = Some xs"
proof (induction xs arbitrary: l)
  case Nil
  then show ?case by (subst destroy_list.simps) simp
next
  case (Cons x xs)
  then show ?case by (subst destroy_list.simps) simp
qed

section \<open>The operations\<close>

lemma pool_inv_distinct: "pool_inv p ls fs \<Longrightarrow> distinct (ls @ fs)"
  by (simp add: pool_inv_def)

lemma pool_inv_empty [simp]: "pool_inv pool_empty [] []"
  by (simp add: pool_inv_def pool_empty_def)

lemma pool_first_inv: "pool_inv p ls fs \<Longrightarrow> pool_first p = (case ls of [] \<Rightarrow> None | x # _ \<Rightarrow> Some x)"
  by (cases ls) (auto simp: pool_inv_def pool_first_def)

lemma pool_alloc_inv:
  assumes "pool_inv p ls fs" and "fresh \<notin> set ls"
  shows "fst (pool_alloc fresh p) = (case fs of [] \<Rightarrow> fresh | f # _ \<Rightarrow> f)"
    and "pool_inv (snd (pool_alloc fresh p)) (fst (pool_alloc fresh p) # ls) (tl fs)"
proof -
  show "fst (pool_alloc fresh p) = (case fs of [] \<Rightarrow> fresh | f # _ \<Rightarrow> f)"
    using assms by (cases fs) (auto simp: pool_alloc_def pool_inv_def Let_def)
  show "pool_inv (snd (pool_alloc fresh p)) (fst (pool_alloc fresh p) # ls) (tl fs)"
    using assms
    by (cases fs; cases ls)
      (auto simp: pool_alloc_def pool_inv_def Let_def set_nxt_def set_prv_def)
qed

lemma pool_free_inv:
  assumes "pool_inv p ls fs" and "ob \<in> set ls"
  shows "pool_inv (pool_free ob p) (remove1 ob ls) (ob # fs)"
proof -
  obtain xs ys where ls: "ls = xs @ ob # ys" and nin: "ob \<notin> set xs"
    using assms(2) by (meson split_list_first)
  have rm: "remove1 ob ls = xs @ ys" using nin by (simp add: ls remove1_append)
  note inv = assms(1) [unfolded pool_inv_def ls]
  have pv: "prv p ob = (if xs = [] then None else Some (last xs))"
    using inv by (auto simp: prevs_append)
  have nx: "nxt p ob = (case ys of [] \<Rightarrow> None | z # _ \<Rightarrow> Some z)"
    using nexts_append [of "nxt p" "live_list p" xs ob ys] inv by (cases ys) auto
  have head: "live_list p = Some ob \<longleftrightarrow> xs = []"
    using inv by (cases xs) auto
  let ?n = "(nxt p)(last xs := nxt p ob)"
  have tail: "prevs (case ys of [] \<Rightarrow> prv p | z # _ \<Rightarrow> (prv p)(z := prv p ob)) (prv p ob) ys"
    using inv pv by (intro prevs_relink) (auto simp: prevs_append)
  show ?thesis
  proof (cases "xs = []")
    case True
    then show ?thesis
      using inv pv nx tail nexts_append [of "nxt p" "live_list p" xs ob ys]
      by (cases ys) (auto simp: pool_free_def pool_inv_def rm Let_def set_nxt_def set_prv_def)
  next
    case False
    then have "last xs \<in> set xs" by simp
    moreover from this have "last xs \<notin> set fs" using inv by auto
    moreover have "nexts ?n (live_list p) (xs @ ys)"
      using inv False by (intro nexts_unlink) auto
    moreover have "prevs (prv p) None xs" using inv by (auto simp: prevs_append)
    ultimately show ?thesis
      using False inv pv nx tail head
      by (cases ys) (auto simp: pool_free_def pool_inv_def rm Let_def set_nxt_def set_prv_def prevs_append)
  qed
qed

lemma pool_destroy_inv: "pool_inv p ls fs \<Longrightarrow> pool_destroy p = Some (ls @ fs)"
  by (auto simp: pool_destroy_def pool_inv_def dest!: destroy_list_nexts)

section \<open>The interface its client relies on\<close>

text \<open>
  What \<open>epoller\<close> uses of the pool: \<open>rep p ls fs\<close> says that \<open>ls\<close> are the live objects, newest
  first, and \<open>fs\<close> the freed ones kept for reuse.
\<close>

locale descriptor_pool =
  fixes rep :: "'p \<Rightarrow> 'ob list \<Rightarrow> 'ob list \<Rightarrow> bool"
    and first :: "'p \<Rightarrow> 'ob option"
    and alloc :: "'ob \<Rightarrow> 'p \<Rightarrow> 'ob \<times> 'p"
    and release :: "'ob \<Rightarrow> 'p \<Rightarrow> 'p"
  assumes rep_distinct: "rep p ls fs \<Longrightarrow> distinct (ls @ fs)"
    and first_rep: "rep p ls fs \<Longrightarrow> first p = (case ls of [] \<Rightarrow> None | x # _ \<Rightarrow> Some x)"
    and alloc_rep: "rep p ls fs \<Longrightarrow> fresh \<notin> set ls \<union> set fs \<Longrightarrow>
      fst (alloc fresh p) = (case fs of [] \<Rightarrow> fresh | f # _ \<Rightarrow> f)
      \<and> rep (snd (alloc fresh p)) (fst (alloc fresh p) # ls) (tl fs)"
    and release_rep: "rep p ls fs \<Longrightarrow> x \<in> set ls \<Longrightarrow> rep (release x p) (remove1 x ls) (x # fs)"
begin

lemma alloc_not_live:
  assumes "rep p ls fs" and "fresh \<notin> set ls \<union> set fs" and "alloc fresh p = (x, q)"
  shows "x \<notin> set ls" and "rep q (x # ls) (tl fs)"
  using alloc_rep [OF assms(1,2)] rep_distinct [OF assms(1)] assms by (auto split: list.splits)

lemma release_first:
  assumes "rep p (x # ls) fs"
  shows "first p = Some x" and "rep (release x p) ls (x # fs)"
  using first_rep [OF assms] release_rep [OF assms, of x] by simp_all

lemma alloc_release:
  assumes "rep p ls fs" and "fresh \<notin> set ls \<union> set fs" and "alloc fresh p = (x, q)"
  shows "rep (release x q) ls (x # tl fs)"
  using alloc_not_live [OF assms] by (intro release_first(2))

lemma first_none_iff: "rep p ls fs \<Longrightarrow> first p = None \<longleftrightarrow> ls = []"
  by (auto simp: first_rep split: list.splits)

end

interpretation dpool: descriptor_pool pool_inv pool_first pool_alloc pool_free
proof unfold_locales
  fix p ls fs fresh
  assume "pool_inv p ls fs" and "fresh \<notin> set ls \<union> set fs"
  then show "fst (pool_alloc fresh p) = (case fs of [] \<Rightarrow> fresh | f # _ \<Rightarrow> f)
      \<and> pool_inv (snd (pool_alloc fresh p)) (fst (pool_alloc fresh p) # ls) (tl fs)"
    using pool_alloc_inv [of p ls fs fresh] by simp
qed (simp_all only: pool_inv_distinct pool_first_inv pool_free_inv)

section \<open>Traces\<close>

datatype pool_op = PAlloc obj | PFree obj

fun pool_exec :: "pool_op list \<Rightarrow> pool \<Rightarrow> pool" where
  "pool_exec [] p = p"
| "pool_exec (PAlloc fresh # ops) p = pool_exec ops (snd (pool_alloc fresh p))"
| "pool_exec (PFree ob # ops) p = pool_exec ops (pool_free ob p)"

text \<open>The specification: two lists, and which traces a client may perform.\<close>

fun lists_exec :: "pool_op list \<Rightarrow> obj list \<times> obj list \<Rightarrow> obj list \<times> obj list" where
  "lists_exec [] s = s"
| "lists_exec (PAlloc fresh # ops) (ls, []) = lists_exec ops (fresh # ls, [])"
| "lists_exec (PAlloc fresh # ops) (ls, f # fs) = lists_exec ops (f # ls, fs)"
| "lists_exec (PFree ob # ops) (ls, fs) = lists_exec ops (remove1 ob ls, ob # fs)"

fun trace_ok :: "pool_op list \<Rightarrow> obj list \<times> obj list \<Rightarrow> bool" where
  "trace_ok [] s = True"
| "trace_ok (PAlloc fresh # ops) (ls, fs) =
     (fresh \<notin> set ls \<and> fresh \<notin> set fs \<and> trace_ok ops (lists_exec [PAlloc fresh] (ls, fs)))"
| "trace_ok (PFree ob # ops) (ls, fs) =
     (ob \<in> set ls \<and> trace_ok ops (lists_exec [PFree ob] (ls, fs)))"

lemma pool_exec_refines:
  "pool_inv p (fst s) (snd s) \<Longrightarrow> trace_ok ops s \<Longrightarrow>
     pool_inv (pool_exec ops p) (fst (lists_exec ops s)) (snd (lists_exec ops s))"
proof (induction ops s arbitrary: p rule: trace_ok.induct)
  case (2 fresh ops ls fs)
  then have inv: "pool_inv p ls fs" and n: "fresh \<notin> set ls \<union> set fs" by auto
  from dpool.alloc_rep [OF this] 2 show ?case by (cases fs) auto
next
  case (3 ob ops ls fs)
  then show ?case by (auto intro: pool_free_inv)
qed simp

text \<open>
  C12. The pool implements its two lists: for every trace of \<open>alloc\<close> and \<open>free\<close> that frees only
  live objects, the linked lists in memory are those of the specification, and the destructor
  then ends and destroys every object of both lists exactly once.
\<close>

theorem pool_refines_lists:
  assumes "trace_ok ops ([], [])" and "lists_exec ops ([], []) = (ls, fs)"
  shows "pool_first (pool_exec ops pool_empty) = (case ls of [] \<Rightarrow> None | x # _ \<Rightarrow> Some x)
    \<and> pool_destroy (pool_exec ops pool_empty) = Some (ls @ fs) \<and> distinct (ls @ fs)"
proof -
  have "pool_inv (pool_exec ops pool_empty) ls fs"
    using pool_exec_refines [of pool_empty "([], [])" ops] assms by simp
  then show ?thesis
    by (simp add: dpool.first_rep pool_destroy_inv dpool.rep_distinct [simplified])
qed

theorem pool_refines_lists_witness:
  "pool_destroy (pool_exec [PAlloc 1, PAlloc 2, PAlloc 3, PFree 2, PFree 1, PAlloc 9] pool_empty)
     = Some [1, 3, 2]"
  using pool_refines_lists [of "[PAlloc 1, PAlloc 2, PAlloc 3, PFree 2, PFree 1, PAlloc 9]" "[1, 3]" "[2]"]
  by simp

end
