(* ===== verification/Epoll.thy ===== *)
theory Epoll
  imports Object_Pool "HOL-Library.Multiset"
begin

unbundle bit_operations_syntax

text \<open>
  \<open>deviceagent/2deviceagent/io/async/epoll.hpp\<close>: the reactor. An \<open>op_set\<close> is a record at the
  address of its pool object, with one queue of pending operations per kind; the kernel's
  interest list is a map from descriptors to the events and the pointer given to
  \<open>epoll_ctl\<close>. The service behind \<open>io_service_\<close> is a parameter: the record of the four
  operations the reactor calls. What \<open>do_work\<close> of an operation answers is an argument.
\<close>

section \<open>The service the reactor calls\<close>

record 's io_ops =
  io_work_started :: "'s \<Rightarrow> 's"
  io_post_immediate :: "nat \<Rightarrow> 's \<Rightarrow> 's"
  io_post_deferred :: "nat list \<Rightarrow> 's \<Rightarrow> 's"
  io_abandon :: "nat list \<Rightarrow> 's \<Rightarrow> 's"

section \<open>State\<close>

abbreviation (input) EPOLLIN :: "32 word" where "EPOLLIN \<equiv> 1"
abbreviation (input) EPOLLPRI :: "32 word" where "EPOLLPRI \<equiv> 2"
abbreviation (input) EPOLLOUT :: "32 word" where "EPOLLOUT \<equiv> 4"
abbreviation (input) EPOLLERR :: "32 word" where "EPOLLERR \<equiv> 8"
abbreviation (input) EPOLLHUP :: "32 word" where "EPOLLHUP \<equiv> 16"
abbreviation (input) EPOLLET :: "32 word" where "EPOLLET \<equiv> 2147483648"

abbreviation (input) op_read :: nat where "op_read \<equiv> 0"
abbreviation (input) op_write :: nat where "op_write \<equiv> 1"
abbreviation (input) op_connect :: nat where "op_connect \<equiv> 2"
abbreviation (input) op_except :: nat where "op_except \<equiv> 3"
abbreviation (input) op_max :: nat where "op_max \<equiv> 4"

record oset =
  descriptor :: int
  register_events :: "32 word"
  que :: "nat \<Rightarrow> nat list"
  set_shutdown :: bool
  task_result :: "32 word"

definition new_oset :: oset where
  "new_oset = \<lparr>descriptor = 0, register_events = 0, que = (\<lambda>_. []), set_shutdown = False, task_result = 0\<rparr>"

text \<open>
  \<open>kern\<close> is the interest list (the pointer \<open>None\<close> is \<open>&interrupter_\<close>); \<open>kerr fd\<close> is the errno
  of \<open>epoll_ctl\<close> for a descriptor the kernel refuses, 0 for a usable one; \<open>ec_of\<close> is the
  field \<open>ec_\<close> of the operations.
\<close>

record 's epl =
  ep_shutdown :: bool
  kern :: "int \<Rightarrow> (32 word \<times> nat option) option"
  kerr :: "int \<Rightarrow> int"
  read_descriptor :: int
  objs :: pool
  sets :: "nat \<Rightarrow> oset"
  ec_of :: "nat \<Rightarrow> int"
  io :: 's

definition upd_set :: "nat \<Rightarrow> (oset \<Rightarrow> oset) \<Rightarrow> 's epl \<Rightarrow> 's epl" where
  "upd_set x f s = s\<lparr>sets := (sets s)(x := f (sets s x))\<rparr>"

definition upd_io :: "('s \<Rightarrow> 's) \<Rightarrow> 's epl \<Rightarrow> 's epl" where
  "upd_io f s = s\<lparr>io := f (io s)\<rparr>"

definition set_ec :: "nat \<Rightarrow> int \<Rightarrow> 's epl \<Rightarrow> 's epl" where
  "set_ec op e s = s\<lparr>ec_of := (ec_of s)(op := e)\<rparr>"

text \<open>\<open>epoll_ctl\<close> of the kernel: 0 or the errno.\<close>

datatype ctl = CtlAdd | CtlMod | CtlDel

definition epoll_ctl :: "ctl \<Rightarrow> int \<Rightarrow> 32 word \<Rightarrow> nat option \<Rightarrow> 's epl \<Rightarrow> int \<times> 's epl" where
  "epoll_ctl c fd ev p s =
     (if kerr s fd \<noteq> 0 then (kerr s fd, s)
      else case c of
          CtlAdd \<Rightarrow> if kern s fd \<noteq> None then (17, s) else (0, s\<lparr>kern := (kern s)(fd := Some (ev, p))\<rparr>)
        | CtlMod \<Rightarrow> if kern s fd = None then (2, s) else (0, s\<lparr>kern := (kern s)(fd := Some (ev, p))\<rparr>)
        | CtlDel \<Rightarrow> if kern s fd = None then (2, s) else (0, s\<lparr>kern := (kern s)(fd := None)\<rparr>))"

section \<open>The interrupter\<close>

text \<open>
  \<open>select_interrupter\<close>: its two descriptors; \<open>eventfd_r\<close> and \<open>pipe_r\<close> are what the system
  calls return. \<open>reset\<close> reads a script of results and errno values; \<open>None\<close> is a script that
  ends while it would still read.
\<close>

definition open_descriptor :: "int \<Rightarrow> (int \<times> int) option \<Rightarrow> int \<times> int" where
  "open_descriptor eventfd_r pipe_r =
     (if eventfd_r \<noteq> - 1 then (eventfd_r, eventfd_r)
      else case pipe_r of Some (r, w) \<Rightarrow> (r, w) | None \<Rightarrow> (- 1, - 1))"

definition close_descriptor :: "int \<times> int \<Rightarrow> int list" where
  "close_descriptor fds = (case fds of (r, w) \<Rightarrow>
     (if w \<noteq> - 1 \<and> w \<noteq> r then [w] else []) @ (if r \<noteq> - 1 then [r] else []))"

definition recreate :: "int \<Rightarrow> (int \<times> int) option \<Rightarrow> int \<times> int \<Rightarrow> (int \<times> int) \<times> int list" where
  "recreate eventfd_r pipe_r fds = (open_descriptor eventfd_r pipe_r, close_descriptor fds)"

fun reset_rest :: "(int \<times> int) list \<Rightarrow> int \<Rightarrow> bool option" where
  "reset_rest script bytes_read =
     (if bytes_read = 1024 then
        (case script of [] \<Rightarrow> None | (n, e) # rest \<Rightarrow> map_option (\<lambda>_. True) (reset_rest rest n))
      else Some True)"

fun interrupter_reset :: "(int \<times> int) list \<Rightarrow> int \<times> int \<Rightarrow> bool option" where
  "interrupter_reset [] fds = None"
| "interrupter_reset ((n, e) # rest) fds =
     (if n < 0 \<and> e = EINTR then interrupter_reset rest fds
      else if snd fds = fst fds then Some (n > 0)
      else map_option (\<lambda>_. n > 0) (reset_rest rest n))"

section \<open>Registration\<close>

text \<open>\<open>fresh\<close> is the address of a new \<open>op_set\<close>; a reused one keeps its fields.\<close>

definition allocate_op_set :: "nat \<Rightarrow> 's epl \<Rightarrow> nat \<times> 's epl" where
  "allocate_op_set fresh s =
     (let (x, p) = pool_alloc fresh (objs s);
          created = (free_list (objs s) = None)
      in (x, s\<lparr>objs := p, sets := if created then (sets s)(x := new_oset) else sets s\<rparr>))"

definition free_op_set :: "nat \<Rightarrow> 's epl \<Rightarrow> 's epl" where
  "free_op_set x s = s\<lparr>objs := pool_free x (objs s)\<rparr>"

definition register_descriptor :: "nat \<Rightarrow> int \<Rightarrow> 's epl \<Rightarrow> int \<times> nat \<times> 's epl" where
  "register_descriptor fresh fd s =
     (let (x, s1) = allocate_op_set fresh s;
          s2 = upd_set x (\<lambda>u. u\<lparr>descriptor := fd, set_shutdown := False\<rparr>) s1;
          ev = EPOLLIN OR EPOLLERR OR EPOLLHUP OR EPOLLPRI OR EPOLLET;
          s3 = upd_set x (\<lambda>u. u\<lparr>register_events := ev\<rparr>) s2;
          (result, s4) = epoll_ctl CtlAdd fd ev (Some x) s3
      in (result, x, s4))"

section \<open>Starting an operation\<close>

definition start_op ::
  "'s io_ops \<Rightarrow> (nat \<Rightarrow> bool) \<Rightarrow> nat \<Rightarrow> int \<Rightarrow> nat option \<Rightarrow> nat \<Rightarrow> bool \<Rightarrow> 's epl \<Rightarrow> 's epl" where
  "start_op io_s do_work op_type fd set_p op allow_speculative s =
     (case set_p of None \<Rightarrow> upd_io (io_post_immediate io_s op) (set_ec op EBADF s)
      | Some x \<Rightarrow>
        let st = sets s x;
            enqueue = (\<lambda>s. upd_io (io_work_started io_s)
                             (upd_set x (\<lambda>u. u\<lparr>que := (que u)(op_type := que u op_type @ [op])\<rparr>) s))
        in
        if set_shutdown st then upd_io (io_post_immediate io_s op) s
        else if que st op_type = [] then
          if allow_speculative \<and> (op_type \<noteq> op_read \<or> que st op_except = []) then
            if do_work op then upd_io (io_post_immediate io_s op) s
            else if op_type = op_write \<and> register_events st AND EPOLLOUT = 0 then
              (let ev = register_events st OR EPOLLOUT;
                   (result, s1) = epoll_ctl CtlMod fd ev (Some x) s
               in if result = 0
                  then enqueue (upd_set x (\<lambda>u. u\<lparr>register_events := register_events u OR ev\<rparr>) s1)
                  else upd_io (io_post_immediate io_s op) (set_ec op result s1))
            else enqueue s
          else
            (let s1 = (if op_type = op_write
                       then upd_set x (\<lambda>u. u\<lparr>register_events := register_events u OR EPOLLOUT\<rparr>) s else s);
                 (result, s2) = epoll_ctl CtlMod fd (register_events (sets s1 x)) (Some x) s1
             in enqueue s2)
        else enqueue s)"

section \<open>Cancelling\<close>

text \<open>The loop that empties one queue into \<open>ops\<close>, and the loop over the queues.\<close>

fun cancel_queue :: "nat list \<Rightarrow> (nat \<Rightarrow> int) \<Rightarrow> nat list \<times> (nat \<Rightarrow> int)" where
  "cancel_queue [] ec = ([], ec)"
| "cancel_queue (op # q) ec =
     (let (ops, ec') = cancel_queue q (ec(op := ECANCELED)) in (op # ops, ec'))"

fun cancel_queues :: "nat list \<Rightarrow> nat \<Rightarrow> 's epl \<Rightarrow> nat list \<times> 's epl" where
  "cancel_queues [] x s = ([], s)"
| "cancel_queues (i # is) x s =
     (let (ops, ec) = cancel_queue (que (sets s x) i) (ec_of s);
          s1 = upd_set x (\<lambda>u. u\<lparr>que := (que u)(i := [])\<rparr>) (s\<lparr>ec_of := ec\<rparr>);
          (ops', s2) = cancel_queues is x s1
      in (ops @ ops', s2))"

definition cancel_ops :: "'s io_ops \<Rightarrow> nat option \<Rightarrow> 's epl \<Rightarrow> 's epl" where
  "cancel_ops io_s set_p s =
     (case set_p of None \<Rightarrow> s
      | Some x \<Rightarrow> let (ops, s1) = cancel_queues [0..<op_max] x s
                  in upd_io (io_post_deferred io_s ops) s1)"

text \<open>The new value of the caller's pointer \<open>set\<close> is the first component.\<close>

definition deregister_descriptor ::
  "'s io_ops \<Rightarrow> int \<Rightarrow> nat option \<Rightarrow> bool \<Rightarrow> 's epl \<Rightarrow> nat option \<times> 's epl" where
  "deregister_descriptor io_s fd set_p closing s =
     (case set_p of None \<Rightarrow> (None, s)
      | Some x \<Rightarrow>
        if set_shutdown (sets s x) then (Some x, s)
        else
          let s1 = (if closing then s else snd (epoll_ctl CtlDel fd 0 None s));
              (ops, s2) = cancel_queues [0..<op_max] x s1;
              s3 = upd_set x (\<lambda>u. u\<lparr>descriptor := - 1, set_shutdown := True\<rparr>) s2;
              s4 = free_op_set x s3
          in (None, upd_io (io_post_deferred io_s ops) s4))"

section \<open>Shutting down\<close>

text \<open>
  The loop of \<open>shutdown_service\<close>: each live set's queues are merged into \<open>ops\<close>, then the set
  is freed. \<open>None\<close> would be a loop that does not end.
\<close>

fun merge_queues :: "(nat list \<Rightarrow> nat list \<Rightarrow> nat list) \<Rightarrow> nat list \<Rightarrow> nat \<Rightarrow> nat list \<Rightarrow> 's epl \<Rightarrow> nat list \<times> 's epl" where
  "merge_queues mrg [] x ops s = (ops, s)"
| "merge_queues mrg (i # is) x ops s =
     merge_queues mrg is x (mrg ops (que (sets s x) i)) (upd_set x (\<lambda>u. u\<lparr>que := (que u)(i := [])\<rparr>) s)"

partial_function (option) shutdown_loop ::
  "(nat list \<Rightarrow> nat list \<Rightarrow> nat list) \<Rightarrow> nat list \<Rightarrow> 's epl \<Rightarrow> (nat list \<times> 's epl) option" where
  "shutdown_loop mrg ops s =
     (case pool_first (objs s) of None \<Rightarrow> Some (ops, s)
      | Some x \<Rightarrow>
          let r = merge_queues mrg [0..<op_max] x ops s;
              s2 = upd_set x (\<lambda>u. u\<lparr>set_shutdown := True\<rparr>) (snd r)
          in shutdown_loop mrg (fst r) (free_op_set x s2))"

definition ep_shutdown_service ::
  "'s io_ops \<Rightarrow> (nat list \<Rightarrow> nat list \<Rightarrow> nat list) \<Rightarrow> 's epl \<Rightarrow> 's epl option" where
  "ep_shutdown_service io_s mrg s =
     map_option (\<lambda>(ops, s1). upd_io (io_abandon io_s ops) s1)
       (shutdown_loop mrg [] (s\<lparr>ep_shutdown := True\<rparr>))"

section \<open>Events\<close>

definition flag :: "nat \<Rightarrow> 32 word" where
  "flag j = [EPOLLIN, EPOLLOUT, EPOLLPRI, 0] ! j"

fun work_queue :: "(nat \<Rightarrow> bool) \<Rightarrow> nat list \<Rightarrow> nat list \<times> nat list" where
  "work_queue do_work [] = ([], [])"
| "work_queue do_work (op # q) =
     (if do_work op then (let (d, r) = work_queue do_work q in (op # d, r)) else ([], op # q))"

fun perform_queues :: "(nat \<Rightarrow> bool) \<Rightarrow> nat list \<Rightarrow> 32 word \<Rightarrow> nat \<Rightarrow> 's epl \<Rightarrow> nat list \<times> 's epl" where
  "perform_queues do_work [] events x s = ([], s)"
| "perform_queues do_work (j # js) events x s =
     (if events AND (flag j OR EPOLLERR OR EPOLLHUP) \<noteq> 0 then
        (let (d, r) = work_queue do_work (que (sets s x) j);
             s1 = upd_set x (\<lambda>u. u\<lparr>que := (que u)(j := r)\<rparr>) s;
             (ds, s2) = perform_queues do_work js events x s1
         in (d @ ds, s2))
      else perform_queues do_work js events x s)"

text \<open>
  \<open>perform_io\<close> with the destructor of its guard: the first finished operation is returned, the
  others are posted; with none, the work the set's own completion will take off is put back.
\<close>

definition perform_io :: "'s io_ops \<Rightarrow> (nat \<Rightarrow> bool) \<Rightarrow> 32 word \<Rightarrow> nat \<Rightarrow> 's epl \<Rightarrow> nat option \<times> 's epl" where
  "perform_io io_s do_work events x s =
     (case perform_queues do_work (rev [0..<op_max]) events x s of (ops, s1) \<Rightarrow>
        (case ops of
           [] \<Rightarrow> (None, upd_io (io_work_started io_s) s1)
         | first # rest \<Rightarrow> (Some first,
             if rest \<noteq> [] then upd_io (io_post_deferred io_s rest) s1 else s1)))"

text \<open>\<open>op_set::do_complete\<close>: the operation whose \<open>do_complete\<close> it calls, if any.\<close>

definition set_do_complete ::
  "'s io_ops \<Rightarrow> (nat \<Rightarrow> bool) \<Rightarrow> 32 word \<Rightarrow> nat \<Rightarrow> 's epl \<Rightarrow> nat option \<times> 's epl" where
  "set_do_complete io_s do_work bytes_transferred x s = perform_io io_s do_work bytes_transferred x s"

text \<open>\<open>run\<close>: what \<open>epoll_wait\<close> reports, and the sets appended to the thread's queue.\<close>

fun ep_run :: "(nat option \<times> 32 word) list \<Rightarrow> 's epl \<Rightarrow> nat list \<times> 's epl" where
  "ep_run [] s = ([], s)"
| "ep_run ((p, events) # evs) s =
     (case p of None \<Rightarrow> ep_run evs s
      | Some x \<Rightarrow> let (ops, s1) = ep_run evs (upd_set x (\<lambda>u. u\<lparr>task_result := events\<rparr>) s) in (x # ops, s1))"

definition ep_interrupt :: "'s epl \<Rightarrow> 's epl" where
  "ep_interrupt s = snd (epoll_ctl CtlMod (read_descriptor s) (EPOLLIN OR EPOLLERR OR EPOLLET) None s)"

end
