(* ===== verification/Epoll_Props.thy ===== *)
theory Epoll_Props
  imports Epoll Task_Io_Run
begin

text \<open>
  What the reactor does with operations: the contract of the service it calls as a locale, the
  conservation laws proved inside it, and its interpretation on \<open>task_io_service\<close>. The ledger
  of a state is the multiset of the operations pending in its sets and held by the service.
\<close>

section \<open>The contract of the service\<close>

text \<open>
  \<open>held\<close> are the operations the service will run, \<open>balance\<close> the work it counts, both for the
  calling thread.
\<close>

locale io_service =
  fixes io_s :: "'s io_ops" and held :: "'s \<Rightarrow> nat multiset" and balance :: "'s \<Rightarrow> int"
  assumes held_started: "held (io_work_started io_s s) = held s"
    and balance_started: "balance (io_work_started io_s s) = balance s + 1"
    and held_immediate: "held (io_post_immediate io_s op s) = add_mset op (held s)"
    and balance_immediate: "balance (io_post_immediate io_s op s) = balance s + 1"
    and held_deferred: "held (io_post_deferred io_s xs s) = held s + mset xs"
    and balance_deferred: "balance (io_post_deferred io_s xs s) = balance s"

text \<open>The contract of a service that also destroys operations: \<open>gone\<close> are those destroyed.\<close>

locale io_service_abandon = io_service +
  fixes gone :: "'a \<Rightarrow> nat multiset"
  assumes held_abandon: "held (io_abandon io_s xs s) = held s"
    and gone_abandon: "gone (io_abandon io_s xs s) = gone s + mset xs"

section \<open>The ledger\<close>

definition set_ops :: "oset \<Rightarrow> nat list" where
  "set_ops st = que st 0 @ que st 1 @ que st 2 @ que st 3"

definition pend :: "nat list \<Rightarrow> 's epl \<Rightarrow> nat multiset" where
  "pend ls s = (\<Sum>x \<in># mset ls. mset (set_ops (sets s x)))"

definition ep_inv :: "nat list \<Rightarrow> nat list \<Rightarrow> 's epl \<Rightarrow> bool" where
  "ep_inv ls fs s \<longleftrightarrow> pool_inv (objs s) ls fs
     \<and> (\<forall>x \<in> set fs. set_ops (sets s x) = []) \<and> (\<forall>x \<in> set ls. \<not> set_shutdown (sets s x))"

lemma upd_simps [simp]:
  "sets (upd_set x f s) = (sets s)(x := f (sets s x))" "objs (upd_set x f s) = objs s"
  "io (upd_set x f s) = io s" "kern (upd_set x f s) = kern s" "kerr (upd_set x f s) = kerr s"
  "ec_of (upd_set x f s) = ec_of s" "read_descriptor (upd_set x f s) = read_descriptor s"
  "sets (upd_io g s) = sets s" "objs (upd_io g s) = objs s" "io (upd_io g s) = g (io s)"
  "kern (upd_io g s) = kern s" "ec_of (upd_io g s) = ec_of s" "kerr (upd_io g s) = kerr s"
  "read_descriptor (upd_io g s) = read_descriptor s"
  "sets (set_ec op e s) = sets s" "objs (set_ec op e s) = objs s" "io (set_ec op e s) = io s"
  "kern (set_ec op e s) = kern s" "ec_of (set_ec op e s) = (ec_of s)(op := e)"
  "read_descriptor (set_ec op e s) = read_descriptor s"
  by (simp_all add: upd_set_def upd_io_def set_ec_def)

lemma epoll_ctl_simps [simp]:
  "sets (snd (epoll_ctl c fd ev p s)) = sets s" "objs (snd (epoll_ctl c fd ev p s)) = objs s"
  "io (snd (epoll_ctl c fd ev p s)) = io s" "ec_of (snd (epoll_ctl c fd ev p s)) = ec_of s"
  "read_descriptor (snd (epoll_ctl c fd ev p s)) = read_descriptor s"
  "kerr (snd (epoll_ctl c fd ev p s)) = kerr s"
  by (auto simp: epoll_ctl_def split: ctl.splits)

lemma pend_cong: "(\<And>x. x \<in> set ls \<Longrightarrow> set_ops (sets s' x) = set_ops (sets s x)) \<Longrightarrow> pend ls s' = pend ls s"
  by (auto simp: pend_def intro!: arg_cong [where f = sum_mset] image_mset_cong)

lemma pend_Cons [simp]: "pend (x # ls) s = mset (set_ops (sets s x)) + pend ls s"
  by (simp add: pend_def)

lemma pend_Nil [simp]: "pend [] s = {#}"
  by (simp add: pend_def)

lemma pend_remove1: "x \<in> set ls \<Longrightarrow> pend ls s = mset (set_ops (sets s x)) + pend (remove1 x ls) s"
  by (induction ls) (auto simp: ac_simps)

lemma pend_upd:
  assumes "distinct ls" and "x \<in> set ls" and "\<And>y. y \<noteq> x \<Longrightarrow> sets s' y = sets s y"
  shows "pend ls s' + mset (set_ops (sets s x)) = pend ls s + mset (set_ops (sets s' x))"
proof -
  have "pend (remove1 x ls) s' = pend (remove1 x ls) s"
    using assms by (intro pend_cong) auto
  then show ?thesis using pend_remove1 [OF assms(2), of s] pend_remove1 [OF assms(2), of s'] by simp
qed

lemma ep_invD:
  assumes "ep_inv ls fs s"
  shows "pool_inv (objs s) ls fs" "distinct (ls @ fs)"
    "x \<in> set fs \<Longrightarrow> set_ops (sets s x) = []" "x \<in> set ls \<Longrightarrow> \<not> set_shutdown (sets s x)"
  using assms dpool.rep_distinct by (auto simp: ep_inv_def)

section \<open>The loops\<close>

lemma cancel_queue_spec:
  "cancel_queue q ec = (q, \<lambda>op. if op \<in> set q then ECANCELED else ec op)"
  by (induction q arbitrary: ec) (simp_all, auto)

lemma cancel_queues_spec:
  assumes "cancel_queues [0..<op_max] x s = (ops, s')"
  shows "ops = set_ops (sets s x)"
    and "s' = s\<lparr>sets := (sets s)(x := (sets s x)\<lparr>que := (que (sets s x))(0 := [], 1 := [], 2 := [], 3 := [])\<rparr>),
                ec_of := (\<lambda>op. if op \<in> set (set_ops (sets s x)) then ECANCELED else ec_of s op)\<rparr>"
proof -
  have n: "[0..<op_max] = [0, 1, 2, 3]" by (simp add: upt_rec)
  show "ops = set_ops (sets s x)"
    using assms by (auto simp: n cancel_queue_spec set_ops_def Let_def)
  show "s' = s\<lparr>sets := (sets s)(x := (sets s x)\<lparr>que := (que (sets s x))(0 := [], 1 := [], 2 := [], 3 := [])\<rparr>),
                ec_of := (\<lambda>op. if op \<in> set (set_ops (sets s x)) then ECANCELED else ec_of s op)\<rparr>"
    using assms by (auto simp: n cancel_queue_spec set_ops_def upd_set_def Let_def fun_eq_iff)
qed

lemma work_queue_spec: "work_queue w q = (takeWhile w q, dropWhile w q)"
  by (induction q) auto

text \<open>What \<open>perform_io\<close> takes from each queue, and what it leaves.\<close>

definition ready :: "32 word \<Rightarrow> nat \<Rightarrow> bool" where
  "ready events j \<longleftrightarrow> events AND (flag j OR EPOLLERR OR EPOLLHUP) \<noteq> 0"

definition done_of :: "(nat \<Rightarrow> bool) \<Rightarrow> 32 word \<Rightarrow> nat \<Rightarrow> nat list \<Rightarrow> nat list" where
  "done_of w events j q = (if ready events j then takeWhile w q else [])"

definition left_of :: "(nat \<Rightarrow> bool) \<Rightarrow> 32 word \<Rightarrow> nat \<Rightarrow> nat list \<Rightarrow> nat list" where
  "left_of w events j q = (if ready events j then dropWhile w q else q)"

lemma done_left: "done_of w events j q @ left_of w events j q = q"
  by (simp add: done_of_def left_of_def)

lemma set_done_of: "op \<in> set (done_of w events j q) \<Longrightarrow> w op"
  by (auto simp: done_of_def dest: set_takeWhileD split: if_splits)

lemma perform_queues_step:
  "perform_queues w (j # js) events x s =
     (let (ds, s2) = perform_queues w js events x
            (upd_set x (\<lambda>u. u\<lparr>que := (que u)(j := left_of w events j (que u j))\<rparr>) s)
      in (done_of w events j (que (sets s x) j) @ ds, s2))"
proof -
  have "upd_set x (\<lambda>u. u\<lparr>que := (que u)(j := que u j)\<rparr>) s = s"
    by (simp add: upd_set_def)
  then show ?thesis
    by (simp add: work_queue_spec done_of_def left_of_def ready_def upd_set_def)
qed

lemma perform_queues_spec:
  assumes "perform_queues w (rev [0..<op_max]) events x s = (ops, s')"
  shows "ops = done_of w events 3 (que (sets s x) 3) @ done_of w events 2 (que (sets s x) 2)
           @ done_of w events 1 (que (sets s x) 1) @ done_of w events 0 (que (sets s x) 0)"
    and "s' = upd_set x (\<lambda>u. u\<lparr>que := (que u)(3 := left_of w events 3 (que u 3), 2 := left_of w events 2 (que u 2),
           1 := left_of w events 1 (que u 1), 0 := left_of w events 0 (que u 0))\<rparr>) s"
proof -
  have n: "rev [0..<op_max] = [3, 2, 1, 0]" by (simp add: upt_rec)
  show "ops = done_of w events 3 (que (sets s x) 3) @ done_of w events 2 (que (sets s x) 2)
           @ done_of w events 1 (que (sets s x) 1) @ done_of w events 0 (que (sets s x) 0)"
    using assms by (simp add: n perform_queues_step del: perform_queues.simps(2))
  show "s' = upd_set x (\<lambda>u. u\<lparr>que := (que u)(3 := left_of w events 3 (que u 3), 2 := left_of w events 2 (que u 2),
           1 := left_of w events 1 (que u 1), 0 := left_of w events 0 (que u 0))\<rparr>) s"
    using assms
    by (auto simp: n perform_queues_step upd_set_def Let_def simp del: perform_queues.simps(2))
qed

section \<open>Conservation\<close>

lemma mset_set_ops:
  "mset (set_ops st) = mset (que st 0) + mset (que st 1) + mset (que st 2) + mset (que st 3)"
  by (simp add: set_ops_def ac_simps)

lemma que_append_ops:
  "t < op_max \<Longrightarrow> mset (set_ops (st\<lparr>que := (que st)(t := que st t @ [op])\<rparr>)) = add_mset op (mset (set_ops st))"
  by (auto simp: mset_set_ops less_Suc_eq numeral_eq_Suc)

lemma enqueue_pend:
  assumes "distinct ls" and "x \<in> set ls" and "t < op_max" and "que (sets s x) = que (sets s0 x)"
    and "\<And>y. y \<noteq> x \<Longrightarrow> sets s y = sets s0 y"
  shows "pend ls (upd_set x (\<lambda>u. u\<lparr>que := (que u)(t := que u t @ [op])\<rparr>) s) = add_mset op (pend ls s0)"
proof -
  let ?s' = "upd_set x (\<lambda>u. u\<lparr>que := (que u)(t := que u t @ [op])\<rparr>) s"
  have "pend ls ?s' + mset (set_ops (sets s0 x)) = pend ls s0 + mset (set_ops (sets ?s' x))"
    using assms by (intro pend_upd) simp_all
  moreover have "set_ops (sets s x) = set_ops (sets s0 x)" using assms(4) by (simp add: set_ops_def)
  ultimately show ?thesis using que_append_ops [OF assms(3), of "sets s x" op] by simp
qed

text \<open>
  The outcomes of \<open>start_op\<close>: posted at once, or queued at the end of its queue; the other
  fields of the sets do not matter for the ledger.
\<close>

definition posted :: "'s io_ops \<Rightarrow> nat \<Rightarrow> 's epl \<Rightarrow> 's epl \<Rightarrow> bool" where
  "posted io_s op s s' \<longleftrightarrow> io s' = io_post_immediate io_s op (io s) \<and> sets s' = sets s \<and> objs s' = objs s"

definition enqueued :: "'s io_ops \<Rightarrow> nat \<Rightarrow> nat \<Rightarrow> nat \<Rightarrow> 's epl \<Rightarrow> 's epl \<Rightarrow> bool" where
  "enqueued io_s t x op s s' \<longleftrightarrow> io s' = io_work_started io_s (io s) \<and> objs s' = objs s
     \<and> (\<forall>y. y \<noteq> x \<longrightarrow> sets s' y = sets s y)
     \<and> que (sets s' x) = (que (sets s x))(t := que (sets s x) t @ [op])
     \<and> set_shutdown (sets s' x) = set_shutdown (sets s x)"

lemma start_op_cases:
  assumes "s' = start_op io_s w t fd (Some x) op al s"
  shows "posted io_s op s s' \<or> (\<not> set_shutdown (sets s x) \<and> enqueued io_s t x op s s'
     \<and> \<not> (que (sets s x) t = [] \<and> al \<and> (t \<noteq> op_read \<or> que (sets s x) op_except = []) \<and> w op))"
  using assms
  by (auto simp: start_op_def posted_def enqueued_def Let_def split_beta split: if_splits)

lemma start_op_none:
  "start_op io_s w t fd None op al s = upd_io (io_post_immediate io_s op) (set_ec op EBADF s)"
  by (simp add: start_op_def)

lemma enqueued_pend:
  assumes "enqueued io_s t x op s s'" and "distinct ls" and "x \<in> set ls" and "t < op_max"
  shows "pend ls s' = add_mset op (pend ls s)"
proof -
  have "pend ls s' + mset (set_ops (sets s x)) = pend ls s + mset (set_ops (sets s' x))"
    using assms by (intro pend_upd) (simp_all add: enqueued_def)
  moreover have "mset (set_ops (sets s' x)) = add_mset op (mset (set_ops (sets s x)))"
    using que_append_ops [OF assms(4), of "sets s x" op] assms(1)
    by (simp add: enqueued_def set_ops_def)
  ultimately show ?thesis by simp
qed

context io_service
begin

lemma start_op_ledger:
  assumes "ep_inv ls fs s" and "set_p = None \<or> (\<exists>x. set_p = Some x \<and> x \<in> set ls)" and "t < op_max"
    and "s' = start_op io_s w t fd set_p op al s"
  shows "ep_inv ls fs s' \<and> pend ls s' + held (io s') = add_mset op (pend ls s + held (io s))
     \<and> balance (io s') = balance (io s) + 1"
proof (cases set_p)
  case None
  then show ?thesis
    using assms by (simp add: start_op_none held_immediate balance_immediate ep_inv_def pend_def)
next
  case (Some x)
  then have x: "x \<in> set ls" using assms(2) by simp
  note inv = ep_invD [OF assms(1)]
  from start_op_cases [of s' io_s w t fd x op al s] assms(4) Some
  consider "posted io_s op s s'" | "enqueued io_s t x op s s'" by blast
  then show ?thesis
  proof cases
    case 1
    then show ?thesis
      using assms(1) by (simp add: posted_def held_immediate balance_immediate ep_inv_def pend_def)
  next
    case 2
    have "x \<notin> set fs" using inv(2) x by auto
    then have "ep_inv ls fs s'" using 2 assms(1) by (auto simp: ep_inv_def enqueued_def)
    then show ?thesis
      using 2 enqueued_pend [OF 2 _ x assms(3)] inv(2)
      by (simp add: enqueued_def held_started balance_started)
  qed
qed

lemma cancel_ops_ledger:
  assumes "ep_inv ls fs s" and "x \<in> set ls"
  shows "ep_inv ls fs (cancel_ops io_s (Some x) s)"
    and "pend ls (cancel_ops io_s (Some x) s) + mset (set_ops (sets s x)) = pend ls s"
    and "held (io (cancel_ops io_s (Some x) s)) = held (io s) + mset (set_ops (sets s x))"
    and "balance (io (cancel_ops io_s (Some x) s)) = balance (io s)"
    and "\<forall>op \<in> set (set_ops (sets s x)). ec_of (cancel_ops io_s (Some x) s) op = ECANCELED"
proof -
  obtain ops s1 where c: "cancel_queues [0..<op_max] x s = (ops, s1)"
    by (cases "cancel_queues [0..<op_max] x s")
  note sp = cancel_queues_spec [OF c] and inv = ep_invD [OF assms(1)]
  have r: "cancel_ops io_s (Some x) s = upd_io (io_post_deferred io_s ops) s1"
    using c by (simp add: cancel_ops_def)
  have nf: "x \<notin> set fs" using inv(2) assms(2) by auto
  show "ep_inv ls fs (cancel_ops io_s (Some x) s)"
    using assms nf unfolding r sp(2) by (auto simp: ep_inv_def)
  have "pend ls (cancel_ops io_s (Some x) s) + mset (set_ops (sets s x))
      = pend ls s + mset (set_ops (sets (cancel_ops io_s (Some x) s) x))"
    using assms inv unfolding r sp(2) by (intro pend_upd) simp_all
  then show "pend ls (cancel_ops io_s (Some x) s) + mset (set_ops (sets s x)) = pend ls s"
    unfolding r sp(2) by (simp add: set_ops_def)
  show "held (io (cancel_ops io_s (Some x) s)) = held (io s) + mset (set_ops (sets s x))"
    "balance (io (cancel_ops io_s (Some x) s)) = balance (io s)"
    "\<forall>op \<in> set (set_ops (sets s x)). ec_of (cancel_ops io_s (Some x) s) op = ECANCELED"
    unfolding r sp by (simp_all add: held_deferred balance_deferred)
qed

lemma perform_io_ledger:
  assumes "ep_inv ls fs s" and "x \<in> set ls" and "perform_io io_s w events x s = (first, s')"
  shows "ep_inv ls fs s'"
    and "pend ls s' + held (io s') + (case first of None \<Rightarrow> {#} | Some op \<Rightarrow> {#op#}) = pend ls s + held (io s)"
    and "balance (io s') = balance (io s) + (if first = None then 1 else 0)"
    and "first \<noteq> None \<Longrightarrow> w (the first)"
proof -
  obtain ops s1 where c: "perform_queues w (rev [0..<op_max]) events x s = (ops, s1)"
    by (cases "perform_queues w (rev [0..<op_max]) events x s")
  note sp = perform_queues_spec [OF c] and inv = ep_invD [OF assms(1)]
  have nf: "x \<notin> set fs" using inv(2) assms(2) by auto
  have e1: "ep_inv ls fs s1" using assms(1,2) nf unfolding sp by (auto simp: ep_inv_def)
  have "pend ls s1 + mset (set_ops (sets s x)) = pend ls s + mset (set_ops (sets s1 x))"
    using assms inv unfolding sp by (intro pend_upd) simp_all
  moreover have "mset (set_ops (sets s x)) = mset ops + mset (set_ops (sets s1 x))"
  proof -
    have "mset (que (sets s x) j) = mset (done_of w events j (que (sets s x) j)) + mset (left_of w events j (que (sets s x) j))" for j
      by (metis done_left mset_append)
    then show ?thesis unfolding sp mset_set_ops by (simp add: ac_simps)
  qed
  ultimately have pe: "pend ls s1 + mset ops = pend ls s"
    by (metis add.assoc add_right_cancel)
  have io1: "io s1 = io s" unfolding sp by simp
  have ws: "w op" if "op \<in> set ops" for op
    using that set_done_of [of _ w events] unfolding sp(1) by auto
  have pu: "pend ls (upd_io g s1) = pend ls s1" "ep_inv ls fs (upd_io g s1)" for g
    using e1 by (simp_all add: pend_def ep_inv_def)
  show "ep_inv ls fs s'" "pend ls s' + held (io s') + (case first of None \<Rightarrow> {#} | Some op \<Rightarrow> {#op#}) = pend ls s + held (io s)"
    "balance (io s') = balance (io s) + (if first = None then 1 else 0)" "first \<noteq> None \<Longrightarrow> w (the first)"
    using assms(3) c e1 pe io1 pu ws
    by (auto simp: perform_io_def held_started balance_started held_deferred balance_deferred
        ac_simps split: list.splits if_splits)
qed

end

section \<open>The service as provider\<close>

text \<open>
  For the calling thread, the service holds its queue and, when the thread's private queue is
  used, that queue too; likewise for the work counted.
\<close>

definition tio_private :: "cstack \<Rightarrow> tio \<Rightarrow> nat option" where
  "tio_private cs s = (if one_thread s then contains (self s) cs else None)"

definition tio_held :: "cstack \<Rightarrow> tio \<Rightarrow> nat multiset" where
  "tio_held cs s = mset (op_que s) +
     (case tio_private cs s of None \<Rightarrow> {#} | Some ti \<Rightarrow> mset (private_op_que (infos s ti)))"

definition tio_balance :: "cstack \<Rightarrow> tio \<Rightarrow> int" where
  "tio_balance cs s = outstanding_work s +
     (case tio_private cs s of None \<Rightarrow> 0 | Some ti \<Rightarrow> private_outstanding_work (infos s ti))"

definition tio_ops :: "cstack \<Rightarrow> tio io_ops" where
  "tio_ops cs = \<lparr>io_work_started = work_started, io_post_immediate = post_immediate_completion cs,
     io_post_deferred = post_deferred_completions cs, io_abandon = abandon_operations\<rparr>"

lemma tio_private_cong:
  "one_thread s' = one_thread s \<Longrightarrow> self s' = self s \<Longrightarrow> tio_private cs s' = tio_private cs s"
  by (simp add: tio_private_def)

lemma destroy_back_simps [simp]:
  "op_que (destroy_back ops s) = op_que s" "infos (destroy_back ops s) = infos s"
  "one_thread (destroy_back ops s) = one_thread s" "self (destroy_back ops s) = self s"
  "outstanding_work (destroy_back ops s) = outstanding_work s"
  by (induction ops s rule: destroy_back.induct) simp_all

lemma started_private [simp]:
  "tio_private cs (work_started s) = tio_private cs s" "infos (work_started s) = infos s"
  "op_que (work_started s) = op_que s" "outstanding_work (work_started s) = outstanding_work s + 1"
  by (simp_all add: work_started_def tio_private_def)

lemma started_held: "tio_held cs (work_started s) = tio_held cs s"
  by (simp add: tio_held_def split: option.split)

lemma started_balance: "tio_balance cs (work_started s) = tio_balance cs s + 1"
  by (simp add: tio_balance_def split: option.split)

lemma held_shared:
  assumes "tio_private cs s = None" and "one_thread s' = one_thread s" and "self s' = self s"
  shows "tio_held cs s' = mset (op_que s')" and "tio_balance cs s' = outstanding_work s'"
  using assms tio_private_cong [of s' s cs] by (simp_all add: tio_held_def tio_balance_def)

lemma held_private:
  assumes "tio_private cs s = Some ti"
  shows "tio_held cs (upd_info ti f s) = mset (op_que s) + mset (private_op_que (f (infos s ti)))"
    and "tio_balance cs (upd_info ti f s) = outstanding_work s + private_outstanding_work (f (infos s ti))"
proof -
  have "tio_private cs (upd_info ti f s) = Some ti"
    using assms tio_private_cong [of "upd_info ti f s" s cs] by simp
  then show "tio_held cs (upd_info ti f s) = mset (op_que s) + mset (private_op_que (f (infos s ti)))"
    "tio_balance cs (upd_info ti f s) = outstanding_work s + private_outstanding_work (f (infos s ti))"
    by (simp_all add: tio_held_def tio_balance_def)
qed

lemma immediate_shared:
  "tio_private cs s = None \<Longrightarrow> post_immediate_completion cs op s
     = wake_one_thread ((work_started s)\<lparr>op_que := op_que s @ [op]\<rparr>)"
  by (simp add: post_immediate_completion_def tio_private_def Let_def)

lemma immediate_private:
  "tio_private cs s = Some ti \<Longrightarrow> post_immediate_completion cs op s
     = upd_info ti (\<lambda>i. i\<lparr>private_outstanding_work := private_outstanding_work i + 1,
                           private_op_que := private_op_que i @ [op]\<rparr>) s"
  by (simp add: post_immediate_completion_def tio_private_def)

lemma deferred_shared:
  "tio_private cs s = None \<Longrightarrow> ops \<noteq> [] \<Longrightarrow> post_deferred_completions cs ops s
     = wake_one_thread (s\<lparr>op_que := list_merge (op_que s) ops\<rparr>)"
  by (simp add: post_deferred_completions_def tio_private_def)

lemma deferred_private:
  "tio_private cs s = Some ti \<Longrightarrow> ops \<noteq> [] \<Longrightarrow> post_deferred_completions cs ops s
     = upd_info ti (\<lambda>i. i\<lparr>private_op_que := list_merge (private_op_que i) ops\<rparr>) s"
  by (simp add: post_deferred_completions_def tio_private_def)

lemma immediate_law:
  "tio_held cs (post_immediate_completion cs op s) = add_mset op (tio_held cs s)
   \<and> tio_balance cs (post_immediate_completion cs op s) = tio_balance cs s + 1"
proof (cases "tio_private cs s")
  case None
  then have "one_thread (post_immediate_completion cs op s) = one_thread s"
    "self (post_immediate_completion cs op s) = self s"
    by (simp_all add: immediate_shared work_started_def)
  from held_shared [OF None this] held_shared [OF None refl refl] show ?thesis
    using None by (simp add: immediate_shared work_started_def)
next
  case (Some ti)
  then show ?thesis by (simp add: immediate_private held_private) (simp add: tio_held_def tio_balance_def)
qed

lemma deferred_law:
  "tio_held cs (post_deferred_completions cs ops s) = tio_held cs s + mset ops
   \<and> tio_balance cs (post_deferred_completions cs ops s) = tio_balance cs s"
proof (cases "ops = []")
  case True
  then show ?thesis by (simp add: post_deferred_completions_def)
next
  case ne: False
  show ?thesis
  proof (cases "tio_private cs s")
    case None
    with ne have "one_thread (post_deferred_completions cs ops s) = one_thread s"
      "self (post_deferred_completions cs ops s) = self s"
      by (simp_all add: deferred_shared)
    from held_shared [OF None this] held_shared [OF None refl refl] show ?thesis
      using None ne by (simp add: deferred_shared)
  next
    case (Some ti)
    with ne show ?thesis by (simp add: deferred_private held_private) (simp add: tio_held_def tio_balance_def)
  qed
qed

lemma abandon_law:
  "tio_held cs (abandon_operations ops s) = tio_held cs s
   \<and> mset (destroyed (abandon_operations ops s)) = mset (destroyed s) + mset ops"
proof -
  have "tio_private cs (abandon_operations ops s) = tio_private cs s"
    by (rule tio_private_cong) (simp_all add: abandon_operations_def)
  then show ?thesis
    by (simp add: tio_held_def abandon_operations_def destroy_back_destroyed split: option.split)
qed

interpretation tio: io_service_abandon "tio_ops cs" "tio_held cs" "tio_balance cs" "\<lambda>s. mset (destroyed s)"
  for cs
  by unfold_locales
    (simp_all add: tio_ops_def immediate_law deferred_law abandon_law started_held started_balance)

section \<open>Sets come and go\<close>

lemma free_op_set_simps [simp]:
  "sets (free_op_set x s) = sets s" "io (free_op_set x s) = io s" "ec_of (free_op_set x s) = ec_of s"
  "kern (free_op_set x s) = kern s" "objs (free_op_set x s) = pool_free x (objs s)"
  by (simp_all add: free_op_set_def)

lemma register_ledger:
  assumes "ep_inv ls fs s" and "fresh \<notin> set ls \<union> set fs"
    and "register_descriptor fresh fd s = (result, x, s')"
  shows "x \<notin> set ls" and "ep_inv (x # ls) (tl fs) s'" and "pend (x # ls) s' = pend ls s" and "io s' = io s"
    and "result = 0 \<Longrightarrow> kern s' fd = Some (EPOLLIN OR EPOLLERR OR EPOLLHUP OR EPOLLPRI OR EPOLLET, Some x)"
proof -
  note inv = ep_invD [OF assms(1)]
  obtain p where al: "pool_alloc fresh (objs s) = (x, p)"
    using assms(3) by (auto simp: register_descriptor_def allocate_op_set_def Let_def split: prod.splits)
  note a = dpool.alloc_not_live [OF inv(1) assms(2) al]
  have fl: "free_list (objs s) = None \<longleftrightarrow> fs = []"
    using inv(1) by (cases fs) (auto simp: pool_inv_def)
  have xf: "fs \<noteq> [] \<Longrightarrow> x = hd fs" "fs = [] \<Longrightarrow> x = fresh"
    using dpool.alloc_rep [OF inv(1) assms(2)] al by (cases fs; simp)+
  let ?ev = "EPOLLIN OR EPOLLERR OR EPOLLHUP OR EPOLLPRI OR EPOLLET"
  obtain s3 where s3: "s3 = upd_set x (\<lambda>u. u\<lparr>register_events := ?ev\<rparr>)
      (upd_set x (\<lambda>u. u\<lparr>descriptor := fd, set_shutdown := False\<rparr>)
        (s\<lparr>objs := p, sets := if fs = [] then (sets s)(x := new_oset) else sets s\<rparr>))" by blast
  have r: "epoll_ctl CtlAdd fd ?ev (Some x) s3 = (result, s')"
    using assms(3) al fl by (auto simp: s3 register_descriptor_def allocate_op_set_def Let_def split: prod.splits)
  then have s': "sets s' = sets s3" "objs s' = p" "io s' = io s"
    using epoll_ctl_simps [of CtlAdd fd ?ev "Some x" s3] by (simp_all add: s3)
  have q0: "set_ops (sets s' x) = []"
    using inv(3) [of x] xf by (cases "fs = []") (auto simp: s' s3 set_ops_def new_oset_def)
  show "x \<notin> set ls" by (fact a)
  have oth: "set_ops (sets s' y) = set_ops (sets s y)" if "y \<noteq> x" for y
    using that by (simp add: s' s3)
  have "x \<notin> set (tl fs)" using xf inv(2) assms(2) by (cases fs) auto
  then show "ep_inv (x # ls) (tl fs) s'"
    using a inv assms(1) oth
    by (auto simp: ep_inv_def s' s3 set_ops_def dest: list.set_sel(2) [rotated])
  have "pend ls s' = pend ls s"
  proof (rule pend_cong)
    show "set_ops (sets s' y) = set_ops (sets s y)" if "y \<in> set ls" for y
      using that a(1) by (intro oth) auto
  qed
  then show "pend (x # ls) s' = pend ls s" by (simp add: q0)
  show "io s' = io s" by (fact s')
  show "result = 0 \<Longrightarrow> kern s' fd = Some (?ev, Some x)"
    using r by (auto simp: epoll_ctl_def split: if_splits)
qed

lemma merge_queues_spec:
  assumes "\<And>xs ys. mset (mrg xs ys) = mset xs + mset ys"
  shows "mset (fst (merge_queues mrg [0..<op_max] x ops s)) = mset ops + mset (set_ops (sets s x))"
    and "snd (merge_queues mrg [0..<op_max] x ops s)
       = s\<lparr>sets := (sets s)(x := (sets s x)\<lparr>que := (que (sets s x))(0 := [], 1 := [], 2 := [], 3 := [])\<rparr>)\<rparr>"
proof -
  have n: "[0..<op_max] = [0, 1, 2, 3]" by (simp add: upt_rec)
  show "mset (fst (merge_queues mrg [0..<op_max] x ops s)) = mset ops + mset (set_ops (sets s x))"
    by (simp add: n assms mset_set_ops ac_simps)
  show "snd (merge_queues mrg [0..<op_max] x ops s)
       = s\<lparr>sets := (sets s)(x := (sets s x)\<lparr>que := (que (sets s x))(0 := [], 1 := [], 2 := [], 3 := [])\<rparr>)\<rparr>"
    by (simp add: n upd_set_def)
qed

lemma shutdown_loop_spec:
  assumes "\<And>xs ys. mset (mrg xs ys) = mset xs + mset ys" and "ep_inv ls fs s"
  shows "\<exists>ops' s'. shutdown_loop mrg ops s = Some (ops', s') \<and> mset ops' = mset ops + pend ls s
     \<and> io s' = io s \<and> ep_inv [] (rev ls @ fs) s' \<and> (\<forall>x \<in> set ls. set_shutdown (sets s' x))
     \<and> (\<forall>x. x \<notin> set ls \<longrightarrow> sets s' x = sets s x)"
  using assms(2)
proof (induction ls arbitrary: fs ops s)
  case Nil
  then have "pool_first (objs s) = None"
    using dpool.first_rep [of "objs s" "[]" fs] by (simp add: ep_inv_def)
  then have "shutdown_loop mrg ops s = Some (ops, s)"
    by (subst shutdown_loop.simps) simp
  with Nil show ?case by simp
next
  case (Cons x ls)
  note inv = ep_invD [OF Cons.prems]
  note first = dpool.release_first [OF inv(1)]
  define r where "r = merge_queues mrg [0..<op_max] x ops s"
  define s2 where "s2 = free_op_set x (upd_set x (\<lambda>u. u\<lparr>set_shutdown := True\<rparr>) (snd r))"
  have step: "shutdown_loop mrg ops s = shutdown_loop mrg (fst r) s2"
    by (subst shutdown_loop.simps) (simp add: first(1) r_def s2_def Let_def)
  have snd_r: "snd r = s\<lparr>sets := (sets s)(x := (sets s x)\<lparr>que := (que (sets s x))(0 := [], 1 := [], 2 := [], 3 := [])\<rparr>)\<rparr>"
    using merge_queues_spec(2) [OF assms(1), of x ops s] by (simp only: r_def)
  have fst_r: "mset (fst r) = mset ops + mset (set_ops (sets s x))"
    using merge_queues_spec(1) [OF assms(1), of x ops s] by (simp only: r_def)
  have oth: "sets s2 y = sets s y" if "y \<noteq> x" for y using that by (simp add: s2_def snd_r)
  have sx: "set_ops (sets s2 x) = []" "set_shutdown (sets s2 x)"
    by (simp_all add: s2_def snd_r set_ops_def)
  have "ep_inv ls (x # fs) s2"
    unfolding ep_inv_def
  proof (intro conjI ballI)
    show "pool_inv (objs s2) ls (x # fs)" using first(2) by (simp add: s2_def snd_r)
    show "set_ops (sets s2 y) = []" if "y \<in> set (x # fs)" for y
      using that oth sx inv(3) by (cases "y = x") auto
    show "\<not> set_shutdown (sets s2 y)" if "y \<in> set ls" for y
      using that oth [of y] inv(2) inv(4) [of y] by (cases "y = x") auto
  qed
  from Cons.IH [OF this, of "fst r"] obtain ops' s' where
      l: "shutdown_loop mrg (fst r) s2 = Some (ops', s')" "mset ops' = mset (fst r) + pend ls s2"
        "io s' = io s2" "ep_inv [] (rev ls @ x # fs) s'" "\<forall>y \<in> set ls. set_shutdown (sets s' y)"
        "\<forall>y. y \<notin> set ls \<longrightarrow> sets s' y = sets s2 y" by blast
  have "pend ls s2 = pend ls s"
  proof (rule pend_cong)
    show "set_ops (sets s2 y) = set_ops (sets s y)" if "y \<in> set ls" for y
      using that oth [of y] inv(2) by (cases "y = x") auto
  qed
  moreover have "x \<notin> set ls" using inv(2) by simp
  moreover have "io s2 = io s" by (simp add: s2_def snd_r)
  ultimately show ?case using l sx oth step fst_r by (auto simp: ac_simps)
qed

context io_service
begin

lemma deregister_posts:
  assumes "ep_inv ls fs s" and "x \<in> set ls"
    and "deregister_descriptor io_s fd (Some x) closing s = (p, s')"
  shows "p = None \<and> ep_inv (remove1 x ls) (x # fs) s'
    \<and> pend (remove1 x ls) s' + held (io s') = pend ls s + held (io s) \<and> balance (io s') = balance (io s)
    \<and> (\<forall>op \<in> set (set_ops (sets s x)). ec_of s' op = ECANCELED)
    \<and> (\<not> closing \<and> kerr s fd = 0 \<longrightarrow> kern s' fd = None)
    \<and> held (io s') = held (io s) + mset (set_ops (sets s x))"
proof -
  note inv = ep_invD [OF assms(1)]
  define s1 where "s1 = (if closing then s else snd (epoll_ctl CtlDel fd 0 None s))"
  have s1: "sets s1 = sets s" "objs s1 = objs s" "io s1 = io s" "ec_of s1 = ec_of s"
    by (simp_all add: s1_def)
  obtain ops s2 where c: "cancel_queues [0..<op_max] x s1 = (ops, s2)"
    by (cases "cancel_queues [0..<op_max] x s1")
  note sp = cancel_queues_spec [OF c]
  have d: "p = None" "s' = upd_io (io_post_deferred io_s ops)
      (free_op_set x (upd_set x (\<lambda>u. u\<lparr>descriptor := - 1, set_shutdown := True\<rparr>) s2))"
    using assms(3) c inv(4) [OF assms(2)]
    by (auto simp: deregister_descriptor_def s1_def [symmetric] Let_def)
  have oth: "sets s' y = sets s y" if "y \<noteq> x" for y using that unfolding d sp by (simp add: s1)
  have "ep_inv (remove1 x ls) (x # fs) s'"
    unfolding ep_inv_def
  proof (intro conjI ballI)
    show "pool_inv (objs s') (remove1 x ls) (x # fs)"
      using dpool.release_rep [OF inv(1) assms(2)] unfolding d sp by (simp add: s1)
    show "set_ops (sets s' y) = []" if "y \<in> set (x # fs)" for y
      using that oth inv(3) unfolding d sp by (cases "y = x") (auto simp: s1 set_ops_def)
    show "\<not> set_shutdown (sets s' y)" if "y \<in> set (remove1 x ls)" for y
      using that oth [of y] inv(2,4) by auto
  qed
  moreover have "pend (remove1 x ls) s' = pend (remove1 x ls) s"
    using inv(2) oth by (intro pend_cong) auto
  moreover have "held (io s') = held (io s) + mset (set_ops (sets s x))"
    unfolding d sp by (simp add: held_deferred s1)
  moreover have "balance (io s') = balance (io s)"
    unfolding d sp by (simp add: balance_deferred s1)
  moreover have "\<forall>op \<in> set (set_ops (sets s x)). ec_of s' op = ECANCELED"
    unfolding d sp by (simp add: s1)
  moreover have "kern s' fd = None" if "\<not> closing" "kerr s fd = 0"
    unfolding d sp using that by (auto simp: s1_def epoll_ctl_def)
  ultimately show ?thesis
    using pend_remove1 [OF assms(2), of s] d(1) by (simp add: ac_simps)
qed

lemma deregister_ledger:
  assumes "ep_inv ls fs s" and "x \<in> set ls"
    and "deregister_descriptor io_s fd (Some x) closing s = (p, s')"
  shows "p = None \<and> ep_inv (remove1 x ls) (x # fs) s'
    \<and> pend (remove1 x ls) s' + held (io s') = pend ls s + held (io s) \<and> balance (io s') = balance (io s)
    \<and> (\<forall>op \<in> set (set_ops (sets s x)). ec_of s' op = ECANCELED)
    \<and> (\<not> closing \<and> kerr s fd = 0 \<longrightarrow> kern s' fd = None)"
  using deregister_posts [OF assms] by blast

end

context io_service_abandon
begin

lemma shutdown_ledger:
  assumes "\<And>xs ys. mset (mrg xs ys) = mset xs + mset ys" and "ep_inv ls fs s"
  shows "\<exists>s'. ep_shutdown_service io_s mrg s = Some s' \<and> gone (io s') = gone (io s) + pend ls s
    \<and> held (io s') = held (io s) \<and> ep_inv [] (rev ls @ fs) s'"
proof -
  have inv: "ep_inv ls fs (s\<lparr>ep_shutdown := True\<rparr>)" using assms(2) by (simp add: ep_inv_def)
  have "pend ls (s\<lparr>ep_shutdown := True\<rparr>) = pend ls s" by (intro pend_cong) simp
  with shutdown_loop_spec [OF assms(1) inv, of "[]"] obtain ops s1 where
      "shutdown_loop mrg [] (s\<lparr>ep_shutdown := True\<rparr>) = Some (ops, s1)" "mset ops = pend ls s"
      "io s1 = io s" "ep_inv [] (rev ls @ fs) s1" by auto
  then show ?thesis
    by (auto simp: ep_shutdown_service_def gone_abandon held_abandon ep_inv_def)
qed

end

end
