(* ===== verification/Reactor.thy ===== *)
theory Reactor
  imports Epoll_Props
begin

text \<open>
  Properties of the reactor on top of \<open>task_io_service\<close>: what happens to operations on each
  path, the states its own operations reach, and the events that do not arrive.
\<close>

section \<open>Reachable states\<close>

text \<open>
  The public operations, with descriptors other than the interrupter's own; \<open>RClose\<close> is the
  owner closing a descriptor, which takes it out of the kernel's interest list.
\<close>

datatype rop = RRegister nat int | RStart "nat \<Rightarrow> bool" nat int "nat option" nat bool | RCancel "nat option"
  | RDeregister int "nat option" bool | RPerform "nat \<Rightarrow> bool" "32 word" nat
  | RRun "(nat option \<times> 32 word) list" | RInterrupt | RClose int

fun rop_exec :: "'s io_ops \<Rightarrow> rop \<Rightarrow> 's epl \<Rightarrow> 's epl" where
  "rop_exec io_s (RRegister fresh fd) s = snd (snd (register_descriptor fresh fd s))"
| "rop_exec io_s (RStart w t fd p op al) s = start_op io_s w t fd p op al s"
| "rop_exec io_s (RCancel p) s = cancel_ops io_s p s"
| "rop_exec io_s (RDeregister fd p closing) s = snd (deregister_descriptor io_s fd p closing s)"
| "rop_exec io_s (RPerform w events x) s = snd (perform_io io_s w events x s)"
| "rop_exec io_s (RRun evs) s = snd (ep_run evs s)"
| "rop_exec io_s RInterrupt s = ep_interrupt s"
| "rop_exec io_s (RClose fd) s = s\<lparr>kern := (kern s)(fd := None)\<rparr>"

fun rop_fds :: "rop \<Rightarrow> int list" where
  "rop_fds (RRegister fresh fd) = [fd]"
| "rop_fds (RStart w t fd p op al) = [fd]"
| "rop_fds (RDeregister fd p closing) = [fd]"
| "rop_fds _ = []"

fun rops_exec :: "'s io_ops \<Rightarrow> rop list \<Rightarrow> 's epl \<Rightarrow> 's epl" where
  "rops_exec io_s [] s = s"
| "rops_exec io_s (r # rs) s = rops_exec io_s rs (rop_exec io_s r s)"

definition ep_init :: "int \<Rightarrow> (int \<Rightarrow> int) \<Rightarrow> 's \<Rightarrow> 's epl" where
  "ep_init rd errs serv = \<lparr>ep_shutdown = False, kern = (\<lambda>_. None), kerr = errs, read_descriptor = rd,
     objs = pool_empty, sets = (\<lambda>_. new_oset), ec_of = (\<lambda>_. 0), io = serv\<rparr>"

lemma epoll_ctl_kern:
  "fd \<noteq> rd \<Longrightarrow> kern (snd (epoll_ctl c fd ev p s)) rd = kern s rd"
  by (auto simp: epoll_ctl_def split: ctl.splits)

lemma cancel_queues_kern [simp]:
  "kern (snd (cancel_queues is x s)) = kern s"
  "read_descriptor (snd (cancel_queues is x s)) = read_descriptor s"
  by (induction "is" arbitrary: s) (simp_all add: split_beta Let_def)

lemma perform_queues_kern [simp]:
  "kern (snd (perform_queues w js events x s)) = kern s"
  "read_descriptor (snd (perform_queues w js events x s)) = read_descriptor s"
  by (induction js arbitrary: s) (simp_all add: split_beta Let_def)

lemma ep_run_spec:
  "fst (ep_run evs s) = [x. (Some x, e) \<leftarrow> evs] \<and> kern (snd (ep_run evs s)) = kern s
   \<and> read_descriptor (snd (ep_run evs s)) = read_descriptor s \<and> io (snd (ep_run evs s)) = io s
   \<and> (\<forall>x. set_ops (sets (snd (ep_run evs s)) x) = set_ops (sets s x))"
  by (induction evs s rule: ep_run.induct) (auto simp: split_beta Let_def set_ops_def split: option.split)

lemma rop_kern:
  assumes "kern s rd = None" and "read_descriptor s = rd" and "rd \<notin> set (rop_fds r)"
  shows "kern (rop_exec io_s r s) rd = None \<and> read_descriptor (rop_exec io_s r s) = rd"
proof (cases r)
  case (RRegister fresh fd)
  then show ?thesis
    using assms
    by (auto simp: register_descriptor_def allocate_op_set_def split_beta Let_def epoll_ctl_kern)
next
  case (RStart w t fd p op al)
  then show ?thesis
    using assms by (auto simp: start_op_def split_beta Let_def epoll_ctl_kern split: option.split)
next
  case (RCancel p)
  then show ?thesis using assms by (auto simp: cancel_ops_def split_beta Let_def split: option.split)
next
  case (RDeregister fd p closing)
  then show ?thesis
    using assms
    by (auto simp: deregister_descriptor_def free_op_set_def split_beta Let_def epoll_ctl_kern split: option.split)
next
  case (RPerform w events x)
  then show ?thesis
    using assms by (auto simp: perform_io_def split_beta Let_def split: list.split)
next
  case (RRun evs)
  then show ?thesis using assms ep_run_spec [of evs s] by simp
next
  case RInterrupt
  then show ?thesis using assms by (simp add: ep_interrupt_def epoll_ctl_def)
next
  case (RClose fd)
  then show ?thesis using assms by simp
qed

lemma rops_kern:
  "kern s rd = None \<Longrightarrow> read_descriptor s = rd \<Longrightarrow> \<forall>r \<in> set rs. rd \<notin> set (rop_fds r) \<Longrightarrow>
     kern (rops_exec io_s rs s) rd = None \<and> read_descriptor (rops_exec io_s rs s) = rd"
proof (induction rs arbitrary: s)
  case (Cons r rs)
  then show ?case using rop_kern [of s rd r io_s] by simp
qed simp

section \<open>Properties\<close>

text \<open>
  A state for the witnesses: one set at address 1 for descriptor 5, reads 11 and 12 and write
  13 pending, on a service with two counted operations.
\<close>

abbreviation oset1 :: oset where
  "oset1 \<equiv> \<lparr>descriptor = 5, register_events = EPOLLIN, que = (\<lambda>_. [])(0 := [11, 12], 1 := [13]),
     set_shutdown = False, task_result = 0\<rparr>"

definition ep1 :: "tio epl" where
  "ep1 = \<lparr>ep_shutdown = False, kern = [5 \<mapsto> (EPOLLIN, Some 1)], kerr = (\<lambda>_. 0), read_descriptor = 3,
     objs = pool_exec [PAlloc 1] pool_empty, sets = (\<lambda>_. new_oset)(1 := oset1), ec_of = (\<lambda>_. 0),
     io = (tio_init 7 50 0)\<lparr>outstanding_work := 3, op_que := [50]\<rparr>\<rparr>"

lemma ep1_inv: "ep_inv [1] [] ep1"
proof -
  have "pool_inv (pool_exec [PAlloc 1] pool_empty) [1] []"
    using pool_exec_refines [of pool_empty "([], [])" "[PAlloc 1]"] by simp
  then show ?thesis by (simp add: ep_inv_def ep1_def)
qed

text \<open>
  C14. \<open>start_op\<close> loses and duplicates nothing: on every path (no set, set shut down, finished
  speculatively, refused by the kernel, queued) the operation is afterwards either pending in
  a set or held by the service, exactly once, all others stay where they were, and one unit of
  work is counted for it.
\<close>

theorem start_op_conserves:
  assumes "ep_inv ls fs s" and "set_p = None \<or> (\<exists>x. set_p = Some x \<and> x \<in> set ls)" and "t < op_max"
    and "s' = start_op (tio_ops cs) w t fd set_p op al s"
  shows "ep_inv ls fs s' \<and> pend ls s' + tio_held cs (io s') = add_mset op (pend ls s + tio_held cs (io s))
     \<and> tio_balance cs (io s') = tio_balance cs (io s) + 1"
  using tio.start_op_ledger [OF assms] .

theorem start_op_conserves_witness:
  "pend [1] (start_op (tio_ops []) (\<lambda>_. False) op_write 5 (Some 1) 14 True ep1)
     + tio_held [] (io (start_op (tio_ops []) (\<lambda>_. False) op_write 5 (Some 1) 14 True ep1))
     = {#11, 12, 13, 14, 50#}"
  using start_op_conserves [OF ep1_inv, of "Some 1" op_write _ "[]" "\<lambda>_. False" 5 14 True, OF _ _ refl]
  by (simp add: pend_def tio_held_def tio_private_def)
    (simp add: ep1_def tio_init_def set_ops_def)

text \<open>
  C15. \<open>perform_io\<close> conserves operations too: what it takes from the queues is returned or
  posted once, a returned operation was done, and the work count changes only by the unit that
  compensates for a round that finished nothing.
\<close>

theorem perform_io_conserves:
  assumes "ep_inv ls fs s" and "x \<in> set ls" and "perform_io (tio_ops cs) w events x s = (first, s')"
  shows "ep_inv ls fs s'
    \<and> pend ls s' + tio_held cs (io s') + (case first of None \<Rightarrow> {#} | Some op \<Rightarrow> {#op#})
        = pend ls s + tio_held cs (io s)
    \<and> tio_balance cs (io s') = tio_balance cs (io s) + (if first = None then 1 else 0)
    \<and> (\<forall>op. first = Some op \<longrightarrow> w op)"
  using tio.perform_io_ledger [OF assms] by auto

theorem perform_io_conserves_witness:
  "\<exists>s'. perform_io (tio_ops []) (\<lambda>op. op \<noteq> 12) (EPOLLIN OR EPOLLOUT) 1 ep1 = (Some 13, s')
     \<and> pend [1] s' + tio_held [] (io s') = {#11, 12, 50#}"
proof -
  obtain first s' where p: "perform_io (tio_ops []) (\<lambda>op. op \<noteq> 12) (EPOLLIN OR EPOLLOUT) 1 ep1 = (first, s')"
    by (cases "perform_io (tio_ops []) (\<lambda>op. op \<noteq> 12) (EPOLLIN OR EPOLLOUT) 1 ep1")
  have "fst (perform_io (tio_ops []) (\<lambda>op. op \<noteq> 12) (EPOLLIN OR EPOLLOUT) 1 ep1) = Some 13"
    by code_simp
  with p have f: "first = Some 13" by simp
  have "pend [1] s' + tio_held [] (io s') + {#13#} = pend [1] ep1 + tio_held [] (io ep1)"
    using perform_io_conserves [OF ep1_inv _ p] f by simp
  also have "\<dots> = {#11, 12, 50#} + {#13#}"
    by (simp add: pend_def tio_held_def tio_private_def ep1_def tio_init_def set_ops_def)
  finally show ?thesis using p f by (simp only: add_right_cancel) blast
qed

text \<open>
  C16. Deregistering a live set hands every operation pending in it to the service, once and
  with \<open>ECANCELED\<close>, frees the set for reuse, forgets the caller's pointer, and (unless the
  owner is about to close the descriptor) removes it from the kernel's interest list.
\<close>

theorem deregister_cancels:
  assumes "ep_inv ls fs s" and "x \<in> set ls"
    and "deregister_descriptor (tio_ops cs) fd (Some x) closing s = (p, s')"
  shows "p = None \<and> ep_inv (remove1 x ls) (x # fs) s'
    \<and> pend (remove1 x ls) s' + tio_held cs (io s') = pend ls s + tio_held cs (io s)
    \<and> tio_balance cs (io s') = tio_balance cs (io s)
    \<and> (\<forall>op \<in> set (set_ops (sets s x)). ec_of s' op = ECANCELED)
    \<and> (\<not> closing \<and> kerr s fd = 0 \<longrightarrow> kern s' fd = None)"
  using tio.deregister_ledger [OF assms] .

theorem deregister_cancels_witness:
  "\<exists>p s'. deregister_descriptor (tio_ops []) 5 (Some 1) False ep1 = (p, s')
     \<and> tio_held [] (io s') = {#11, 12, 13, 50#} \<and> ec_of s' 12 = ECANCELED \<and> kern s' 5 = None"
proof -
  obtain p s' where d: "deregister_descriptor (tio_ops []) 5 (Some 1) False ep1 = (p, s')"
    by (cases "deregister_descriptor (tio_ops []) 5 (Some 1) False ep1")
  have "1 \<in> set [1::nat]" by simp
  from deregister_cancels [OF ep1_inv this d] d show ?thesis
    by (simp add: tio_held_def tio_private_def pend_def)
      (simp add: ep1_def tio_init_def set_ops_def)
qed



text \<open>
  \<open>interrupt\<close> cannot wake a blocked \<open>epoll_wait\<close>: its descriptor is never added to the
  interest list, so in every state the reactor's operations reach the modification is refused
  and changes nothing.
\<close>

theorem interrupt_has_no_effect:
  assumes "\<forall>r \<in> set rs. rd \<notin> set (rop_fds r)"
  shows "ep_interrupt (rops_exec io_s rs (ep_init rd errs serv)) = rops_exec io_s rs (ep_init rd errs serv)
    \<and> fst (epoll_ctl CtlMod rd ev None (rops_exec io_s rs (ep_init rd errs serv))) \<noteq> 0"
proof -
  have "kern (rops_exec io_s rs (ep_init rd errs serv)) rd = None
      \<and> read_descriptor (rops_exec io_s rs (ep_init rd errs serv)) = rd"
    using assms by (intro rops_kern) (simp_all add: ep_init_def)
  then show ?thesis by (simp add: ep_interrupt_def epoll_ctl_def)
qed

theorem interrupt_has_no_effect_witness:
  "ep_interrupt (rops_exec (tio_ops []) [RRegister 1 5] (ep_init 3 (\<lambda>_. 0) (tio_init 7 50 0)))
     = rops_exec (tio_ops []) [RRegister 1 5] (ep_init 3 (\<lambda>_. 0) (tio_init 7 50 0))"
  using interrupt_has_no_effect [of "[RRegister 1 5]" 3 "tio_ops []" "\<lambda>_. 0" "tio_init 7 50 0"] by simp

text \<open>
  A connection in progress is not completed by writability: the event table gives the
  kind \<open>op_connect\<close> the flag \<open>EPOLLPRI\<close>, so \<open>EPOLLOUT\<close> runs the write queue only, in order up to
  the first operation that is not done, and starting a connect never asks for \<open>EPOLLOUT\<close>.
\<close>

theorem connect_not_woken:
  assumes "perform_io io_s w EPOLLOUT x s = (first, s')"
  shows "que (sets s' x) op_connect = que (sets s x) op_connect
    \<and> que (sets s' x) op_write = dropWhile w (que (sets s x) op_write)
    \<and> first = (case takeWhile w (que (sets s x) op_write) of [] \<Rightarrow> None | op # _ \<Rightarrow> Some op)
    \<and> register_events (sets (start_op io_s w op_connect fd (Some x) op al s) x) = register_events (sets s x)"
proof -
  obtain ops s1 where c: "perform_queues w (rev [0..<op_max]) EPOLLOUT x s = (ops, s1)"
    by (cases "perform_queues w (rev [0..<op_max]) EPOLLOUT x s")
  note sp = perform_queues_spec [OF c]
  have r: "\<not> ready EPOLLOUT 0" "ready EPOLLOUT 1" "\<not> ready EPOLLOUT 2" "\<not> ready EPOLLOUT 3"
    by code_simp+
  have ops: "ops = takeWhile w (que (sets s x) op_write)"
    unfolding sp using r by (simp add: done_of_def)
  have "sets s' x = sets s1 x"
    using assms c by (auto simp: perform_io_def split: list.splits if_splits)
  moreover have "que (sets s1 x) op_connect = que (sets s x) op_connect"
    "que (sets s1 x) op_write = dropWhile w (que (sets s x) op_write)"
    unfolding sp using r by (simp_all add: left_of_def)
  moreover have "first = (case ops of [] \<Rightarrow> None | op # _ \<Rightarrow> Some op)"
    using assms c by (auto simp: perform_io_def split: list.splits)
  moreover have "register_events (sets (start_op io_s w op_connect fd (Some x) op al s) x) = register_events (sets s x)"
    by (simp add: start_op_def Let_def split_beta)
  ultimately show ?thesis by (simp add: ops)
qed

theorem connect_not_woken_witness:
  "\<exists>s'. perform_io (tio_ops []) (\<lambda>_. True) EPOLLOUT 1 ep1 = (Some 13, s') \<and> que (sets s' 1) op_connect = []"
proof -
  obtain first s' where p: "perform_io (tio_ops []) (\<lambda>_. True) EPOLLOUT 1 ep1 = (first, s')"
    by (cases "perform_io (tio_ops []) (\<lambda>_. True) EPOLLOUT 1 ep1")
  from connect_not_woken [OF p] p show ?thesis by (simp add: ep1_def)
qed

end
