(* ===== verification/CBuffer.thy ===== *)
theory CBuffer
  imports Object_Pool
begin

text \<open>
  \<open>cbuffer\<close> of \<open>deviceagent/2deviceagent/io/object/operation/socket_op_decl.hpp\<close>: a chain of
  messages to send or receive. A node is a record at its address; the head node carries the
  totals. Loops over \<open>next\<close> run over the nodes of the chain, which \<open>chain\<close> collects by
  following the pointers; an operation on a chain that does not end has no result. Lengths are
  \<open>size_t\<close>, so a subtraction wraps.
\<close>

record cbuf =
  cb_msg :: nat
  cb_len :: nat
  consumed :: nat
  bytes_trans :: nat
  bytes_total :: nat
  cb_count :: nat
  cb_next :: "nat option"
  cb_prev :: "nat option"
  cb_head :: nat
  cb_end :: nat
  cb_cur :: "nat option"

type_synonym cheap = "nat \<Rightarrow> cbuf"

definition size_t :: "int \<Rightarrow> nat" where
  "size_t x = nat (to_size x)"

definition upd_cb :: "nat \<Rightarrow> (cbuf \<Rightarrow> cbuf) \<Rightarrow> cheap \<Rightarrow> cheap" where
  "upd_cb p f h = h(p := f (h p))"

definition cb_construct :: "nat \<Rightarrow> nat \<Rightarrow> nat \<Rightarrow> cheap \<Rightarrow> cheap" where
  "cb_construct p data data_len h = h(p := \<lparr>cb_msg = data, cb_len = data_len, consumed = 0,
     bytes_trans = 0, bytes_total = data_len, cb_count = 1, cb_next = None, cb_prev = None,
     cb_head = p, cb_end = p, cb_cur = Some p\<rparr>)"

partial_function (option) chain :: "cheap \<Rightarrow> nat option \<Rightarrow> nat list option" where
  "chain h p = (case p of None \<Rightarrow> Some []
     | Some x \<Rightarrow> Option.bind (chain h (cb_next (h x))) (\<lambda>xs. Some (x # xs)))"

declare chain.simps [code]

definition cb_set_data :: "nat \<Rightarrow> nat \<Rightarrow> nat \<Rightarrow> cheap \<Rightarrow> bool \<times> cheap" where
  "cb_set_data this data data_len h =
     (if consumed (h this) \<noteq> 0 then (False, h)
      else
        let hp = cb_head (h this);
            h1 = upd_cb hp (\<lambda>c. c\<lparr>bytes_total := size_t (int (bytes_total c) + int data_len - int (cb_len (h this)))\<rparr>) h
        in (True, upd_cb this (\<lambda>c. c\<lparr>cb_msg := data, cb_len := data_len\<rparr>) h1))"

fun set_heads :: "nat \<Rightarrow> nat list \<Rightarrow> cheap \<Rightarrow> cheap" where
  "set_heads hp [] h = h"
| "set_heads hp (x # xs) h = set_heads hp xs (upd_cb x (\<lambda>c. c\<lparr>cb_head := hp\<rparr>) h)"

definition cb_append :: "nat \<Rightarrow> nat \<Rightarrow> cheap \<Rightarrow> (bool \<times> cheap) option" where
  "cb_append this buf h =
     (let hp = cb_head (h this); bh = cb_head (h buf) in
      if buf = hp \<or> cb_next (h this) \<noteq> None \<or> bytes_trans (h bh) \<noteq> 0 \<or> cb_prev (h buf) \<noteq> None
      then Some (False, h)
      else
        let h1 = upd_cb this (\<lambda>c. c\<lparr>cb_next := Some buf\<rparr>) h;
            h2 = upd_cb buf (\<lambda>c. c\<lparr>cb_prev := Some this\<rparr>) h1;
            h3 = upd_cb hp (\<lambda>c. c\<lparr>bytes_total := size_t (int (bytes_total c) + int (bytes_total (h2 bh))),
                                  cb_count := size_t (int (cb_count c) + int (cb_count (h2 bh))),
                                  cb_end := cb_end (h2 bh)\<rparr>) h2
        in map_option (\<lambda>xs. (True, set_heads hp xs h3)) (chain h3 (Some hp)))"

fun construct_all :: "bool \<Rightarrow> nat list \<Rightarrow> cheap \<Rightarrow> cheap" where
  "construct_all keep [] h = h"
| "construct_all keep (x # xs) h =
     construct_all keep xs (if keep then cb_construct x (cb_msg (h x)) (cb_len (h x)) h
                            else cb_construct x 0 0 h)"

definition cb_reset :: "nat \<Rightarrow> cheap \<Rightarrow> cheap option" where
  "cb_reset this h = map_option (\<lambda>xs. construct_all False xs h) (chain h (Some (cb_head (h this))))"

definition cb_unlink :: "nat \<Rightarrow> cheap \<Rightarrow> cheap option" where
  "cb_unlink this h = map_option (\<lambda>xs. construct_all True xs h) (chain h (Some (cb_head (h this))))"

text \<open>The two loops of \<open>split_from_cur\<close>: up to \<open>cur\<close>, and from \<open>cur\<close> on.\<close>

fun split_front :: "nat \<Rightarrow> nat list \<Rightarrow> nat \<Rightarrow> cheap \<Rightarrow> cheap" where
  "split_front tmp_head [] cur h = h"
| "split_front tmp_head (x # xs) cur h =
     (if x = cur then h
      else split_front tmp_head xs cur
             (upd_cb tmp_head (\<lambda>c. c\<lparr>bytes_total := size_t (int (bytes_total c) + int (cb_len (h x))), cb_end := x,
                                     cb_count := cb_count c + 1\<rparr>) h))"

fun split_back :: "nat \<Rightarrow> nat list \<Rightarrow> cheap \<Rightarrow> cheap" where
  "split_back cur [] h = h"
| "split_back cur (x # xs) h =
     (let h1 = upd_cb x (\<lambda>c. c\<lparr>cb_head := cur\<rparr>) h;
          h2 = upd_cb cur (\<lambda>c. c\<lparr>bytes_total := size_t (int (bytes_total c) + int (cb_len (h1 x))),
                                cb_count := cb_count c + 1\<rparr>) h1
      in split_back cur xs h2)"

text \<open>The result is \<open>buf1\<close>, \<open>buf2\<close> and the heap.\<close>

definition cb_split :: "nat \<Rightarrow> cheap \<Rightarrow> (nat option \<times> nat option \<times> cheap) option" where
  "cb_split this h =
     (case cb_cur (h this) of None \<Rightarrow> Some (None, None, h)
      | Some cur \<Rightarrow>
          (case cb_prev (h cur) of None \<Rightarrow> Some (None, Some cur, h)
           | Some pr \<Rightarrow>
               let hp = cb_head (h this) in
               Option.bind (chain h (Some hp)) (\<lambda>xs.
                 let h1 = upd_cb hp (\<lambda>c. c\<lparr>bytes_total := 0, cb_count := 0\<rparr>) h;
                     h2 = split_front hp xs cur h1;
                     h3 = upd_cb hp (\<lambda>c. c\<lparr>bytes_trans := bytes_total c\<rparr>) h2;
                     h4 = upd_cb pr (\<lambda>c. c\<lparr>cb_next := None\<rparr>) h3;
                     h5 = upd_cb cur (\<lambda>c. c\<lparr>cb_prev := None, bytes_total := 0, bytes_trans := consumed c,
                                          cb_count := 0\<rparr>) h4
                 in map_option (\<lambda>ys.
                      (Some hp, Some cur, upd_cb hp (\<lambda>c. c\<lparr>cb_cur := None\<rparr>) (split_back cur ys h5)))
                      (chain h5 (Some cur)))))"

text \<open>
  The second loop of \<open>set_bytes\<close>. \<open>len\<close> in its first branch is the member of the object the
  call was made on, not of \<open>item\<close>.
\<close>

fun clear_consumed :: "nat list \<Rightarrow> cheap \<Rightarrow> cheap" where
  "clear_consumed [] h = h"
| "clear_consumed (x # xs) h = clear_consumed xs (upd_cb x (\<lambda>c. c\<lparr>consumed := 0\<rparr>) h)"

fun consume_loop :: "nat \<Rightarrow> nat \<Rightarrow> nat list \<Rightarrow> nat \<Rightarrow> cheap \<Rightarrow> cheap" where
  "consume_loop this hp [] bytes h = h"
| "consume_loop this hp (x # xs) bytes h =
     (if cb_len (h x) < bytes
      then consume_loop this hp xs (size_t (int bytes - int (cb_len (h this))))
             (upd_cb x (\<lambda>c. c\<lparr>consumed := cb_len (h this)\<rparr>) h)
      else if cb_len (h x) > bytes
      then upd_cb hp (\<lambda>c. c\<lparr>cb_cur := Some x\<rparr>) (upd_cb x (\<lambda>c. c\<lparr>consumed := bytes\<rparr>) h)
      else upd_cb hp (\<lambda>c. c\<lparr>cb_cur := cb_next (h x)\<rparr>) (upd_cb x (\<lambda>c. c\<lparr>consumed := bytes\<rparr>) h))"

definition cb_set_bytes :: "nat \<Rightarrow> nat \<Rightarrow> cheap \<Rightarrow> cheap option" where
  "cb_set_bytes this bytes h =
     (let hp = cb_head (h this);
          h1 = upd_cb hp (\<lambda>c. c\<lparr>bytes_trans := if bytes > bytes_total c then bytes_total c else bytes\<rparr>) h
      in map_option (\<lambda>xs. consume_loop this hp xs bytes (clear_consumed xs h1)) (chain h1 (Some hp)))"

definition cb_add_bytes :: "nat \<Rightarrow> nat \<Rightarrow> cheap \<Rightarrow> cheap option" where
  "cb_add_bytes this bytes h =
     (let hp = cb_head (h this);
          h1 = upd_cb hp (\<lambda>c. c\<lparr>bytes_trans := size_t (int (bytes_trans c) + int bytes)\<rparr>) h;
          h2 = (if bytes_trans (h1 hp) > bytes_total (h1 hp)
                then upd_cb hp (\<lambda>c. c\<lparr>bytes_trans := bytes_total c\<rparr>) h1 else h1)
      in cb_set_bytes this (bytes_trans (h2 hp)) h2)"

definition cb_get_cur :: "nat \<Rightarrow> cheap \<Rightarrow> nat option" where
  "cb_get_cur this h = cb_cur (h (cb_head (h this)))"

definition cb_get_trans :: "nat \<Rightarrow> cheap \<Rightarrow> nat" where
  "cb_get_trans this h = bytes_trans (h (cb_head (h this)))"

definition cb_get_total :: "nat \<Rightarrow> cheap \<Rightarrow> nat" where
  "cb_get_total this h = bytes_total (h (cb_head (h this)))"

definition cb_get_size :: "nat \<Rightarrow> cheap \<Rightarrow> nat" where
  "cb_get_size this h = cb_count (h (cb_head (h this)))"

definition cb_get_end :: "nat \<Rightarrow> cheap \<Rightarrow> nat" where
  "cb_get_end this h = cb_end (h (cb_head (h this)))"

text \<open>\<open>destroy_buffer_list\<close>: the messages deleted, and the heap after \<open>reset\<close>.\<close>

definition destroy_buffer_list :: "nat \<Rightarrow> cheap \<Rightarrow> (nat list \<times> cheap) option" where
  "destroy_buffer_list buf h =
     Option.bind (chain h (Some (cb_head (h buf)))) (\<lambda>xs.
       map_option (\<lambda>h'. (map (\<lambda>x. cb_msg (h x)) xs, h')) (cb_reset buf h))"

section \<open>Well-formed chains\<close>

definition cb_inv :: "cheap \<Rightarrow> nat list \<Rightarrow> bool" where
  "cb_inv h xs \<longleftrightarrow> xs \<noteq> [] \<and> distinct xs
     \<and> nexts (\<lambda>x. cb_next (h x)) (Some (hd xs)) xs \<and> prevs (\<lambda>x. cb_prev (h x)) None xs
     \<and> (\<forall>x \<in> set xs. cb_head (h x) = hd xs)
     \<and> bytes_total (h (hd xs)) = sum_list (map (\<lambda>x. cb_len (h x)) xs)
     \<and> cb_count (h (hd xs)) = length xs \<and> cb_end (h (hd xs)) = last xs
     \<and> bytes_total (h (hd xs)) < 2 ^ 63 \<and> cb_count (h (hd xs)) < 2 ^ 63"

lemma size_t_id: "0 \<le> x \<Longrightarrow> x < 2 ^ 64 \<Longrightarrow> size_t x = nat x"
  by (simp add: size_t_def to_size_def)

lemma chain_nexts: "nexts (\<lambda>x. cb_next (h x)) p xs \<Longrightarrow> chain h p = Some xs"
proof (induction xs arbitrary: p)
  case Nil
  then show ?case by (subst chain.simps) simp
next
  case (Cons x xs)
  then show ?case by (subst chain.simps) simp
qed

lemma cb_inv_chain: "cb_inv h xs \<Longrightarrow> chain h (Some (hd xs)) = Some xs"
  by (simp add: cb_inv_def chain_nexts)

lemma cb_inv_construct: "data_len < 2 ^ 63 \<Longrightarrow> cb_inv (cb_construct p data data_len h) [p]"
  by (simp add: cb_inv_def cb_construct_def)

lemma prevs_cong: "\<forall>z \<in> set xs. f z = g z \<Longrightarrow> prevs f l xs = prevs g l xs"
  by (induction f l xs rule: prevs.induct) auto

text \<open>Two heaps that agree on the links and lengths of a chain's nodes.\<close>

lemma cb_inv_cong:
  assumes "cb_inv h xs"
    and "\<And>x. x \<in> set xs \<Longrightarrow> cb_next (h' x) = cb_next (h x) \<and> cb_prev (h' x) = cb_prev (h x)
           \<and> cb_head (h' x) = cb_head (h x) \<and> cb_len (h' x) = cb_len (h x)"
    and "bytes_total (h' (hd xs)) = bytes_total (h (hd xs))"
    and "cb_count (h' (hd xs)) = cb_count (h (hd xs))" and "cb_end (h' (hd xs)) = cb_end (h (hd xs))"
  shows "cb_inv h' xs"
proof -
  have "nexts (\<lambda>x. cb_next (h' x)) (Some (hd xs)) xs = nexts (\<lambda>x. cb_next (h x)) (Some (hd xs)) xs"
    "prevs (\<lambda>x. cb_prev (h' x)) None xs = prevs (\<lambda>x. cb_prev (h x)) None xs"
    "sum_list (map (\<lambda>x. cb_len (h' x)) xs) = sum_list (map (\<lambda>x. cb_len (h x)) xs)"
    using assms(2) by (auto intro!: nexts_cong prevs_cong arg_cong [where f = sum_list])
  then show ?thesis using assms by (simp add: cb_inv_def)
qed

section \<open>The loops\<close>

lemma set_heads_spec:
  "set_heads hp xs h = (\<lambda>x. if x \<in> set xs then (h x)\<lparr>cb_head := hp\<rparr> else h x)"
  by (induction xs arbitrary: h) (simp_all, auto simp: upd_cb_def)

lemma clear_consumed_spec:
  "clear_consumed xs h = (\<lambda>x. if x \<in> set xs then (h x)\<lparr>consumed := 0\<rparr> else h x)"
  by (induction xs arbitrary: h) (simp_all, auto simp: upd_cb_def)

text \<open>Two heaps that differ at most in \<open>consumed\<close> and \<open>cur\<close>.\<close>

definition cb_same :: "cheap \<Rightarrow> cheap \<Rightarrow> bool" where
  "cb_same h h' \<longleftrightarrow> (\<forall>x. cb_len (h' x) = cb_len (h x) \<and> cb_next (h' x) = cb_next (h x)
     \<and> cb_head (h' x) = cb_head (h x) \<and> bytes_trans (h' x) = bytes_trans (h x)
     \<and> bytes_total (h' x) = bytes_total (h x) \<and> cb_prev (h' x) = cb_prev (h x)
     \<and> cb_count (h' x) = cb_count (h x) \<and> cb_end (h' x) = cb_end (h x) \<and> cb_msg (h' x) = cb_msg (h x))"

lemma cb_same_refl: "cb_same h h"
  by (simp add: cb_same_def)

lemma cb_same_trans: "cb_same h h' \<Longrightarrow> cb_same h' h'' \<Longrightarrow> cb_same h h''"
  by (simp add: cb_same_def)

lemma cb_same_upd:
  "cb_same h h' \<Longrightarrow> cb_same h (upd_cb y (\<lambda>c. c\<lparr>consumed := n\<rparr>) h')"
  "cb_same h h' \<Longrightarrow> cb_same h (upd_cb y (\<lambda>c. c\<lparr>cb_cur := p\<rparr>) h')"
  by (simp_all add: cb_same_def upd_cb_def)

lemma min_spread: "bytes \<le> l \<Longrightarrow> min l (bytes - i * l) = (if i = 0 then bytes else (0::nat))"
proof (cases i)
  case (Suc n)
  assume "bytes \<le> l"
  then have "bytes \<le> i * l" using Suc by (simp add: trans_le_add1)
  then show ?thesis using Suc by simp
qed simp

lemma min_spread_Suc: "min l (bytes - Suc i * l) = min l (bytes - l - i * (l::nat))"
  by (simp add: diff_diff_left)

lemma nth_first:
  assumes "x \<notin> set xs" "i < length (x # xs)" "\<forall>y \<in> set xs. g y = (0::nat)"
  shows "(if (x # xs) ! i = x then b else g ((x # xs) ! i)) = (if i = 0 then b else 0)"
proof (cases i)
  case (Suc n)
  then have "xs ! n \<in> set xs" using assms(2) by simp
  with assms(1,3) have "xs ! n \<noteq> x" "g (xs ! n) = 0" by (blast, simp)
  then show ?thesis using Suc by simp
qed simp

text \<open>
  In a chain of equal lengths the loop spreads \<open>bytes\<close> over the nodes in order and leaves
  \<open>cur\<close> at the first node that is not full.
\<close>

lemma consume_loop_uniform:
  assumes "nexts (\<lambda>x. cb_next (h x)) p xs" "distinct xs" "xs \<noteq> []"
    and "\<forall>x \<in> set xs. cb_len (h x) = l \<and> consumed (h x) = 0" "cb_len (h this) = l"
    and "0 < l" "bytes \<le> l * length xs" "l * length xs < 2 ^ 63" "h' = consume_loop this hp xs bytes h"
  shows "cb_same h h' \<and> (\<forall>i < length xs. consumed (h' (xs ! i)) = min l (bytes - i * l))
    \<and> (\<forall>y. y \<notin> set xs \<longrightarrow> consumed (h' y) = consumed (h y))
    \<and> cb_cur (h' hp) = (if bytes div l < length xs then Some (xs ! (bytes div l)) else None)"
  using assms
proof (induction xs arbitrary: p bytes h)
  case (Cons x xs)
  have nx: "cb_next (h x) = (case xs of [] \<Rightarrow> None | y # _ \<Rightarrow> Some y)"
    using Cons.prems(1) by (cases xs) auto
  have zero: "x \<notin> set xs" "\<forall>y \<in> set xs. consumed (h y) = 0"
    using Cons.prems(2,4) by (simp, simp)
  show ?case
  proof (cases "l < bytes")
    case False
    show ?thesis
    proof (cases "bytes = l")
      case True
      then have h': "h' = upd_cb hp (\<lambda>c. c\<lparr>cb_cur := cb_next (h x)\<rparr>) (upd_cb x (\<lambda>c. c\<lparr>consumed := bytes\<rparr>) h)"
        using Cons.prems by simp
      have "cb_same h h'" unfolding h' by (intro cb_same_upd cb_same_refl)
      have cons: "consumed (h' y) = (if y = x then bytes else consumed (h y))" for y
        by (simp add: h' upd_cb_def)
      have "cb_same h h'" by fact
      moreover have "consumed (h' ((x # xs) ! i)) = min l (bytes - i * l)" if "i < length (x # xs)" for i
        unfolding cons min_spread [OF eq_refl [OF True]] using that zero by (intro nth_first) simp_all
      moreover have "cb_cur (h' hp) = (if bytes div l < length (x # xs) then Some ((x # xs) ! (bytes div l)) else None)"
        using nx True Cons.prems(6) by (cases xs) (auto simp: h' upd_cb_def)
      ultimately show ?thesis by (simp add: cons)
    next
      case ne: False
      then have h': "h' = upd_cb hp (\<lambda>c. c\<lparr>cb_cur := Some x\<rparr>) (upd_cb x (\<lambda>c. c\<lparr>consumed := bytes\<rparr>) h)"
        and lt: "bytes < l"
        using Cons.prems False by simp_all
      have "cb_same h h'" unfolding h' by (intro cb_same_upd cb_same_refl)
      have cons: "consumed (h' y) = (if y = x then bytes else consumed (h y))" for y
        by (simp add: h' upd_cb_def)
      have "cb_same h h'" by fact
      moreover have "consumed (h' ((x # xs) ! i)) = min l (bytes - i * l)" if "i < length (x # xs)" for i
        unfolding cons min_spread [OF less_imp_le [OF lt]] using that zero by (intro nth_first) simp_all
      moreover have "cb_cur (h' hp) = (if bytes div l < length (x # xs) then Some ((x # xs) ! (bytes div l)) else None)"
        using lt by (auto simp: h' upd_cb_def)
      ultimately show ?thesis by (simp add: cons)
    qed
  next
    case True
    let ?h = "upd_cb x (\<lambda>c. c\<lparr>consumed := l\<rparr>) h"
    have b: "size_t (int bytes - int l) = bytes - l"
      using True Cons.prems(7,8) by (subst size_t_id) (auto simp: nat_diff_distrib)
    have same: "cb_same h ?h" by (intro cb_same_upd cb_same_refl)
    have rec: "h' = consume_loop this hp xs (bytes - l) ?h"
      using Cons.prems True b by simp
    have le: "bytes - l \<le> l * length xs" "l * length xs < 2 ^ 63" "xs \<noteq> []"
      using Cons.prems(7,8) True by auto
    have nxs: "nexts (\<lambda>x. cb_next (?h x)) (cb_next (h x)) xs"
    proof -
      have "(\<lambda>y. cb_next (?h y)) = (\<lambda>y. cb_next (h y))" by (auto simp: upd_cb_def)
      then show ?thesis using Cons.prems(1) by simp
    qed
    have ih: "cb_same ?h h' \<and> (\<forall>i < length xs. consumed (h' (xs ! i)) = min l (bytes - l - i * l))
      \<and> (\<forall>y. y \<notin> set xs \<longrightarrow> consumed (h' y) = consumed (?h y))
      \<and> cb_cur (h' hp) = (if (bytes - l) div l < length xs then Some (xs ! ((bytes - l) div l)) else None)"
    proof (rule Cons.IH [OF nxs _ le(3) _ _ Cons.prems(6) le(1,2) rec])
      show "distinct xs" using Cons.prems(2) by simp
      show "\<forall>y \<in> set xs. cb_len (?h y) = l \<and> consumed (?h y) = 0"
        using Cons.prems(2,4) by (auto simp: upd_cb_def)
      show "cb_len (?h this) = l" using Cons.prems(5) by (auto simp: upd_cb_def)
    qed
    have "cb_same h h'"
      using ih same cb_same_trans by blast
    moreover have "consumed (h' ((x # xs) ! i)) = min l (bytes - i * l)" if "i < length (x # xs)" for i
    proof (cases i)
      case 0
      have "consumed (h' x) = l" using ih zero(1) by (simp add: upd_cb_def)
      then show ?thesis using 0 True by simp
    next
      case (Suc n)
      then have "consumed (h' (xs ! n)) = min l (bytes - l - n * l)" using ih that by simp
      then show ?thesis unfolding Suc min_spread_Suc by simp
    qed
    moreover have "bytes div l = Suc ((bytes - l) div l)"
      using True Cons.prems(6) by (simp add: le_div_geq)
    ultimately show ?thesis using ih by (auto simp: upd_cb_def)
  qed
qed simp

section \<open>Transfers\<close>

lemma cb_inv_same: "cb_inv h xs \<Longrightarrow> cb_same h h' \<Longrightarrow> cb_inv h' xs"
  by (erule cb_inv_cong) (simp_all add: cb_same_def)

lemma sum_list_const: "\<forall>x \<in> set xs. f x = l \<Longrightarrow> sum_list (map f xs) = l * length xs"
  by (induction xs) auto

lemma clear_same: "cb_same h (clear_consumed xs h)"
  by (simp add: clear_consumed_spec cb_same_def)

lemma set_bytes_uniform:
  assumes "cb_inv h xs" and "this \<in> set xs" and "\<forall>x \<in> set xs. cb_len (h x) = l" and "0 < l"
    and "bytes \<le> l * length xs"
  shows "\<exists>h'. cb_set_bytes this bytes h = Some h' \<and> cb_inv h' xs \<and> cb_get_trans this h' = bytes
    \<and> (\<forall>i < length xs. consumed (h' (xs ! i)) = min l (bytes - i * l))
    \<and> cb_get_cur this h' = (if bytes div l < length xs then Some (xs ! (bytes div l)) else None)"
proof -
  let ?hp = "hd xs"
  have hp: "cb_head (h this) = ?hp" using assms(1,2) by (simp add: cb_inv_def)
  have tot: "bytes_total (h ?hp) = l * length xs" "l * length xs < 2 ^ 63"
    using assms(1) sum_list_const [OF assms(3)] by (auto simp: cb_inv_def)
  define h1 where "h1 = upd_cb ?hp (\<lambda>c. c\<lparr>bytes_trans := bytes\<rparr>) h"
  define h2 where "h2 = clear_consumed xs h1"
  define h3 where "h3 = consume_loop this ?hp xs bytes h2"
  have f1: "cb_next (h1 x) = cb_next (h x) \<and> cb_prev (h1 x) = cb_prev (h x) \<and> cb_head (h1 x) = cb_head (h x)
      \<and> cb_len (h1 x) = cb_len (h x) \<and> bytes_total (h1 x) = bytes_total (h x)
      \<and> cb_count (h1 x) = cb_count (h x) \<and> cb_end (h1 x) = cb_end (h x)" for x
    by (simp add: h1_def upd_cb_def)
  have i1: "cb_inv h1 xs" using assms(1) by (rule cb_inv_cong) (simp_all add: f1)
  have s2: "cb_same h1 h2" unfolding h2_def by (rule clear_same)
  have i2: "cb_inv h2 xs" by (rule cb_inv_same [OF i1 s2])
  have run: "cb_set_bytes this bytes h = Some h3"
  proof -
    have "upd_cb ?hp (\<lambda>c. c\<lparr>bytes_trans := if bytes > bytes_total c then bytes_total c else bytes\<rparr>) h = h1"
      using assms(5) tot(1) by (simp add: h1_def upd_cb_def)
    then show ?thesis
      using cb_inv_chain [OF i1] by (simp add: cb_set_bytes_def Let_def hp h3_def h2_def)
  qed
  have nx: "nexts (\<lambda>x. cb_next (h2 x)) (Some ?hp) xs" "distinct xs" "xs \<noteq> []"
    using i2 by (simp_all add: cb_inv_def)
  have ln: "\<forall>x \<in> set xs. cb_len (h2 x) = l \<and> consumed (h2 x) = 0" "cb_len (h2 this) = l"
    using assms(2,3) s2 f1 by (simp_all add: cb_same_def) (simp add: h2_def clear_consumed_spec)
  from consume_loop_uniform [OF nx ln assms(4,5) tot(2) h3_def] have
      c: "cb_same h2 h3" "\<forall>i < length xs. consumed (h3 (xs ! i)) = min l (bytes - i * l)"
        "cb_cur (h3 ?hp) = (if bytes div l < length xs then Some (xs ! (bytes div l)) else None)"
    by blast+
  have i3: "cb_inv h3 xs" by (rule cb_inv_same [OF i2 c(1)])
  then have hp3: "cb_head (h3 this) = ?hp" using assms(2) by (simp add: cb_inv_def)
  have "bytes_trans (h3 ?hp) = bytes" using c(1) s2 by (simp add: cb_same_def h1_def upd_cb_def)
  then show ?thesis using run c i3 hp3 by (auto simp: cb_get_trans_def cb_get_cur_def)
qed

lemma add_bytes_uniform:
  assumes "cb_inv h xs" and "this \<in> set xs" and "\<forall>x \<in> set xs. cb_len (h x) = l" and "0 < l"
    and "cb_get_trans this h = done" "done + bytes \<le> l * length xs"
  shows "\<exists>h'. cb_add_bytes this bytes h = Some h' \<and> cb_inv h' xs \<and> cb_get_trans this h' = done + bytes
    \<and> (\<forall>i < length xs. consumed (h' (xs ! i)) = min l (done + bytes - i * l))
    \<and> cb_get_cur this h' = (if (done + bytes) div l < length xs then Some (xs ! ((done + bytes) div l)) else None)"
proof -
  let ?hp = "hd xs"
  have hp: "cb_head (h this) = ?hp" using assms(1,2) by (simp add: cb_inv_def)
  have tot: "bytes_total (h ?hp) = l * length xs" "l * length xs < 2 ^ 63"
    using assms(1) sum_list_const [OF assms(3)] by (auto simp: cb_inv_def)
  define h1 where "h1 = upd_cb ?hp (\<lambda>c. c\<lparr>bytes_trans := done + bytes\<rparr>) h"
  have f1: "cb_next (h1 x) = cb_next (h x) \<and> cb_prev (h1 x) = cb_prev (h x) \<and> cb_head (h1 x) = cb_head (h x)
      \<and> cb_len (h1 x) = cb_len (h x) \<and> bytes_total (h1 x) = bytes_total (h x)
      \<and> cb_count (h1 x) = cb_count (h x) \<and> cb_end (h1 x) = cb_end (h x)" for x
    by (simp add: h1_def upd_cb_def)
  have i1: "cb_inv h1 xs" using assms(1) by (rule cb_inv_cong) (simp_all add: f1)
  have d: "bytes_trans (h ?hp) = done" using assms(5) by (simp add: cb_get_trans_def hp)
  have "size_t (int done + int bytes) = done + bytes"
    using assms(6) tot(2) by (subst size_t_id) (auto simp: nat_add_distrib)
  then have "cb_add_bytes this bytes h = cb_set_bytes this (done + bytes) h1"
    using assms(6) d tot(1) by (simp add: cb_add_bytes_def Let_def hp h1_def upd_cb_def)
  then show ?thesis
    using set_bytes_uniform [OF i1 assms(2) _ assms(4,6)] assms(3) f1 by auto
qed

text \<open>
  With messages of different lengths the wrong \<open>len\<close> matters: three messages of lengths
  \<open>a < b\<close> and \<open>c\<close>, sent from the head.
\<close>

lemma add_bytes_loses:
  assumes inv: "cb_inv h [x, y, z]" and len: "cb_len (h x) = a" "cb_len (h y) = b" "cb_len (h z) = c"
    and ab: "a < b" "b < a + c" and z: "bytes_trans (h x) = 0"
  shows "\<exists>h'. cb_add_bytes x (2 * a + c) h = Some h' \<and> cb_get_cur x h' = None
    \<and> cb_get_trans x h' < cb_get_total x h' \<and> consumed (h' y) < cb_len (h' y)"
proof -
  have d: "x \<noteq> y" "x \<noteq> z" "y \<noteq> z" and hp: "cb_head (h x) = x" "cb_head (h y) = x"
    and tot: "bytes_total (h x) = a + b + c" "a + b + c < 2 ^ 63"
    and nx: "cb_next (h x) = Some y" "cb_next (h y) = Some z" "cb_next (h z) = None"
    using inv len by (auto simp: cb_inv_def)
  let ?n = "2 * a + c"
  have sz: "size_t (int ?n) = ?n" "size_t (int ?n - int a) = a + c" "size_t (int (a + c) - int a) = c"
    using tot ab by (auto simp: size_t_id nat_add_distrib)
  define h1 where "h1 = upd_cb x (\<lambda>c. c\<lparr>bytes_trans := ?n\<rparr>) h"
  have i1: "cb_inv h1 [x, y, z]" using inv by (rule cb_inv_cong) (auto simp: h1_def upd_cb_def)
  have ch: "chain h1 (Some x) = Some [x, y, z]" using cb_inv_chain [OF i1] by simp
  have same: "upd_cb x (\<lambda>c. c\<lparr>bytes_trans := ?n\<rparr>) h1 = h1" by (simp add: h1_def upd_cb_def)
  have a1: "cb_add_bytes x ?n h = cb_set_bytes x ?n h1"
    using z sz(1) tot ab(1) by (simp add: cb_add_bytes_def Let_def hp h1_def upd_cb_def)
  have f: "bytes_trans (h1 x) = ?n" "cb_head (h1 x) = x" "bytes_total (h1 x) = a + b + c"
    "cb_len (h1 x) = a" "cb_len (h1 y) = b" "cb_len (h1 z) = c" "cb_next (h1 z) = None"
    using d hp tot len nx by (simp_all add: h1_def upd_cb_def)
  have a2: "cb_set_bytes x ?n h1 = Some (consume_loop x x [x, y, z] ?n (clear_consumed [x, y, z] h1))"
  proof -
    have "upd_cb x (\<lambda>c. c\<lparr>bytes_trans := if ?n > bytes_total c then bytes_total c else ?n\<rparr>) h1 = h1"
      using f(1,3) ab(1) by (simp add: upd_cb_def) (metis (no_types, lifting) f(1) fun_upd_triv same upd_cb_def)
    then show ?thesis
      using ch by (simp add: cb_set_bytes_def Let_def f(2) del: consume_loop.simps clear_consumed.simps)
  qed
  let ?h3 = "consume_loop x x [x, y, z] ?n (clear_consumed [x, y, z] h1)"
  have ac: "a < 2 * a + c" using ab by simp
  have r: "?h3 = upd_cb x (\<lambda>c. c\<lparr>cb_cur := None\<rparr>) (upd_cb z (\<lambda>u. u\<lparr>consumed := c\<rparr>)
      (upd_cb y (\<lambda>u. u\<lparr>consumed := a\<rparr>) (upd_cb x (\<lambda>u. u\<lparr>consumed := a\<rparr>) (clear_consumed [x, y, z] h1))))"
    using d f sz ab ac by (simp add: upd_cb_def clear_consumed_spec)
  show ?thesis
    unfolding a1 a2 r
    using d f ab by (simp add: cb_get_cur_def cb_get_trans_def cb_get_total_def upd_cb_def clear_consumed_spec)
qed

section \<open>Joining and splitting\<close>

lemma nexts_link:
  "nexts nx p xs \<Longrightarrow> nexts nx q ys \<Longrightarrow> xs \<noteq> [] \<Longrightarrow> distinct (xs @ ys) \<Longrightarrow>
     nexts (nx(last xs := q)) p (xs @ ys)"
proof (induction xs arbitrary: p)
  case (Cons x xs)
  then show ?case
    by (cases "xs = []") (auto simp: nexts_cong [of ys "\<lambda>a. if a = x then q else nx a" nx])
qed simp

lemma prevs_link:
  assumes "prevs pv None xs" "prevs pv None ys" "xs \<noteq> []" "ys \<noteq> []" "distinct (xs @ ys)"
  shows "prevs (pv(hd ys := Some (last xs))) None (xs @ ys)"
proof -
  obtain y zs where ys: "ys = y # zs" using assms(4) by (cases ys) auto
  have "y \<notin> set xs" "y \<notin> set zs" using assms(5) ys by auto
  then show ?thesis using assms ys by (simp add: prevs_append)
qed

lemma append_joins:
  assumes ix: "cb_inv h xs" and iy: "cb_inv h ys" and dis: "set xs \<inter> set ys = {}"
    and un: "bytes_trans (h (hd ys)) = 0"
    and lim: "bytes_total (h (hd xs)) + bytes_total (h (hd ys)) < 2 ^ 63" "length xs + length ys < 2 ^ 63"
  shows "\<exists>h'. cb_append (last xs) (hd ys) h = Some (True, h') \<and> cb_inv h' (xs @ ys)
    \<and> (\<forall>x. cb_len (h' x) = cb_len (h x) \<and> cb_msg (h' x) = cb_msg (h x) \<and> consumed (h' x) = consumed (h x))
    \<and> cb_get_cur (last xs) h' = cb_cur (h (hd xs))"
proof -
  let ?t = "last xs" and ?b = "hd ys" and ?hp = "hd xs"
  have ne: "xs \<noteq> []" "ys \<noteq> []" using ix iy by (simp_all add: cb_inv_def)
  then have mem: "?t \<in> set xs" "?hp \<in> set xs" "?b \<in> set ys" by simp_all
  then have dif: "?b \<noteq> ?hp" "?b \<noteq> ?t" using dis by auto
  have hds: "cb_head (h ?t) = ?hp" "cb_head (h ?b) = ?b" using ix iy mem by (simp_all add: cb_inv_def)
  have tail: "cb_next (h ?t) = None"
    using nexts_append [of "\<lambda>x. cb_next (h x)" "Some ?hp" "butlast xs" ?t "[]"] ix ne by (simp add: cb_inv_def)
  have front: "cb_prev (h ?b) = None" using iy ne by (cases ys) (auto simp: cb_inv_def)
  define h2 where "h2 = upd_cb ?b (\<lambda>c. c\<lparr>cb_prev := Some ?t\<rparr>) (upd_cb ?t (\<lambda>c. c\<lparr>cb_next := Some ?b\<rparr>) h)"
  define h3 where "h3 = upd_cb ?hp (\<lambda>c. c\<lparr>bytes_total := size_t (int (bytes_total c) + int (bytes_total (h2 ?b))),
      cb_count := size_t (int (cb_count c) + int (cb_count (h2 ?b))), cb_end := cb_end (h2 ?b)\<rparr>) h2"
  have t2: "bytes_total (h2 x) = bytes_total (h x)" "cb_count (h2 x) = cb_count (h x)" "cb_end (h2 x) = cb_end (h x)" for x
    by (simp_all add: h2_def upd_cb_def)
  have tots: "bytes_total (h ?b) = sum_list (map (\<lambda>x. cb_len (h x)) ys)" "cb_count (h ?b) = length ys"
      "cb_end (h ?b) = last ys" "bytes_total (h ?hp) = sum_list (map (\<lambda>x. cb_len (h x)) xs)"
      "cb_count (h ?hp) = length xs"
    using ix iy by (simp_all add: cb_inv_def)
  have f3: "cb_len (h3 x) = cb_len (h x)" "cb_msg (h3 x) = cb_msg (h x)" "consumed (h3 x) = consumed (h x)"
      "cb_cur (h3 x) = cb_cur (h x)" for x
    by (simp_all add: h3_def h2_def upd_cb_def)
  have hp3: "bytes_total (h3 ?hp) = bytes_total (h ?hp) + bytes_total (h ?b)"
      "cb_count (h3 ?hp) = length xs + length ys" "cb_end (h3 ?hp) = last ys"
    using lim tots t2 by (simp_all add: h3_def upd_cb_def size_t_id nat_add_distrib)
  have "(\<lambda>x. cb_next (h3 x)) = (\<lambda>x. cb_next (h x))(?t := Some ?b)"
    using dif by (auto simp: h3_def h2_def upd_cb_def)
  then have nx: "nexts (\<lambda>x. cb_next (h3 x)) (Some ?hp) (xs @ ys)"
    using nexts_link [of "\<lambda>x. cb_next (h x)" "Some ?hp" xs "Some ?b" ys] ix iy dis ne by (simp add: cb_inv_def)
  have "(\<lambda>x. cb_prev (h3 x)) = (\<lambda>x. cb_prev (h x))(?b := Some ?t)"
    using dif by (auto simp: h3_def h2_def upd_cb_def)
  then have pv: "prevs (\<lambda>x. cb_prev (h3 x)) None (xs @ ys)"
    using prevs_link [of "\<lambda>x. cb_prev (h x)" xs ys] ix iy dis ne by (simp add: cb_inv_def)
  let ?h4 = "set_heads ?hp (xs @ ys) h3"
  have run: "cb_append ?t ?b h = Some (True, ?h4)"
    using dif hds tail front un chain_nexts [OF nx]
    by (simp add: cb_append_def Let_def h3_def h2_def)
  have f4: "cb_next (?h4 x) = cb_next (h3 x)" "cb_prev (?h4 x) = cb_prev (h3 x)" "cb_len (?h4 x) = cb_len (h x)"
      "cb_msg (?h4 x) = cb_msg (h x)" "consumed (?h4 x) = consumed (h x)" "bytes_total (?h4 x) = bytes_total (h3 x)"
      "cb_count (?h4 x) = cb_count (h3 x)" "cb_end (?h4 x) = cb_end (h3 x)" "cb_cur (?h4 x) = cb_cur (h x)" for x
    by (simp_all add: set_heads_spec f3)
  have head4: "\<forall>x \<in> set (xs @ ys). cb_head (?h4 x) = ?hp" by (simp add: set_heads_spec)
  have "cb_inv ?h4 (xs @ ys)"
    unfolding cb_inv_def using nx pv ne dis ix iy lim tots hp3 head4
    by (simp add: f4 cb_inv_def)
  moreover have "cb_get_cur ?t ?h4 = cb_cur (h ?hp)" using mem by (simp add: cb_get_cur_def f4 head4)
  ultimately show ?thesis using run f4 by blast
qed

lemma construct_all_spec:
  "distinct xs \<Longrightarrow> construct_all keep xs h = (\<lambda>x. if x \<in> set xs
     then cb_construct x (if keep then cb_msg (h x) else 0) (if keep then cb_len (h x) else 0) h x else h x)"
  by (induction xs arbitrary: h) (auto simp: fun_eq_iff cb_construct_def)

lemma unlink_separates:
  assumes "cb_inv h xs" and "this \<in> set xs"
  shows "\<exists>h'. cb_unlink this h = Some h' \<and> (\<forall>x \<in> set xs. cb_inv h' [x]
    \<and> cb_msg (h' x) = cb_msg (h x) \<and> cb_len (h' x) = cb_len (h x) \<and> consumed (h' x) = 0 \<and> cb_cur (h' x) = Some x)"
proof -
  have hp: "cb_head (h this) = hd xs" and d: "distinct xs" using assms by (simp_all add: cb_inv_def)
  have "cb_len (h x) < 2 ^ 63" if "x \<in> set xs" for x
  proof -
    have "cb_len (h x) \<le> sum_list (map (\<lambda>x. cb_len (h x)) xs)"
      using that by (intro member_le_sum_list) auto
    then show ?thesis using assms(1) by (auto simp: cb_inv_def)
  qed
  then show ?thesis
    using cb_inv_chain [OF assms(1)] d
    by (auto simp: cb_unlink_def hp construct_all_spec cb_inv_def cb_construct_def)
qed

end
