(* ===== verification/Socket_Ops.thy ===== *)
theory Socket_Ops
  imports CBuffer Epoll_Props
begin

unbundle bit_operations_syntax

text \<open>
  Sockets over the reactor: \<open>do_work\<close> of \<open>socket_read_op.hpp\<close> and \<open>socket_write_op.hpp\<close>
  (\<open>recvmsg\<close> and \<open>sendmsg\<close> are scripts of results) and \<open>socket_object.cc\<close> under
  \<open>deviceagent/2deviceagent/io/object/\<close>. Results of the other system calls are arguments.
\<close>

section \<open>The operations' work\<close>

abbreviation MAX_IOVEC_NUM :: nat where "MAX_IOVEC_NUM \<equiv> 16"

text \<open>
  The loop that repeats an interrupted call: a script of results and errno values, where a
  result of 0 or more leaves errno alone. \<open>None\<close> is a script that ends too early.
\<close>

fun sock_call :: "(int \<times> int) list \<Rightarrow> int \<Rightarrow> (int \<times> int) option" where
  "sock_call [] err = None"
| "sock_call ((bytes, e) # rest) err =
     (let err' = (if bytes < 0 then e else err) in
      if bytes < 0 \<and> err' = EINTR then sock_call rest err' else Some (bytes, err'))"

text \<open>The vector handed to the system: address and length of what each node has left.\<close>

definition msg_vecs :: "cheap \<Rightarrow> nat list \<Rightarrow> (nat \<times> nat) list" where
  "msg_vecs h items = map (\<lambda>x. (cb_msg (h x) + consumed (h x), size_t (int (cb_len (h x)) - int (consumed (h x))))) items"

text \<open>\<open>WOverflow\<close>: more nodes than the local array \<open>vecs\<close> holds.\<close>

datatype work_res = WOverflow | WDone (w_ret: bool) (w_ec: int) (w_bytes: nat) (w_vecs: "(nat \<times> nat) list") (w_heap: cheap)

definition op_do_work :: "(int \<times> int) list \<Rightarrow> int \<Rightarrow> nat \<Rightarrow> cheap \<Rightarrow> work_res option" where
  "op_do_work script err buf h =
     Option.bind (chain h (cb_get_cur buf h)) (\<lambda>items.
       if length items > MAX_IOVEC_NUM then Some WOverflow
       else Option.bind (sock_call script err) (\<lambda>(bytes, err').
         if bytes \<le> 0 then Some (WDone (err' \<noteq> EAGAIN) err' 0 (msg_vecs h items) h)
         else map_option (\<lambda>h'. WDone True 0 (nat bytes) (msg_vecs h items) h')
                (cb_add_bytes buf (nat bytes) h)))"

definition read_do_work :: "(int \<times> int) list \<Rightarrow> int \<Rightarrow> nat \<Rightarrow> cheap \<Rightarrow> work_res option" where
  "read_do_work script err buf h = op_do_work script err buf h"

definition write_do_work :: "(int \<times> int) list \<Rightarrow> int \<Rightarrow> nat \<Rightarrow> cheap \<Rightarrow> work_res option" where
  "write_do_work script err buf h = op_do_work script err buf h"

text \<open>\<open>do_callback\<close>: what the user's handler gets, unless the operation is destroyed.\<close>

definition do_callback :: "int \<Rightarrow> nat \<Rightarrow> bool \<Rightarrow> (int \<times> nat) option" where
  "do_callback ec bytes destroy = (if \<not> destroy then Some (ec, bytes) else None)"

section \<open>The socket object\<close>

record sobj =
  sd :: int
  sdata :: "nat option"

definition is_open :: "sobj \<Rightarrow> bool" where
  "is_open k \<longleftrightarrow> sd k \<noteq> - 1"

definition sock_do_connect :: "sobj \<Rightarrow> int \<Rightarrow> int \<Rightarrow> int \<Rightarrow> int" where
  "sock_do_connect k connect_r poll_r err =
     (if \<not> is_open k then - 1
      else if connect_r = 0 then (if poll_r \<ge> 0 then 0 else err)
      else err)"

definition sock_do_open :: "nat \<Rightarrow> int \<Rightarrow> int \<Rightarrow> sobj \<Rightarrow> 's epl \<Rightarrow> int \<times> sobj \<times> 's epl" where
  "sock_do_open fresh socket_r err k s =
     (if is_open k then (- 1, k, s)
      else if socket_r < 0 then (err, k\<lparr>sd := - 1\<rparr>, s)
      else (let k1 = k\<lparr>sd := socket_r\<rparr>;
                (result, x, s1) = register_descriptor fresh socket_r s
            in (result, k1\<lparr>sdata := Some x\<rparr>, s1)))"

text \<open>\<open>detach\<close> with \<open>closing\<close>, then \<open>close\<close>, which also ends the kernel's interest.\<close>

definition sock_do_close :: "'s io_ops \<Rightarrow> sobj \<Rightarrow> 's epl \<Rightarrow> sobj \<times> 's epl" where
  "sock_do_close io_s k s =
     (if \<not> is_open k then (k, s)
      else (let (p, s1) = deregister_descriptor io_s (sd k) (sdata k) True s
            in (k\<lparr>sd := - 1, sdata := p\<rparr>, s1\<lparr>kern := (kern s1)(sd k := None)\<rparr>)))"

abbreviation O_NONBLOCK :: int where "O_NONBLOCK \<equiv> 2048"

text \<open>\<open>getfl\<close> and \<open>setfl\<close> are the results of the two \<open>fcntl\<close> calls, \<open>err\<close> the errno of a failure.\<close>

definition sock_set_nonblocking :: "sobj \<Rightarrow> bool \<Rightarrow> int \<Rightarrow> (int \<Rightarrow> int) \<Rightarrow> int \<Rightarrow> int" where
  "sock_set_nonblocking k nonblocking getfl setfl err =
     (if \<not> is_open k then - 1
      else
        let flg = (if nonblocking then getfl OR O_NONBLOCK else getfl AND NOT O_NONBLOCK);
            result = (if getfl \<ge> 0 then setfl flg else getfl)
        in if result < 0 then err else 0)"

definition sock_get_nonblocking :: "sobj \<Rightarrow> int \<Rightarrow> int \<Rightarrow> int \<times> bool option" where
  "sock_get_nonblocking k getfl err =
     (if \<not> is_open k then (- 1, None)
      else if getfl \<ge> 0 then (0, Some (getfl AND O_NONBLOCK \<noteq> 0)) else (err, None))"

definition sock_set_option :: "sobj \<Rightarrow> int \<Rightarrow> int \<Rightarrow> int" where
  "sock_set_option k setsockopt_r err =
     (if \<not> is_open k then - 1 else if setsockopt_r = 0 then 0 else err)"

text \<open>
  \<open>get_option\<close>: the system call stores at most \<open>len\<close> bytes of the option's value \<open>val\<close> over
  \<open>opt\<close>, and \<open>len\<close> is 0.
\<close>

definition sock_get_option :: "sobj \<Rightarrow> int \<Rightarrow> int \<Rightarrow> byte list \<Rightarrow> byte list \<Rightarrow> int \<times> byte list" where
  "sock_get_option k getsockopt_r err opt val =
     (if \<not> is_open k then (- 1, opt)
      else let len = 0 in
        if getsockopt_r = 0 then (0, take len val @ drop (length (take len val)) opt) else (err, opt))"

definition sock_start_op ::
  "'s io_ops \<Rightarrow> (nat \<Rightarrow> bool) \<Rightarrow> nat \<Rightarrow> sobj \<Rightarrow> int \<Rightarrow> (int \<Rightarrow> int) \<Rightarrow> int \<Rightarrow> nat \<Rightarrow> bool \<Rightarrow> bool
     \<Rightarrow> 's epl \<Rightarrow> 's epl" where
  "sock_start_op io_s do_work kind k getfl setfl e op nonblocking notask s =
     (if notask then upd_io (io_post_immediate io_s op) s
      else
        let (err, blocking) = sock_get_nonblocking k getfl e;
            sock_internal_blocking = (blocking = Some True) in
        if err = 0 \<and> sock_internal_blocking
        then start_op io_s do_work kind (sd k) (sdata k) op nonblocking s
        else
          let ec = sock_set_nonblocking k True getfl setfl e;
              s1 = set_ec op ec s in
          if ec = 0 then start_op io_s do_work kind (sd k) (sdata k) op nonblocking s1
          else upd_io (io_post_immediate io_s op) s1)"

definition sock_start_write_op where
  "sock_start_write_op io_s do_work k getfl setfl e op nonblocking notask s =
     sock_start_op io_s do_work op_write k getfl setfl e op nonblocking notask s"

definition sock_start_read_op where
  "sock_start_read_op io_s do_work k getfl setfl e op nonblocking notask s =
     sock_start_op io_s do_work op_read k getfl setfl e op nonblocking notask s"

definition sock_async_write where
  "sock_async_write io_s do_work k getfl setfl e op buf h s =
     sock_start_write_op io_s do_work k getfl setfl e op True (cb_get_total buf h = cb_get_trans buf h) s"

definition sock_async_read where
  "sock_async_read io_s do_work k getfl setfl e op buf h s =
     sock_start_read_op io_s do_work k getfl setfl e op True (cb_get_total buf h = cb_get_trans buf h) s"

section \<open>What they guarantee\<close>

context io_service
begin

lemma sock_start_ledger:
  assumes "ep_inv ls fs s" and "sdata k = None \<or> (\<exists>x. sdata k = Some x \<and> x \<in> set ls)" and "kind < op_max"
    and "s' = sock_start_op io_s w kind k getfl setfl e op nb notask s"
  shows "ep_inv ls fs s' \<and> pend ls s' + held (io s') = add_mset op (pend ls s + held (io s))
     \<and> balance (io s') = balance (io s) + 1"
proof -
  have p: "ep_inv ls fs (upd_io (io_post_immediate io_s op) s0)
      \<and> pend ls (upd_io (io_post_immediate io_s op) s0) + held (io (upd_io (io_post_immediate io_s op) s0))
        = add_mset op (pend ls s + held (io s))
      \<and> balance (io (upd_io (io_post_immediate io_s op) s0)) = balance (io s) + 1"
    if "ep_inv ls fs s0" "sets s0 = sets s" "io s0 = io s" for s0
    using that by (simp add: ep_inv_def pend_def held_immediate balance_immediate)
  have q: "ep_inv ls fs s2 \<and> pend ls s2 + held (io s2) = add_mset op (pend ls s + held (io s))
     \<and> balance (io s2) = balance (io s) + 1"
    if "ep_inv ls fs s0" "sets s0 = sets s" "io s0 = io s"
      "s2 = start_op io_s w kind (sd k) (sdata k) op nb s0" for s0 s2
    using start_op_ledger [OF that(1) assms(2,3) that(4)] that by (simp add: pend_def)
  have e1: "ep_inv ls fs (set_ec op ec s)" for ec using assms(1) by (simp add: ep_inv_def)
  show ?thesis
    using assms(1,4) p [of s] p [OF e1] q [of s] q [OF e1]
    by (auto simp: sock_start_op_def Let_def split: if_splits prod.splits)
qed

end

end
