(* ===== verification/Socket_Props.thy ===== *)
theory Socket_Props
  imports Socket_Ops
begin

text \<open>
  Properties of the message chains and of the socket operations over them.
\<close>

section \<open>Chains for the witnesses\<close>

text \<open>Nodes 1, 2, ... with the given lengths; the message of node \<open>i\<close> is at address \<open>100 * i\<close>.\<close>

definition chain_of :: "nat list \<Rightarrow> cheap" where
  "chain_of lens p = \<lparr>cb_msg = 100 * p, cb_len = (if 1 \<le> p \<and> p \<le> length lens then lens ! (p - 1) else 0),
     consumed = 0, bytes_trans = 0, bytes_total = sum_list lens, cb_count = length lens,
     cb_next = (if p < length lens then Some (p + 1) else None),
     cb_prev = (if 1 < p then Some (p - 1) else None), cb_head = 1, cb_end = length lens, cb_cur = Some p\<rparr>"

lemma chain_of_inv2: "l + m < 2 ^ 63 \<Longrightarrow> cb_inv (chain_of [l, m]) [1, 2]"
  by (simp add: cb_inv_def chain_of_def)

lemma chain_of_inv3: "l + m + n < 2 ^ 63 \<Longrightarrow> cb_inv (chain_of [l, m, n]) [1, 2, 3]"
  by (simp add: cb_inv_def chain_of_def numeral_3_eq_3)

lemma chain_inv_one: "cb_inv (cb_construct p d 5 h) [p]"
  by (rule cb_inv_construct) simp

section \<open>Properties\<close>

text \<open>
  Accounting of a transfer over messages of equal length: after \<open>add_bytes\<close> each message's
  \<open>consumed\<close> is its share of the bytes moved so far, and \<open>cur\<close> is the first message with
  something left, or null when all is moved.
\<close>

theorem add_bytes_accounts:
  assumes "cb_inv h xs" and "this \<in> set xs" and "\<forall>x \<in> set xs. cb_len (h x) = l" and "0 < l"
    and "cb_get_trans this h = done" and "done + bytes \<le> l * length xs"
  shows "\<exists>h'. cb_add_bytes this bytes h = Some h' \<and> cb_inv h' xs \<and> cb_get_trans this h' = done + bytes
    \<and> (\<forall>i < length xs. consumed (h' (xs ! i)) = min l (done + bytes - i * l))
    \<and> cb_get_cur this h' = (if (done + bytes) div l < length xs then Some (xs ! ((done + bytes) div l)) else None)"
  using add_bytes_uniform [OF assms] .

theorem add_bytes_accounts_witness:
  "\<exists>h'. cb_add_bytes 1 6 (chain_of [4, 4]) = Some h' \<and> consumed (h' 1) = 4 \<and> consumed (h' 2) = 2
     \<and> cb_get_cur 1 h' = Some 2"
proof -
  have i: "cb_inv (chain_of [4, 4]) [1, 2]" by (rule chain_of_inv2) simp
  have "1 \<in> set [1, 2::nat]" "\<forall>x \<in> set [1, 2]. cb_len (chain_of [4, 4] x) = 4" "(0::nat) < 4"
    "cb_get_trans 1 (chain_of [4, 4]) = 0" "0 + 6 \<le> 4 * length [1, 2::nat]"
    by (simp_all add: chain_of_def cb_get_trans_def)
  from add_bytes_accounts [OF i this] obtain h' where
      h: "cb_add_bytes 1 6 (chain_of [4, 4]) = Some h'"
        "\<forall>i < length [1, 2::nat]. consumed (h' ([1, 2] ! i)) = min 4 (0 + 6 - i * 4)"
        "cb_get_cur 1 h' = Some 2" by auto
  from h(2) have "consumed (h' ([1, 2] ! 0)) = 4" "consumed (h' ([1, 2] ! 1)) = 2"
    by (auto simp del: nth_Cons_0 nth_Cons_Suc)
  with h show ?thesis by auto
qed

text \<open>
  With messages of different lengths the accounting is wrong, because \<open>set_bytes\<close> uses the
  length of the message it was called on: for three messages of lengths \<open>a < b\<close> and \<open>c > b - a\<close>,
  moving \<open>2 a + c\<close> bytes makes \<open>cur\<close> null, so the rest of the second message is never sent
  although the totals say that bytes are missing.
\<close>

theorem add_bytes_loses_rest:
  assumes "cb_inv h [x, y, z]" and "cb_len (h x) = a" "cb_len (h y) = b" "cb_len (h z) = c"
    and "a < b" "b < a + c" and "bytes_trans (h x) = 0"
  shows "\<exists>h'. cb_add_bytes x (2 * a + c) h = Some h' \<and> cb_get_cur x h' = None
    \<and> cb_get_trans x h' < cb_get_total x h' \<and> consumed (h' y) < cb_len (h' y)"
  using add_bytes_loses [OF assms] .

theorem add_bytes_loses_rest_witness:
  "\<exists>h'. cb_add_bytes 1 9 (chain_of [2, 5, 5]) = Some h' \<and> cb_get_cur 1 h' = None
     \<and> cb_get_trans 1 h' < cb_get_total 1 h'"
proof -
  have i: "cb_inv (chain_of [2, 5, 5]) [1, 2, 3]" by (rule chain_of_inv3) simp
  have "cb_len (chain_of [2, 5, 5] 1) = 2" "cb_len (chain_of [2, 5, 5] 2) = 5"
    "cb_len (chain_of [2, 5, 5] 3) = 5" "(2::nat) < 5" "(5::nat) < 2 + 5" "bytes_trans (chain_of [2, 5, 5] 1) = 0"
    by (simp_all add: chain_of_def numeral_3_eq_3)
  from add_bytes_loses_rest [OF i this] show ?thesis by auto
qed

text \<open>
  \<open>append\<close> on the tail of a chain joins another chain of which nothing is consumed: the
  result is the well-formed chain of both, with the sums of the totals and the second chain's
  end, and no message is touched. The position \<open>cur\<close> stays, so if the first chain was consumed
  completely the messages joined to it are not reached.
\<close>

theorem append_joins_chains:
  assumes "cb_inv h xs" and "cb_inv h ys" and "set xs \<inter> set ys = {}" and "bytes_trans (h (hd ys)) = 0"
    and "bytes_total (h (hd xs)) + bytes_total (h (hd ys)) < 2 ^ 63" "length xs + length ys < 2 ^ 63"
  shows "\<exists>h'. cb_append (last xs) (hd ys) h = Some (True, h') \<and> cb_inv h' (xs @ ys)
    \<and> (\<forall>x. cb_len (h' x) = cb_len (h x) \<and> cb_msg (h' x) = cb_msg (h x) \<and> consumed (h' x) = consumed (h x))
    \<and> cb_get_cur (last xs) h' = cb_cur (h (hd xs))"
  using append_joins [OF assms] .

theorem append_joins_chains_witness:
  "\<exists>h'. cb_append 1 2 (cb_construct 2 200 5 (cb_construct 1 100 5 (chain_of []))) = Some (True, h')
     \<and> cb_inv h' [1, 2]"
proof -
  let ?h = "cb_construct 2 200 5 (cb_construct 1 100 5 (chain_of []))"
  have i: "cb_inv ?h [1]" "cb_inv ?h [2]"
    by (simp_all add: cb_inv_def cb_construct_def)
  from append_joins_chains [OF i] show ?thesis by (auto simp: cb_construct_def)
qed

text \<open>
  The answer of \<open>do_work\<close> depends on errno even when the call did not fail: it asks to be
  tried again exactly when nothing was moved and errno is \<open>EAGAIN\<close>. So an end of stream (a
  result of 0) seen while errno still holds an earlier \<open>EAGAIN\<close> is retried for ever instead of
  being reported.
\<close>

theorem do_work_answer:
  assumes "chain h (cb_get_cur buf h) = Some items" and "length items \<le> MAX_IOVEC_NUM"
    and "sock_call script err = Some (bytes, err')" and "bytes \<le> 0"
  shows "read_do_work script err buf h = Some (WDone (err' \<noteq> EAGAIN) err' 0 (msg_vecs h items) h)
    \<and> (script = [(0, e)] \<and> err = EAGAIN \<longrightarrow> read_do_work script err buf h = Some (WDone False EAGAIN 0 (msg_vecs h items) h))"
  using assms by (auto simp: read_do_work_def op_do_work_def)

theorem do_work_answer_witness:
  "read_do_work [(- 1, EINTR), (0, 0)] EAGAIN 1 (chain_of [4, 4])
     = Some (WDone True EINTR 0 [(100, 4), (200, 4)] (chain_of [4, 4]))
   \<and> read_do_work [(0, 0)] EAGAIN 1 (chain_of [4, 4])
     = Some (WDone False EAGAIN 0 [(100, 4), (200, 4)] (chain_of [4, 4]))"
proof -
  have c: "chain (chain_of [4, 4]) (cb_get_cur 1 (chain_of [4, 4])) = Some [1, 2]"
    using cb_inv_chain [OF chain_of_inv2 [of 4 4]] by (simp add: cb_get_cur_def chain_of_def)
  have v: "msg_vecs (chain_of [4, 4]) [1, 2] = [(100, 4), (200, 4)]"
    by (simp add: msg_vecs_def chain_of_def size_t_def to_size_def)
  have l: "length [1, 2::nat] \<le> MAX_IOVEC_NUM" by simp
  show ?thesis
    using do_work_answer [OF c l, of "[(- 1, EINTR), (0, 0)]" EAGAIN 0 EINTR]
      do_work_answer [OF c l, of "[(0, 0)]" EAGAIN 0 EAGAIN]
    by (simp add: v [simplified])
qed

text \<open>
  C22. Starting an asynchronous write or read on a socket object keeps the operation on every
  path (buffer already transferred, socket closed or not switchable to non-blocking, handed to
  the reactor): it is pending or held exactly once and counted once.
\<close>

theorem async_start_conserves:
  assumes "ep_inv ls fs s" and "sdata k = None \<or> (\<exists>x. sdata k = Some x \<and> x \<in> set ls)"
    and "s' = sock_async_write (tio_ops cs) w k getfl setfl e op buf h s
       \<or> s' = sock_async_read (tio_ops cs) w k getfl setfl e op buf h s"
  shows "ep_inv ls fs s' \<and> pend ls s' + tio_held cs (io s') = add_mset op (pend ls s + tio_held cs (io s))
     \<and> tio_balance cs (io s') = tio_balance cs (io s) + 1"
proof -
  have "\<exists>kind notask. kind < op_max \<and> s' = sock_start_op (tio_ops cs) w kind k getfl setfl e op True notask s"
    using assms(3)
  proof
    assume "s' = sock_async_write (tio_ops cs) w k getfl setfl e op buf h s"
    then show ?thesis
      unfolding sock_async_write_def sock_start_write_op_def by (intro exI [of _ op_write]) auto
  next
    assume "s' = sock_async_read (tio_ops cs) w k getfl setfl e op buf h s"
    then show ?thesis
      unfolding sock_async_read_def sock_start_read_op_def by (intro exI [of _ op_read]) auto
  qed
  then show ?thesis using tio.sock_start_ledger [OF assms(1,2)] by blast
qed

theorem async_start_conserves_witness:
  "tio_balance [] (io (sock_async_write (tio_ops []) (\<lambda>_. False) \<lparr>sd = - 1, sdata = None\<rparr> 0 (\<lambda>_. 0) 9 14 1
       (chain_of [4, 4]) \<lparr>ep_shutdown = False, kern = \<lambda>_. None, kerr = \<lambda>_. 0, read_descriptor = 3,
     objs = pool_empty, sets = \<lambda>_. new_oset, ec_of = \<lambda>_. 0, io = tio_init 7 50 0\<rparr>)) = 1"
proof -
  let ?s = "\<lparr>ep_shutdown = False, kern = \<lambda>_. None, kerr = \<lambda>_. 0, read_descriptor = 3,
     objs = pool_empty, sets = \<lambda>_. new_oset, ec_of = \<lambda>_. 0, io = tio_init 7 50 0\<rparr>"
  have "ep_inv [] [] ?s" by (simp add: ep_inv_def)
  from async_start_conserves [OF this, of "\<lparr>sd = - 1, sdata = None\<rparr>" _ "[]" "\<lambda>_. False" 0 "\<lambda>_. 0" 9 14 1
      "chain_of [4, 4]", OF _ disjI1 [OF refl]]
  have "tio_balance [] (io (sock_async_write (tio_ops []) (\<lambda>_. False) \<lparr>sd = - 1, sdata = None\<rparr> 0 (\<lambda>_. 0) 9 14 1
       (chain_of [4, 4]) ?s)) = tio_balance [] (io ?s) + 1" by simp
  then show ?thesis by (simp add: tio_balance_def tio_private_def tio_init_def)
qed

end
