(* ===== verification/Chat.thy ===== *)
theory Chat
  imports Prelude_C
begin

text \<open>
  The chat example under \<open>chat/\<close>: the message format of \<open>chat_message.hpp\<close>, the room and the
  sessions of \<open>chat_server.cpp\<close>, and the client of \<open>chat_client.cpp\<close>. The asynchronous
  operations of the network library are fields: what is being read, and the bytes of the one
  write in flight; a completion is the call of the handler, with the error flag and the bytes
  read as arguments. A read delivers exactly the bytes asked for or an error.
\<close>

section \<open>Messages\<close>

abbreviation header_length :: nat where "header_length \<equiv> 4"
abbreviation max_body_length :: nat where "max_body_length \<equiv> 512"

record chat_message =
  msg_data :: string
  body_length :: nat

definition new_message :: "string \<Rightarrow> chat_message" where
  "new_message garbage = \<lparr>msg_data = garbage, body_length = 0\<rparr>"

definition msg_length :: "chat_message \<Rightarrow> nat" where
  "msg_length m = header_length + body_length m"

definition body :: "chat_message \<Rightarrow> string" where
  "body m = drop header_length (msg_data m)"

definition set_body_length :: "nat \<Rightarrow> chat_message \<Rightarrow> chat_message" where
  "set_body_length new_length m =
     m\<lparr>body_length := (if new_length > max_body_length then max_body_length else new_length)\<rparr>"

definition decode_header :: "chat_message \<Rightarrow> bool \<times> chat_message" where
  "decode_header m =
     (let header = cstr (take header_length (msg_data m));
          n = nat (to_size (atoi header)) in
      if n > max_body_length then (False, m\<lparr>body_length := 0\<rparr>) else (True, m\<lparr>body_length := n\<rparr>))"

text \<open>\<open>sprintf(header, "%4d", n)\<close>\<close>

definition fmt4d :: "nat \<Rightarrow> string" where
  "fmt4d n = replicate (4 - length (dec_str n)) CHR '' '' @ dec_str n"

definition encode_header :: "chat_message \<Rightarrow> chat_message" where
  "encode_header m = m\<lparr>msg_data := mem_put 0 (take header_length (fmt4d (body_length m))) (msg_data m)\<rparr>"

text \<open>What a write of the message sends.\<close>

definition wire :: "chat_message \<Rightarrow> string" where
  "wire m = take (msg_length m) (msg_data m)"

text \<open>The body of the loop of the client's \<open>main\<close>: the message for a line.\<close>

definition line_message :: "string \<Rightarrow> string \<Rightarrow> chat_message" where
  "line_message garbage line =
     (let m = set_body_length (length (cstr line)) (new_message garbage);
          m1 = m\<lparr>msg_data := mem_put header_length (take (body_length m) line) (msg_data m)\<rparr>
      in encode_header m1)"

section \<open>The server\<close>

datatype rd = RIdle | RHeader | RBody

text \<open>
  \<open>s_sent\<close> (what was written completely) and \<open>s_delivered\<close> (the messages handed to the
  session) are kept for the specification only, like \<open>r_log\<close> of the room.
\<close>

record session =
  read_msg :: chat_message
  write_msgs :: "chat_message list"
  s_reading :: rd
  s_writing :: "string option"
  s_sent :: "string list"
  s_delivered :: "chat_message list"

text \<open>
  A participant is the address of its session; the set of the code is ordered by address, and
  the list is kept in that order.
\<close>

record room =
  participants :: "nat list"
  recent_msgs :: "chat_message list"
  r_log :: "chat_message list"

record server =
  s_room :: room
  s_sessions :: "nat \<Rightarrow> session"

abbreviation max_recent_msgs :: nat where "max_recent_msgs \<equiv> 100"

definition session_deliver :: "chat_message \<Rightarrow> session \<Rightarrow> session" where
  "session_deliver msg s =
     (let write_in_progress = (write_msgs s \<noteq> []);
          s1 = s\<lparr>write_msgs := write_msgs s @ [msg], s_delivered := s_delivered s @ [msg]\<rparr>
      in if \<not> write_in_progress then s1\<lparr>s_writing := Some (wire (hd (write_msgs s1)))\<rparr> else s1)"

definition upd_session :: "nat \<Rightarrow> (session \<Rightarrow> session) \<Rightarrow> server \<Rightarrow> server" where
  "upd_session i f v = v\<lparr>s_sessions := (s_sessions v)(i := f (s_sessions v i))\<rparr>"

definition room_join :: "nat \<Rightarrow> server \<Rightarrow> server" where
  "room_join i v =
     (let v1 = v\<lparr>s_room := (s_room v)\<lparr>participants := insort_insert i (participants (s_room v))\<rparr>\<rparr>
      in upd_session i (fold session_deliver (recent_msgs (s_room v1))) v1)"

definition room_leave :: "nat \<Rightarrow> server \<Rightarrow> server" where
  "room_leave i v = v\<lparr>s_room := (s_room v)\<lparr>participants := removeAll i (participants (s_room v))\<rparr>\<rparr>"

fun trim :: "chat_message list \<Rightarrow> chat_message list" where
  "trim [] = []"
| "trim (m # ms) = (if length (m # ms) > max_recent_msgs then trim ms else m # ms)"

definition room_deliver :: "chat_message \<Rightarrow> server \<Rightarrow> server" where
  "room_deliver msg v =
     (let r = s_room v;
          v1 = v\<lparr>s_room := r\<lparr>recent_msgs := trim (recent_msgs r @ [msg]), r_log := r_log r @ [msg]\<rparr>\<rparr>
      in fold (\<lambda>i. upd_session i (session_deliver msg)) (participants (s_room v1)) v1)"

definition session_start :: "nat \<Rightarrow> server \<Rightarrow> server" where
  "session_start i v = upd_session i (\<lambda>s. s\<lparr>s_reading := RHeader\<rparr>) (room_join i v)"

definition handle_read_header :: "nat \<Rightarrow> bool \<Rightarrow> string \<Rightarrow> server \<Rightarrow> server" where
  "handle_read_header i err bytes v =
     (let v1 = upd_session i (\<lambda>s. s\<lparr>s_reading := RIdle,
            read_msg := (read_msg s)\<lparr>msg_data := mem_put 0 bytes (msg_data (read_msg s))\<rparr>\<rparr>) v;
          (ok, m) = (if err then (False, read_msg (s_sessions v1 i)) else decode_header (read_msg (s_sessions v1 i)));
          v2 = upd_session i (\<lambda>s. s\<lparr>read_msg := m\<rparr>) v1
      in if \<not> err \<and> ok then upd_session i (\<lambda>s. s\<lparr>s_reading := RBody\<rparr>) v2 else room_leave i v2)"

definition handle_read_body :: "nat \<Rightarrow> bool \<Rightarrow> string \<Rightarrow> server \<Rightarrow> server" where
  "handle_read_body i err bytes v =
     (let v1 = upd_session i (\<lambda>s. s\<lparr>s_reading := RIdle,
            read_msg := (read_msg s)\<lparr>msg_data := mem_put header_length bytes (msg_data (read_msg s))\<rparr>\<rparr>) v
      in if \<not> err
         then upd_session i (\<lambda>s. s\<lparr>s_reading := RHeader\<rparr>) (room_deliver (read_msg (s_sessions v1 i)) v1)
         else room_leave i v1)"

text \<open>The branch of \<open>handle_write\<close> without an error.\<close>

definition session_written :: "session \<Rightarrow> session" where
  "session_written s =
     (let s0 = s\<lparr>s_sent := s_sent s @ (case s_writing s of None \<Rightarrow> [] | Some w \<Rightarrow> [w]), s_writing := None\<rparr>;
          s1 = s0\<lparr>write_msgs := tl (write_msgs s0)\<rparr>
      in if write_msgs s1 \<noteq> [] then s1\<lparr>s_writing := Some (wire (hd (write_msgs s1)))\<rparr> else s1)"

definition handle_write :: "nat \<Rightarrow> bool \<Rightarrow> server \<Rightarrow> server" where
  "handle_write i err v =
     (if \<not> err then upd_session i session_written v
      else room_leave i (upd_session i (\<lambda>s. s\<lparr>s_writing := None\<rparr>) v))"

definition new_session :: "string \<Rightarrow> session" where
  "new_session garbage = \<lparr>read_msg = new_message garbage, write_msgs = [], s_reading = RIdle,
     s_writing = None, s_sent = [], s_delivered = []\<rparr>"

text \<open>\<open>handle_accept\<close> for the session at address \<open>i\<close>; \<open>start_accept\<close> makes the next one.\<close>

definition handle_accept :: "nat \<Rightarrow> bool \<Rightarrow> string \<Rightarrow> server \<Rightarrow> server" where
  "handle_accept i err garbage v =
     (if \<not> err then session_start i (upd_session i (\<lambda>_. new_session garbage) v) else v)"

text \<open>Before the first accept every address is free.\<close>

definition server_init :: server where
  "server_init = \<lparr>s_room = \<lparr>participants = [], recent_msgs = [], r_log = []\<rparr>,
     s_sessions = (\<lambda>_. new_session (replicate (header_length + max_body_length) CHR 0x00))\<rparr>"

section \<open>The client\<close>

record client =
  c_read_msg :: chat_message
  c_write_msgs :: "chat_message list"
  c_reading :: rd
  c_writing :: "string option"
  c_sent :: "string list"
  c_written :: "chat_message list"
  c_shown :: "string list"
  c_open :: bool

definition cli_do_close :: "client \<Rightarrow> client" where
  "cli_do_close c = c\<lparr>c_open := False\<rparr>"

definition cli_do_write :: "chat_message \<Rightarrow> client \<Rightarrow> client" where
  "cli_do_write msg c =
     (let write_in_progress = (c_write_msgs c \<noteq> []);
          c1 = c\<lparr>c_write_msgs := c_write_msgs c @ [msg], c_written := c_written c @ [msg]\<rparr>
      in if \<not> write_in_progress then c1\<lparr>c_writing := Some (wire (hd (c_write_msgs c1)))\<rparr> else c1)"

definition cli_handle_connect :: "bool \<Rightarrow> client \<Rightarrow> client" where
  "cli_handle_connect err c = (if \<not> err then c\<lparr>c_reading := RHeader\<rparr> else c)"

definition cli_handle_read_header :: "bool \<Rightarrow> string \<Rightarrow> client \<Rightarrow> client" where
  "cli_handle_read_header err bytes c =
     (let m = (c_read_msg c)\<lparr>msg_data := mem_put 0 bytes (msg_data (c_read_msg c))\<rparr>;
          (ok, m1) = (if err then (False, m) else decode_header m);
          c1 = c\<lparr>c_reading := RIdle, c_read_msg := m1\<rparr>
      in if \<not> err \<and> ok then c1\<lparr>c_reading := RBody\<rparr> else cli_do_close c1)"

definition cli_handle_read_body :: "bool \<Rightarrow> string \<Rightarrow> client \<Rightarrow> client" where
  "cli_handle_read_body err bytes c =
     (let m = (c_read_msg c)\<lparr>msg_data := mem_put header_length bytes (msg_data (c_read_msg c))\<rparr>;
          c1 = c\<lparr>c_reading := RIdle, c_read_msg := m\<rparr>
      in if \<not> err then c1\<lparr>c_shown := c_shown c1 @ [take (body_length m) (body m)], c_reading := RHeader\<rparr>
         else cli_do_close c1)"

definition cli_handle_write :: "bool \<Rightarrow> client \<Rightarrow> client" where
  "cli_handle_write err c =
     (if \<not> err
      then
        let c0 = c\<lparr>c_sent := c_sent c @ (case c_writing c of None \<Rightarrow> [] | Some w \<Rightarrow> [w]), c_writing := None\<rparr>;
            c1 = c0\<lparr>c_write_msgs := tl (c_write_msgs c0)\<rparr>
        in if c_write_msgs c1 \<noteq> [] then c1\<lparr>c_writing := Some (wire (hd (c_write_msgs c1)))\<rparr> else c1
      else cli_do_close (c\<lparr>c_writing := None\<rparr>))"

end
