(* ===== verification/Chat_Props.thy ===== *)
theory Chat_Props
  imports Chat "HOL-Library.Sublist"
begin

text \<open>
  The properties of the chat example: the header format and the round trip of a line through
  the message buffer; the outgoing queue, a contract shared by the sessions of the server and
  by the client (locale \<open>outbox\<close>, interpreted on both); and the invariant of the server over
  all interleavings of the completions, a step relation with the lifetime rule of a session
  (its address is free once no handler and not the room refers to it).
\<close>

section \<open>The header\<close>

lemma of_char_digit: "(n :: nat) < 10 \<Longrightarrow> (of_char (char_of (48 + n) :: char) :: nat) = 48 + n"
  by (simp add: of_char_of)

lemma is_digit_dec: "(n :: nat) < 10 \<Longrightarrow> is_digit (char_of (48 + n))"
  by (simp add: is_digit_def of_char_digit)

lemma digit_val_dec: "(n :: nat) < 10 \<Longrightarrow> digit_val (char_of (48 + n)) = int n"
  by (simp add: digit_val_def of_char_int of_char_digit)

lemma dec_str_digits: "c \<in> set (dec_str n) \<Longrightarrow> is_digit c"
proof (induction n rule: dec_str.induct)
  case (1 n)
  then show ?case
    by (subst (asm) (2) dec_str.simps) (auto split: if_splits simp: is_digit_dec)
qed

lemma digits_val_append:
  "(\<And>c. c \<in> set xs \<Longrightarrow> is_digit c) \<Longrightarrow> digits_val a (xs @ ys) = digits_val (digits_val a xs) ys"
  by (induction a xs rule: digits_val.induct) auto

lemma digits_val_dec_str: "digits_val 0 (dec_str n) = int n"
proof (induction n rule: dec_str.induct)
  case (1 n)
  then show ?case
    by (subst dec_str.simps)
      (auto simp: is_digit_dec digit_val_dec digits_val_append dec_str_digits, presburger)
qed

lemma dec_str_ne: "dec_str n \<noteq> []"
  by (subst dec_str.simps) auto

lemma length_dec_str: "n < 10000 \<Longrightarrow> length (dec_str n) \<le> 4"
  by (subst dec_str.simps, subst dec_str.simps, subst dec_str.simps, subst dec_str.simps) auto

lemma digit_char: "is_digit c \<Longrightarrow> c \<noteq> CHR 0x00 \<and> \<not> is_space c \<and> c \<noteq> CHR ''-'' \<and> c \<noteq> CHR ''+''"
  by (auto simp: is_digit_def is_space_def)

lemma space_char: "is_space CHR '' ''"
  by (simp add: is_space_def)

lemma dropWhile_replicate: "P x \<Longrightarrow> dropWhile P (replicate n x @ ys) = dropWhile P ys"
  by (induction n) auto

lemma cstr_id: "CHR 0x00 \<notin> set s \<Longrightarrow> cstr s = s"
  by (auto simp: cstr_def takeWhile_eq_all_conv)

lemma length_fmt4d: "n < 10000 \<Longrightarrow> length (fmt4d n) = 4"
  using length_dec_str [of n] by (simp add: fmt4d_def)

lemma cstr_fmt4d: "cstr (fmt4d n) = fmt4d n"
  by (rule cstr_id) (use digit_char dec_str_digits in \<open>fastforce simp: fmt4d_def\<close>)

lemma atoi_fmt4d:
  assumes "n < 10000"
  shows "atoi (fmt4d n) = int n"
proof -
  obtain c cs where c: "dec_str n = c # cs" using dec_str_ne [of n] by (cases "dec_str n") auto
  then have "is_digit c" using dec_str_digits [of c n] by simp
  then have "dropWhile is_space (fmt4d n) = c # cs"
    using digit_char [of c] by (simp add: fmt4d_def dropWhile_replicate c space_char)
  then show ?thesis
    using assms digits_val_dec_str [of n] digit_char [OF \<open>is_digit c\<close>]
    by (simp add: atoi_def cstr_fmt4d c clamp_long_def c_conv)
qed

section \<open>Messages\<close>

definition wf_msg :: "chat_message \<Rightarrow> bool" where
  "wf_msg m \<longleftrightarrow> length (msg_data m) = header_length + max_body_length \<and> body_length m \<le> max_body_length"

lemma decode_header_data [simp]: "msg_data (snd (decode_header m)) = msg_data m"
  by (simp add: decode_header_def Let_def)

lemma decode_header_bound: "body_length (snd (decode_header m)) \<le> max_body_length"
  by (simp add: decode_header_def Let_def)

lemma decode_header_put:
  assumes "length h = header_length"
  shows "decode_header (m\<lparr>msg_data := mem_put 0 h d\<rparr>) =
    (let n = nat (to_size (atoi h)) in
     (n \<le> max_body_length, m\<lparr>msg_data := mem_put 0 h d, body_length := (if n \<le> max_body_length then n else 0)\<rparr>))"
  using assms by (auto simp: decode_header_def Let_def mem_put_def atoi_def cstr_def takeWhile_idem not_le)

lemma header_frames:
  assumes "n \<le> max_body_length"
  shows "nat (to_size (atoi (fmt4d n))) = n"
  using assms by (simp add: atoi_fmt4d c_conv)

lemma line_message_fields:
  assumes "length garbage = header_length + max_body_length" and "CHR 0x00 \<notin> set line"
    and "length line \<le> max_body_length"
  shows "body_length (line_message garbage line) = length line"
    and "wire (line_message garbage line) = fmt4d (length line) @ line"
    and "wf_msg (line_message garbage line)"
  using assms
  by (simp_all add: line_message_def set_body_length_def new_message_def cstr_id encode_header_def
      Let_def wire_def msg_length_def mem_put_def length_fmt4d wf_msg_def)

section \<open>The outgoing queue\<close>

text \<open>
  What a queue promises: the queue is empty exactly when no write is in flight, the one write
  in flight is the message at the front, and what was written followed by what is queued is
  what was given, in order.
\<close>

definition outbox_order :: "chat_message list \<Rightarrow> string list \<Rightarrow> chat_message list \<Rightarrow> bool" where
  "outbox_order q sent given \<longleftrightarrow> sent @ map wire q = map wire given"

definition front_flight :: "chat_message list \<Rightarrow> string option" where
  "front_flight q = (case q of [] \<Rightarrow> None | m # _ \<Rightarrow> Some (wire m))"

locale outbox =
  fixes queue :: "'s \<Rightarrow> chat_message list" and flight :: "'s \<Rightarrow> string option"
    and sent :: "'s \<Rightarrow> string list" and given :: "'s \<Rightarrow> chat_message list"
    and put :: "chat_message \<Rightarrow> 's \<Rightarrow> 's" and written :: "'s \<Rightarrow> 's"
  assumes queue_put: "queue (put m s) = queue s @ [m]"
    and given_put: "given (put m s) = given s @ [m]"
    and sent_put: "sent (put m s) = sent s"
    and flight_put: "flight (put m s) = (if queue s = [] then Some (wire m) else flight s)"
    and queue_written: "queue (written s) = tl (queue s)"
    and given_written: "given (written s) = given s"
    and sent_written: "sent (written s) = sent s @ (case flight s of None \<Rightarrow> [] | Some w \<Rightarrow> [w])"
    and flight_written: "flight (written s) = front_flight (tl (queue s))"
begin

lemma order_put: "outbox_order (queue s) (sent s) (given s) \<Longrightarrow>
    outbox_order (queue (put m s)) (sent (put m s)) (given (put m s))"
  by (auto simp: outbox_order_def queue_put sent_put given_put simp flip: append_assoc)

lemma flight_put_front: "flight s = front_flight (queue s) \<Longrightarrow> flight (put m s) = front_flight (queue (put m s))"
  by (auto simp: front_flight_def queue_put flight_put split: list.splits)

lemma order_written:
  assumes "outbox_order (queue s) (sent s) (given s)" and "flight s = front_flight (queue s)"
  shows "outbox_order (queue (written s)) (sent (written s)) (given (written s))"
  using assms by (cases "queue s")
    (auto simp: outbox_order_def queue_written sent_written given_written front_flight_def)

lemma put_many:
  "queue (fold put ms s) = queue s @ ms \<and> given (fold put ms s) = given s @ ms \<and> sent (fold put ms s) = sent s"
  by (induction ms arbitrary: s) (simp_all add: queue_put given_put sent_put)

lemma flight_put_many:
  "flight s = front_flight (queue s) \<Longrightarrow> flight (fold put ms s) = front_flight (queue (fold put ms s))"
  by (induction ms arbitrary: s) (simp_all add: flight_put_front)

end

interpretation sbox: outbox write_msgs s_writing s_sent s_delivered session_deliver session_written
  by unfold_locales
    (auto simp: session_deliver_def session_written_def Let_def front_flight_def split: list.splits)

interpretation cbox: outbox c_write_msgs c_writing c_sent c_written cli_do_write "cli_handle_write False"
  by unfold_locales
    (auto simp: cli_do_write_def cli_handle_write_def Let_def front_flight_def split: list.splits)

section \<open>The room\<close>

lemma trim_drop: "trim xs = drop (length xs - max_recent_msgs) xs"
  by (induction xs) (auto simp: drop_Cons')

lemma trim_log: "trim (drop (length l - max_recent_msgs) l @ [m]) = drop (length (l @ [m]) - max_recent_msgs) (l @ [m])"
  by (cases "length l \<le> 99") (auto simp: trim_drop simp flip: Suc_diff_le)

lemma upd_session_simps [simp]:
  "s_room (upd_session i f v) = s_room v"
  "s_sessions (upd_session i f v) = (s_sessions v)(i := f (s_sessions v i))"
  by (simp_all add: upd_session_def)

lemma fold_upd_session:
  "distinct ps \<Longrightarrow> s_room (fold (\<lambda>i. upd_session i f) ps v) = s_room v \<and>
   s_sessions (fold (\<lambda>i. upd_session i f) ps v) = (\<lambda>i. if i \<in> set ps then f (s_sessions v i) else s_sessions v i)"
  by (induction ps arbitrary: v) (auto simp: fun_eq_iff)

lemma room_deliver_fields:
  assumes "distinct (participants (s_room v))"
  shows "s_room (room_deliver m v) = (s_room v)\<lparr>recent_msgs := trim (recent_msgs (s_room v) @ [m]), r_log := r_log (s_room v) @ [m]\<rparr>"
    and "s_sessions (room_deliver m v) i =
      (if i \<in> set (participants (s_room v)) then session_deliver m (s_sessions v i) else s_sessions v i)"
  using assms by (simp_all add: room_deliver_def Let_def fold_upd_session)

lemma room_join_fields:
  "s_room (room_join i v) = (s_room v)\<lparr>participants := insort_insert i (participants (s_room v))\<rparr>"
  "s_sessions (room_join i v) =
     (s_sessions v)(i := fold session_deliver (recent_msgs (s_room v)) (s_sessions v i))"
  by (simp_all add: room_join_def Let_def upd_session_def)

lemma room_leave_fields:
  "s_room (room_leave i v) = (s_room v)\<lparr>participants := removeAll i (participants (s_room v))\<rparr>"
  "s_sessions (room_leave i v) = s_sessions v"
  by (simp_all add: room_leave_def)

lemma session_deliver_reads [simp]:
  "read_msg (session_deliver m s) = read_msg s" "s_reading (session_deliver m s) = s_reading s"
  by (simp_all add: session_deliver_def Let_def)

lemma fold_deliver_reads [simp]:
  "read_msg (fold session_deliver ms s) = read_msg s" "s_reading (fold session_deliver ms s) = s_reading s"
  by (induction ms arbitrary: s) simp_all

lemma session_written_reads [simp]:
  "read_msg (session_written s) = read_msg s" "s_reading (session_written s) = s_reading s"
  by (simp_all add: session_written_def Let_def)

section \<open>The invariant of the server\<close>

definition session_ok :: "chat_message list \<Rightarrow> bool \<Rightarrow> session \<Rightarrow> bool" where
  "session_ok log joined s \<longleftrightarrow>
     wf_msg (read_msg s)
     \<and> outbox_order (write_msgs s) (s_sent s) (s_delivered s)
     \<and> (s_writing s = None \<or> s_writing s = front_flight (write_msgs s))
     \<and> (joined \<longrightarrow> s_writing s = front_flight (write_msgs s) \<and> s_reading s \<noteq> RIdle)
     \<and> (if joined then suffix (s_delivered s) log else sublist (s_delivered s) log)"

definition server_ok :: "server \<Rightarrow> bool" where
  "server_ok v \<longleftrightarrow>
     sorted (participants (s_room v)) \<and> distinct (participants (s_room v))
     \<and> recent_msgs (s_room v) = drop (length (r_log (s_room v)) - max_recent_msgs) (r_log (s_room v))
     \<and> (\<forall>m \<in> set (r_log (s_room v)). wf_msg m)
     \<and> (\<forall>i. session_ok (r_log (s_room v)) (i \<in> set (participants (s_room v))) (s_sessions v i))"

inductive chat_step :: "server \<Rightarrow> server \<Rightarrow> bool" where
  accept: "\<lbrakk>i \<notin> set (participants (s_room v)); s_reading (s_sessions v i) = RIdle;
     s_writing (s_sessions v i) = None; length garbage = header_length + max_body_length\<rbrakk>
     \<Longrightarrow> chat_step v (handle_accept i err garbage v)"
| read_header: "\<lbrakk>s_reading (s_sessions v i) = RHeader; length bytes \<le> header_length;
     \<not> err \<longrightarrow> length bytes = header_length\<rbrakk> \<Longrightarrow> chat_step v (handle_read_header i err bytes v)"
| read_body: "\<lbrakk>s_reading (s_sessions v i) = RBody; length bytes \<le> body_length (read_msg (s_sessions v i));
     \<not> err \<longrightarrow> length bytes = body_length (read_msg (s_sessions v i))\<rbrakk>
     \<Longrightarrow> chat_step v (handle_read_body i err bytes v)"
| written: "s_writing (s_sessions v i) \<noteq> None \<Longrightarrow> chat_step v (handle_write i err v)"

inductive chat_reach :: "server \<Rightarrow> bool" where
  start: "chat_reach server_init"
| step: "chat_reach v \<Longrightarrow> chat_step v v' \<Longrightarrow> chat_reach v'"

lemma session_ok_leave:
  "session_ok log j s \<Longrightarrow> s_writing s' = s_writing s \<or> s_writing s' = None \<Longrightarrow> wf_msg (read_msg s') \<Longrightarrow>
   write_msgs s' = write_msgs s \<Longrightarrow> s_sent s' = s_sent s \<Longrightarrow> s_delivered s' = s_delivered s \<Longrightarrow>
   session_ok log False s'"
  by (auto simp: session_ok_def suffix_imp_sublist split: if_splits)

lemma session_ok_deliver:
  assumes "session_ok log j s"
  shows "session_ok (log @ [m]) j (if j then session_deliver m s else s)"
proof (cases j)
  case True
  then show ?thesis
    using assms sbox.order_put [of s m] by (auto simp: session_ok_def sbox.given_put suffix_append
        intro: sbox.flight_put_front)
next
  case False
  then show ?thesis using assms by (auto simp: session_ok_def intro: sublist_appendI sublist_order.order_trans)
qed

lemma session_ok_read:
  "session_ok log j s \<Longrightarrow> wf_msg m \<Longrightarrow> (j \<Longrightarrow> r \<noteq> RIdle) \<Longrightarrow>
   session_ok log j (s\<lparr>read_msg := m, s_reading := r\<rparr>)"
  by (auto simp: session_ok_def)

lemma session_ok_written:
  assumes "session_ok log j s" and "s_writing s \<noteq> None"
  shows "session_ok log j (session_written s)"
proof -
  have "s_writing s = front_flight (write_msgs s)" using assms by (auto simp: session_ok_def)
  then show ?thesis
    using assms sbox.order_written [of s]
    by (auto simp: session_ok_def sbox.given_written sbox.queue_written sbox.flight_written)
qed

lemma wf_put: "wf_msg m \<Longrightarrow> at + length bs \<le> header_length + max_body_length \<Longrightarrow>
    wf_msg (m\<lparr>msg_data := mem_put at bs (msg_data m)\<rparr>)"
  by (simp add: wf_msg_def)

lemma wf_decode: "wf_msg m \<Longrightarrow> wf_msg (snd (decode_header m))"
  using decode_header_bound [of m] by (simp add: wf_msg_def)

lemma server_okD:
  assumes "server_ok v"
  shows "distinct (participants (s_room v))" and "sorted (participants (s_room v))"
    and "session_ok (r_log (s_room v)) (i \<in> set (participants (s_room v))) (s_sessions v i)"
    and "\<And>m. m \<in> set (r_log (s_room v)) \<Longrightarrow> wf_msg m"
    and "recent_msgs (s_room v) = drop (length (r_log (s_room v)) - max_recent_msgs) (r_log (s_room v))"
  using assms by (simp_all add: server_ok_def)

lemma server_ok_upd:
  assumes "server_ok v"
    and "session_ok (r_log (s_room v)) (i \<in> set (participants (s_room v))) (f (s_sessions v i))"
  shows "server_ok (upd_session i f v)"
  using assms by (simp add: server_ok_def)

lemma sorted_removeAll: "sorted xs \<Longrightarrow> sorted (removeAll x xs)"
  by (simp add: removeAll_filter_not_eq sorted_wrt_filter)

lemma server_ok_leave:
  assumes v: "server_ok v"
    and s: "s_writing (f (s_sessions v i)) = s_writing (s_sessions v i) \<or> s_writing (f (s_sessions v i)) = None"
    "wf_msg (read_msg (f (s_sessions v i)))" "write_msgs (f (s_sessions v i)) = write_msgs (s_sessions v i)"
    "s_sent (f (s_sessions v i)) = s_sent (s_sessions v i)"
    "s_delivered (f (s_sessions v i)) = s_delivered (s_sessions v i)"
  shows "server_ok (room_leave i (upd_session i f v))"
  using v session_ok_leave [OF server_okD(3) [OF v, of i] s]
  by (simp add: server_ok_def room_leave_fields sorted_removeAll distinct_removeAll)

lemma server_ok_deliver:
  assumes v: "server_ok v" and m: "wf_msg m"
  shows "server_ok (room_deliver m v)"
  unfolding server_ok_def room_deliver_fields [OF server_okD(1) [OF v]]
  using v m session_ok_deliver [OF server_okD(3) [OF v]]
  by (auto simp: server_ok_def trim_log)

lemma read_msg_wf: "server_ok v \<Longrightarrow> wf_msg (read_msg (s_sessions v i))"
  by (metis server_okD(3) session_ok_def)

lemma join_ok:
  assumes v: "server_ok v"
    and s: "s_sessions v i = new_session garbage" and g: "length garbage = header_length + max_body_length"
  shows "server_ok (session_start i v)"
proof -
  let ?s = "new_session garbage" and ?ms = "recent_msgs (s_room v)"
  have "outbox_order (write_msgs (fold session_deliver ?ms ?s)) (s_sent (fold session_deliver ?ms ?s))
      (s_delivered (fold session_deliver ?ms ?s))"
    using sbox.put_many [of ?ms ?s] by (simp add: new_session_def outbox_order_def)
  moreover have "s_writing (fold session_deliver ?ms ?s) = front_flight (write_msgs (fold session_deliver ?ms ?s))"
    by (rule sbox.flight_put_many) (simp add: new_session_def front_flight_def)
  moreover have "suffix (s_delivered (fold session_deliver ?ms ?s)) (r_log (s_room v))"
    using sbox.put_many [of ?ms ?s] server_okD(5) [OF v] by (simp add: new_session_def suffix_drop)
  moreover have "wf_msg (read_msg ?s)" using g by (simp add: new_session_def new_message_def wf_msg_def)
  ultimately have "session_ok (r_log (s_room v)) True ((fold session_deliver ?ms ?s)\<lparr>s_reading := RHeader\<rparr>)"
    by (simp add: session_ok_def)
  then show ?thesis
    using v s by (auto simp: server_ok_def session_start_def room_join_fields sorted_insort_insert
        distinct_insort_insert set_insort_insert)
qed

lemma accept_ok:
  assumes v: "server_ok v" and i: "i \<notin> set (participants (s_room v))"
    and g: "length garbage = header_length + max_body_length"
  shows "server_ok (handle_accept i err garbage v)"
proof (cases err)
  case False
  have "session_ok (r_log (s_room v)) False (new_session garbage)"
    using g by (simp add: session_ok_def new_session_def new_message_def wf_msg_def outbox_order_def)
  then have "server_ok (upd_session i (\<lambda>_. new_session garbage) v)"
    using server_ok_upd [OF v, of i] i by simp
  then show ?thesis using False g by (simp add: handle_accept_def join_ok)
qed (use v in \<open>simp add: handle_accept_def\<close>)

lemma room_of_upd_upd [simp]: "upd_session i f (upd_session i g v) = upd_session i (\<lambda>s. f (g s)) v"
  by (simp add: upd_session_def)

lemma read_header_ok:
  assumes v: "server_ok v" and b: "length bytes \<le> header_length"
  shows "server_ok (handle_read_header i err bytes v)"
proof -
  let ?m = "(read_msg (s_sessions v i))\<lparr>msg_data := mem_put 0 bytes (msg_data (read_msg (s_sessions v i)))\<rparr>"
  have m: "wf_msg ?m" using b by (intro wf_put read_msg_wf v) simp
  show ?thesis
    using m wf_decode [OF m] session_ok_read [OF server_okD(3) [OF v, of i]]
    by (auto simp: handle_read_header_def Let_def split: prod.splits
        intro!: server_ok_upd server_ok_leave v)
qed

lemma server_eqI: "s_room v = s_room w \<Longrightarrow> (\<And>i. s_sessions v i = s_sessions w i) \<Longrightarrow> v = (w :: server)"
  by (cases v; cases w) (auto simp: fun_eq_iff)

lemma deliver_reading: "session_deliver m s\<lparr>s_reading := r\<rparr> = session_deliver m (s\<lparr>s_reading := r\<rparr>)"
  by (simp add: session_deliver_def Let_def)

lemma room_deliver_reading:
  assumes "distinct (participants (s_room v))"
  shows "upd_session i (\<lambda>s. s\<lparr>s_reading := r\<rparr>) (room_deliver m v) =
    room_deliver m (upd_session i (\<lambda>s. s\<lparr>s_reading := r\<rparr>) v)"
  by (rule server_eqI) (use assms in \<open>auto simp: room_deliver_fields deliver_reading\<close>)

lemma read_body_ok:
  assumes v: "server_ok v" and b: "length bytes \<le> max_body_length"
  shows "server_ok (handle_read_body i err bytes v)"
proof -
  let ?m = "(read_msg (s_sessions v i))\<lparr>msg_data := mem_put header_length bytes (msg_data (read_msg (s_sessions v i)))\<rparr>"
  have m: "wf_msg ?m" using b by (intro wf_put read_msg_wf v) simp
  show ?thesis
    using m session_ok_read [OF server_okD(3) [OF v, of i] m, of RHeader]
    by (auto simp: handle_read_body_def Let_def room_deliver_reading server_okD [OF v]
        intro!: server_ok_upd server_ok_leave server_ok_deliver v)
qed

lemma write_ok:
  assumes v: "server_ok v" and w: "s_writing (s_sessions v i) \<noteq> None"
  shows "server_ok (handle_write i err v)"
  unfolding handle_write_def
  using session_ok_written [OF server_okD(3) [OF v] w] read_msg_wf [OF v]
  by (auto intro!: server_ok_upd server_ok_leave v)

lemma init_ok: "server_ok server_init"
  by (simp add: server_ok_def server_init_def session_ok_def new_session_def new_message_def wf_msg_def
      outbox_order_def)

lemma step_ok: "chat_step v v' \<Longrightarrow> server_ok v \<Longrightarrow> server_ok v'"
proof (induction rule: chat_step.induct)
  case (read_body v i bytes err)
  then show ?case
    using read_msg_wf [of v i] by (intro read_body_ok) (auto simp: wf_msg_def)
qed (auto intro: accept_ok read_header_ok write_ok)

lemma reach_ok: "chat_reach v \<Longrightarrow> server_ok v"
  by (induction rule: chat_reach.induct) (auto intro: init_ok step_ok)

section \<open>Frames through the server\<close>

lemma atoi_cstr: "atoi (cstr h) = atoi h"
  by (simp add: atoi_def cstr_def takeWhile_idem)

lemma atoi_range: "in_i32 (atoi h)"
  by (simp add: atoi_def)

lemma to_size_neg: "- 2147483648 \<le> x \<Longrightarrow> x < 0 \<Longrightarrow> to_size x = x + 18446744073709551616"
  unfolding to_size_def by (subst mod_add_self2 [symmetric], rule mod_pos_pos_trivial) auto

lemma header_value: "nat (to_size (atoi h)) \<le> max_body_length \<longleftrightarrow> 0 \<le> atoi h \<and> atoi h \<le> 512"
  using atoi_range [of h]
  by (cases "0 \<le> atoi h") (simp_all add: in_i32_def c_conv to_size_neg nat_le_iff)

lemma msg_upd_comm: "m\<lparr>body_length := n, msg_data := d\<rparr> = m\<lparr>msg_data := d, body_length := n\<rparr>"
  by simp

lemma read_header_steps:
  assumes "length h = header_length" and "nat (to_size (atoi h)) \<le> max_body_length"
  shows "handle_read_header i False h v = upd_session i (\<lambda>s. s\<lparr>s_reading := RBody,
      read_msg := (read_msg s)\<lparr>msg_data := mem_put 0 h (msg_data (read_msg s)), body_length := nat (to_size (atoi h))\<rparr>\<rparr>) v"
  by (rule server_eqI) (use assms in \<open>auto simp: handle_read_header_def Let_def decode_header_put upd_session_def\<close>)

lemma wire_of_parts:
  assumes "length d = header_length + max_body_length" and "length h = header_length"
    and "length b = n" and "n \<le> max_body_length"
  shows "wire (m\<lparr>msg_data := mem_put header_length b (mem_put 0 h d), body_length := n\<rparr>) = h @ b"
  using assms by (simp add: wire_def msg_length_def mem_put_def)

definition read_frame :: "nat \<Rightarrow> string \<Rightarrow> string \<Rightarrow> server \<Rightarrow> server" where
  "read_frame i h b v = handle_read_body i False b (handle_read_header i False h v)"

lemma read_frame_relays:
  assumes v: "server_ok v" and h: "length h = header_length" "0 \<le> atoi h" "atoi h \<le> 512"
    and b: "int (length b) = atoi h"
  shows "\<exists>m. wire m = h @ b \<and> body_length m = length b
     \<and> s_room (read_frame i h b v) = (s_room v)\<lparr>recent_msgs := trim (recent_msgs (s_room v) @ [m]), r_log := r_log (s_room v) @ [m]\<rparr>
     \<and> s_reading (s_sessions (read_frame i h b v) i) = RHeader
     \<and> (\<forall>j. s_delivered (s_sessions (read_frame i h b v) j) =
           s_delivered (s_sessions v j) @ (if j \<in> set (participants (s_room v)) then [m] else []))"
proof -
  let ?d = "msg_data (read_msg (s_sessions v i))"
  let ?m = "(read_msg (s_sessions v i))\<lparr>msg_data := mem_put header_length b (mem_put 0 h ?d), body_length := length b\<rparr>"
  have n: "nat (to_size (atoi h)) = length b" using h b by (simp add: c_conv)
  have "length ?d = header_length + max_body_length" using read_msg_wf [OF v, of i] by (simp add: wf_msg_def)
  moreover have "length b \<le> max_body_length" using h b by simp
  ultimately have w: "wire ?m = h @ b" using h by (intro wire_of_parts) auto
  have e: "read_frame i h b v = room_deliver ?m (upd_session i (\<lambda>s. s\<lparr>read_msg := ?m, s_reading := RHeader\<rparr>) v)"
    by (rule server_eqI) (use h b n server_okD(1) [OF v] in
        \<open>auto simp: read_frame_def read_header_steps handle_read_body_def Let_def room_deliver_fields deliver_reading msg_upd_comm\<close>)
  show ?thesis
    by (rule exI [of _ ?m]) (use w server_okD(1) [OF v] in
        \<open>auto simp: e room_deliver_fields sbox.given_put\<close>)
qed

lemma bad_header_leaves:
  assumes "length h = header_length" and "\<not> (0 \<le> atoi h \<and> atoi h \<le> 512)"
  shows "s_room (handle_read_header i False h v) = s_room (room_leave i v)
     \<and> s_reading (s_sessions (handle_read_header i False h v) i) = RIdle
     \<and> (\<forall>j. s_delivered (s_sessions (handle_read_header i False h v) j) = s_delivered (s_sessions v j))"
  using assms header_value [of h]
  by (auto simp: handle_read_header_def Let_def decode_header_put room_leave_def)

section \<open>The client\<close>

lemma client_header:
  assumes "length h = header_length" and "nat (to_size (atoi h)) = n" and "n \<le> max_body_length"
  shows "cli_handle_read_header False h c =
    c\<lparr>c_reading := RBody, c_read_msg := (c_read_msg c)\<lparr>msg_data := mem_put 0 h (msg_data (c_read_msg c)), body_length := n\<rparr>\<rparr>"
  using assms by (simp add: cli_handle_read_header_def Let_def decode_header_put)

lemma client_shows:
  assumes "length (msg_data (c_read_msg c)) = header_length + max_body_length"
    and "length h = header_length" and "0 \<le> atoi h" "atoi h \<le> 512" and "int (length b) = atoi h"
  shows "c_shown (cli_handle_read_body False b (cli_handle_read_header False h c)) = c_shown c @ [b]
    \<and> c_reading (cli_handle_read_body False b (cli_handle_read_header False h c)) = RHeader"
proof -
  have "nat (to_size (atoi h)) = length b" using assms by (simp add: c_conv)
  then show ?thesis
    using assms by (simp add: client_header cli_handle_read_body_def Let_def body_def mem_put_def)
qed

text \<open>
  The io thread of the client runs the posted functions and the completions; when the socket
  is closed the operations in progress complete with an error, and a posted write that finds
  it closed still queues its message and starts a write that fails.
\<close>

inductive cli_step :: "client \<Rightarrow> client \<Rightarrow> bool" where
  connect: "c_reading c = RIdle \<Longrightarrow> cli_step c (cli_handle_connect err c)"
| post_write: "cli_step c (cli_do_write m c)"
| post_close: "cli_step c (cli_do_close c)"
| read_header: "c_reading c = RHeader \<Longrightarrow> cli_step c (cli_handle_read_header err bytes c)"
| read_body: "c_reading c = RBody \<Longrightarrow> cli_step c (cli_handle_read_body err bytes c)"
| written: "c_writing c \<noteq> None \<Longrightarrow> cli_step c (cli_handle_write err c)"

definition client_init :: "string \<Rightarrow> client" where
  "client_init garbage = \<lparr>c_read_msg = new_message garbage, c_write_msgs = [], c_reading = RIdle,
     c_writing = None, c_sent = [], c_written = [], c_shown = [], c_open = True\<rparr>"

inductive cli_reach :: "string \<Rightarrow> client \<Rightarrow> bool" for g where
  start: "cli_reach g (client_init g)"
| step: "cli_reach g c \<Longrightarrow> cli_step c c' \<Longrightarrow> cli_reach g c'"

text \<open>
  After a failed write the queue is never popped again: \<open>c_writing\<close> stays \<open>None\<close>, and messages
  written later are only queued.
\<close>

definition client_ok :: "client \<Rightarrow> bool" where
  "client_ok c \<longleftrightarrow> outbox_order (c_write_msgs c) (c_sent c) (c_written c)
     \<and> (c_writing c = front_flight (c_write_msgs c) \<or> \<not> c_open c \<and> c_writing c = None)"

lemma client_ok_frame:
  "client_ok c \<Longrightarrow> c_write_msgs c' = c_write_msgs c \<Longrightarrow> c_sent c' = c_sent c \<Longrightarrow> c_written c' = c_written c \<Longrightarrow>
   c_writing c' = c_writing c \<Longrightarrow> c_open c' = c_open c \<or> \<not> c_open c' \<Longrightarrow> client_ok c'"
  by (auto simp: client_ok_def)

lemma do_write_open: "c_open (cli_do_write m c) = c_open c"
  by (simp add: cli_do_write_def Let_def)

lemma client_ok_step: "cli_step c c' \<Longrightarrow> client_ok c \<Longrightarrow> client_ok c'"
proof (induction rule: cli_step.induct)
  case (post_write c m)
  then show ?case
    using cbox.order_put [of c m] cbox.flight_put_front [of c m]
    by (cases "c_write_msgs c")
      (auto simp: client_ok_def cbox.flight_put cbox.queue_put front_flight_def do_write_open)
next
  case (written c err)
  then have f: "c_writing c = front_flight (c_write_msgs c)" by (auto simp: client_ok_def)
  show ?case
  proof (cases err)
    case True
    then show ?thesis using written by (simp add: client_ok_def cli_handle_write_def cli_do_close_def)
  next
    case False
    then show ?thesis
      using written cbox.order_written [OF _ f] by (simp add: client_ok_def cbox.flight_written cbox.queue_written)
  qed
qed (erule client_ok_frame; simp add: cli_handle_connect_def cli_do_close_def cli_handle_read_header_def
    cli_handle_read_body_def Let_def split: prod.splits)+

lemma client_reach_ok: "cli_reach g c \<Longrightarrow> client_ok c"
proof (induction rule: cli_reach.induct)
  case start
  then show ?case by (simp add: client_ok_def client_init_def outbox_order_def front_flight_def)
qed (rule client_ok_step)

section \<open>Properties\<close>

lemma line_header: 
  assumes "length garbage = header_length + max_body_length" and "CHR 0x00 \<notin> set line"
    and "length line \<le> max_body_length"
  shows "take 4 (wire (line_message garbage line)) = fmt4d (length line)"
    and "drop 4 (wire (line_message garbage line)) = line"
  using line_message_fields(2) [OF assms] length_fmt4d [of "length line"] assms(3) by simp_all

lemma same_length: "m\<lparr>msg_data := d, body_length := body_length m\<rparr> = m\<lparr>msg_data := d\<rparr>"
  by (cases m) simp

lemma header_codec_pf:
  assumes "wf_msg m"
  shows "decode_header (encode_header m) = (True, encode_header m)"
proof -
  let ?h = "fmt4d (body_length m)"
  have h: "length ?h = 4" using assms by (simp add: wf_msg_def length_fmt4d)
  have "encode_header m = m\<lparr>msg_data := mem_put 0 ?h (msg_data m)\<rparr>"
    using h by (simp add: encode_header_def)
  then show ?thesis
    using assms h by (simp add: decode_header_put Let_def header_frames wf_msg_def same_length)
qed

lemma accepts_iff:
  assumes "length (msg_data m) \<ge> 4"
  shows "fst (decode_header m) \<longleftrightarrow> 0 \<le> atoi (take 4 (msg_data m)) \<and> atoi (take 4 (msg_data m)) \<le> 512"
  using header_value [of "take 4 (msg_data m)"] by (auto simp: decode_header_def Let_def atoi_cstr not_le)

text \<open>
  The header of a message. Decoding what \<open>encode_header\<close> wrote gives back the message
  unchanged, and a header is accepted exactly when the number it starts with is between 0 and
  \<open>max_body_length\<close>; a negative one wraps to a huge size and is refused.
\<close>

theorem header_codec:
  assumes "wf_msg m"
  shows "decode_header (encode_header m) = (True, encode_header m)
    \<and> (fst (decode_header m) \<longleftrightarrow> 0 \<le> atoi (take 4 (msg_data m)) \<and> atoi (take 4 (msg_data m)) \<le> 512)"
  using header_codec_pf [OF assms] accepts_iff [of m] assms by (simp add: wf_msg_def)

theorem header_codec_witness:
  "fst (decode_header \<lparr>msg_data = ''  -1'' @ replicate 512 CHR ''x'', body_length = 7\<rparr>) = False"
proof -
  let ?m = "\<lparr>msg_data = ''  -1'' @ replicate 512 CHR ''x'', body_length = 7\<rparr>"
  have "wf_msg ?m" by (simp add: wf_msg_def)
  moreover have "atoi ''  -1'' = -1" by code_simp
  ultimately show ?thesis using header_codec [of ?m] by simp
qed

text \<open>
  A line through the system. For a line without a NUL of at most 512 characters, the frame
  that the client's \<open>main\<close> builds, read by any session of a reachable server, is logged as
  one message with the same bytes on the wire and is given to exactly the participants; the
  session goes on to the next header; and a client that reads that frame shows the line.
\<close>

theorem line_relay:
  assumes "chat_reach v" and "length garbage = header_length + max_body_length"
    and "CHR 0x00 \<notin> set line" and "length line \<le> max_body_length"
    and "length (msg_data (c_read_msg c)) = header_length + max_body_length"
    and "w = wire (line_message garbage line)" and "v' = read_frame i (take 4 w) (drop 4 w) v"
  shows "(\<exists>m. wire m = w \<and> r_log (s_room v') = r_log (s_room v) @ [m]
       \<and> participants (s_room v') = participants (s_room v)
       \<and> (\<forall>j. s_delivered (s_sessions v' j) =
             s_delivered (s_sessions v j) @ (if j \<in> set (participants (s_room v)) then [m] else [])))
     \<and> s_reading (s_sessions v' i) = RHeader
     \<and> c_shown (cli_handle_read_body False (drop 4 w) (cli_handle_read_header False (take 4 w) c)) = c_shown c @ [line]"
proof -
  have p: "take 4 w = fmt4d (length line)" "drop 4 w = line"
    using line_header assms(2,3,4,6) by simp_all
  have a: "atoi (take 4 w) = int (length line)" "length (take 4 w) = header_length"
    using assms(4) by (simp_all add: p atoi_fmt4d length_fmt4d)
  have w: "take 4 w @ drop 4 w = w" by simp
  show ?thesis
    using read_frame_relays [OF reach_ok [OF assms(1)] a(2), of "drop 4 w" i]
      client_shows [OF assms(5) a(2), of "drop 4 w"] a(1) assms(4,7)
    unfolding w by (auto simp: p)
qed

abbreviation blank :: string where "blank \<equiv> replicate 516 CHR 0x00"

definition demo_server :: server where
  "demo_server = handle_accept 7 False blank (handle_accept 5 False blank server_init)"

lemma demo_reach: "chat_reach demo_server"
  unfolding demo_server_def
  by (intro chat_reach.step [OF _ chat_step.accept] chat_reach.start)
    (simp_all add: server_init_def new_session_def handle_accept_def session_start_def room_join_fields
      insort_insert_key_def)

lemma demo_fields: "participants (s_room demo_server) = [5, 7]" "r_log (s_room demo_server) = []"
    "s_reading (s_sessions demo_server 5) = RHeader" "s_delivered (s_sessions demo_server 7) = []"
  by (simp_all add: demo_server_def server_init_def new_session_def handle_accept_def session_start_def
      room_join_fields insort_insert_key_def)

theorem line_relay_witness:
  "\<exists>m. wire m = ''   2hi'' \<and> r_log (s_room (read_frame 5 ''   2'' ''hi'' demo_server)) = [m]
     \<and> s_delivered (s_sessions (read_frame 5 ''   2'' ''hi'' demo_server) 7) = [m]"
proof -
  have w: "wire (line_message blank ''hi'') = ''   2hi''" by code_simp
  have "length blank = header_length + max_body_length" by simp
  then show ?thesis
    using line_relay [OF demo_reach, of blank "''hi''" "client_init blank" _ _ 5, OF _ _ _ _ refl refl]
    unfolding w by (fastforce simp: demo_fields client_init_def new_message_def)
qed

text \<open>
  A frame whose header is not a number between 0 and 512 delivers nothing: the session
  leaves the room and reads no more.
\<close>

theorem bad_header:
  assumes "length h = header_length" and "\<not> (0 \<le> atoi h \<and> atoi h \<le> 512)"
  shows "s_room (handle_read_header i False h v) = s_room (room_leave i v)
     \<and> s_reading (s_sessions (handle_read_header i False h v) i) = RIdle
     \<and> (\<forall>j. s_delivered (s_sessions (handle_read_header i False h v) j) = s_delivered (s_sessions v j))"
  by (rule bad_header_leaves) (use assms in simp_all)

theorem bad_header_witness:
  "participants (s_room (handle_read_header 5 False '' 513'' demo_server)) = [7]"
proof -
  have "atoi '' 513'' = 513" by code_simp
  then show ?thesis using bad_header [of "'' 513''" 5 demo_server] by (simp add: room_leave_fields demo_fields)
qed




text \<open>
  The client over all interleavings of posted functions and completions: what it wrote,
  followed by its queue, is what the user's lines gave it, in order, and one write of the
  front message is in progress unless the queue is empty or the socket was closed.
\<close>

theorem client_in_order:
  assumes "cli_reach g c"
  shows "c_sent c @ map wire (c_write_msgs c) = map wire (c_written c)
    \<and> (c_open c \<longrightarrow> c_writing c = front_flight (c_write_msgs c))"
  using client_reach_ok [OF assms] by (auto simp: client_ok_def outbox_order_def)

theorem client_in_order_witness:
  "c_writing (cli_do_write (line_message blank ''hi'') (client_init blank)) = Some ''   2hi''"
proof -
  have w: "wire (line_message blank ''hi'') = ''   2hi''" by code_simp
  have "cli_reach blank (cli_do_write (line_message blank ''hi'') (client_init blank))"
    by (intro cli_reach.step [OF cli_reach.start] cli_step.post_write)
  from client_in_order [OF this] show ?thesis
    by (simp add: do_write_open cbox.queue_put front_flight_def w) (simp add: client_init_def front_flight_def w)
qed

end
