(* ===== verification/Agent_Config.thy ===== *)
theory Agent_Config
  imports Prelude_C
begin

text \<open>
  The command line of the device agent, \<open>2webclient/deviceagent.cpp\<close>: the global settings,
  \<open>parse\<close> and \<open>printarg\<close>.
\<close>

section \<open>Settings\<close>

text \<open>\<open>strcpy\<close> into an array of \<open>n\<close> characters.\<close>

definition strcpy_into :: "nat \<Rightarrow> string \<Rightarrow> fault + string" where
  "strcpy_into n s = (if length (cstr s) < n then Inr (cstr s) else Inl Overflow)"

record config =
  szName :: string
  nType :: int
  szIp :: string
  nPort :: int
  szTarget :: string
  nConnectionType :: int
  timer_enable :: int
  frame_mode_enable :: int
  mode :: int
  buffing :: int
  buffing_count :: int

definition config_init :: config where
  "config_init = \<lparr>szName = [], nType = 0, szIp = [], nPort = 0, szTarget = [], nConnectionType = 0,
     timer_enable = 0, frame_mode_enable = 0, mode = 0, buffing = 0, buffing_count = 10\<rparr>"

datatype option_key = K_timer | K_name | K_type | K_ip | K_port | K_target | K_contype | K_mode
  | K_frame_mode_enable | K_buffing | K_buffing_count

definition option_key_of :: "string \<Rightarrow> option_key option" where
  "option_key_of arg =
     (if arg = ''timer'' then Some K_timer
      else if arg = ''name'' then Some K_name
      else if arg = ''type'' then Some K_type
      else if arg = ''ip'' then Some K_ip
      else if arg = ''port'' then Some K_port
      else if arg = ''target'' then Some K_target
      else if arg = ''contype'' then Some K_contype
      else if arg = ''mode'' then Some K_mode
      else if arg = ''frame_mode_enable'' then Some K_frame_mode_enable
      else if arg = ''buffing'' then Some K_buffing
      else if arg = ''buffing_count'' then Some K_buffing_count
      else None)"

text \<open>\<open>if (strlen(arg) > 64) arg[63] = 0\<close>\<close>

definition clip_arg :: "string \<Rightarrow> string" where
  "clip_arg arg = (if length arg > 64 then take 63 arg else arg)"

fun apply_option :: "option_key \<Rightarrow> string \<Rightarrow> config \<Rightarrow> fault + config" where
  "apply_option K_timer arg c = Inr (c\<lparr>timer_enable := (if atoi arg \<noteq> 0 then 1 else atoi arg)\<rparr>)"
| "apply_option K_name arg c = bindE (strcpy_into 64 (clip_arg arg)) (\<lambda>s. Inr (c\<lparr>szName := s\<rparr>))"
| "apply_option K_type arg c = Inr (c\<lparr>nType := (if atoi arg > 2 then 0 else atoi arg)\<rparr>)"
| "apply_option K_ip arg c = bindE (strcpy_into 20 arg) (\<lambda>s. Inr (c\<lparr>szIp := s\<rparr>))"
| "apply_option K_port arg c = Inr (c\<lparr>nPort := atoi arg\<rparr>)"
| "apply_option K_target arg c = bindE (strcpy_into 64 (clip_arg arg)) (\<lambda>s. Inr (c\<lparr>szTarget := s\<rparr>))"
| "apply_option K_contype arg c = Inr (c\<lparr>nConnectionType := (if atoi arg > 1 then 1 else atoi arg)\<rparr>)"
| "apply_option K_mode arg c = Inr (c\<lparr>mode := (if atoi arg \<noteq> 0 then 1 else atoi arg)\<rparr>)"
| "apply_option K_frame_mode_enable arg c = Inr (c\<lparr>frame_mode_enable := (if atoi arg \<noteq> 0 then 1 else atoi arg)\<rparr>)"
| "apply_option K_buffing arg c = Inr (c\<lparr>buffing := (if atoi arg \<noteq> 0 then 1 else atoi arg)\<rparr>)"
| "apply_option K_buffing_count arg c = Inr (c\<lparr>buffing_count := (if atoi arg > 100 then 100 else atoi arg)\<rparr>)"

text \<open>The strings of \<open>argv\<close> are C strings: they hold no NUL.\<close>

fun parse_args :: "string list \<Rightarrow> config \<Rightarrow> fault + (int \<times> config)" where
  "parse_args [] c = Inr (0, c)"
| "parse_args (arg # rest) c =
     (if arg = [] \<or> hd arg \<noteq> CHR ''-'' then parse_args rest c
      else case option_key_of (tl arg) of
             None \<Rightarrow> parse_args rest c
           | Some k \<Rightarrow> (case rest of
               [] \<Rightarrow> Inr (-1, c)
             | v # rest' \<Rightarrow> bindE (apply_option k v c) (parse_args rest')))"

definition SDK_DEVICE_TYPE_STR :: "string list" where
  "SDK_DEVICE_TYPE_STR = [''SDK_DT_IPC'', ''SDK_DT_PC'', ''SDK_DT_Mobile'']"

definition SDK_CONNECTION_TYPE_STR :: "string list" where
  "SDK_CONNECTION_TYPE_STR = [''SDK_CT_P2P'', ''SDK_CT_TRANSFER'']"

definition index_array :: "'a list \<Rightarrow> int \<Rightarrow> fault + 'a" where
  "index_array xs i = (if 0 \<le> i \<and> nat i < length xs then Inr (xs ! nat i) else Inl Bad_Index)"

text \<open>\<open>printarg\<close>: the two names that are looked up by index.\<close>

definition printarg :: "config \<Rightarrow> fault + (string \<times> string)" where
  "printarg c =
     bindE (index_array SDK_DEVICE_TYPE_STR (nType c)) (\<lambda>t.
     bindE (index_array SDK_CONNECTION_TYPE_STR (nConnectionType c)) (\<lambda>k. Inr (t, k)))"

section \<open>Lemmas\<close>

definition cstring :: "string \<Rightarrow> bool" where
  "cstring s \<longleftrightarrow> CHR 0x00 \<notin> set s"

lemma cstr_cstring: "cstring s \<Longrightarrow> cstr s = s"
  by (auto simp: cstring_def cstr_def takeWhile_eq_all_conv)

lemma cstring_take [intro]: "cstring s \<Longrightarrow> cstring (take n s)"
  by (auto simp: cstring_def dest: in_set_takeD)

text \<open>What \<open>parse\<close> keeps of the settings, whatever the arguments.\<close>

definition config_ok :: "config \<Rightarrow> bool" where
  "config_ok c \<longleftrightarrow> length (szName c) < 64 \<and> length (szTarget c) < 64 \<and> length (szIp c) < 20
     \<and> nType c \<le> 2 \<and> nConnectionType c \<le> 1 \<and> buffing_count c \<le> 100
     \<and> timer_enable c \<in> {0, 1} \<and> frame_mode_enable c \<in> {0, 1} \<and> mode c \<in> {0, 1} \<and> buffing c \<in> {0, 1}"

lemma config_init_ok: "config_ok config_init"
  by (simp add: config_ok_def config_init_def)

lemma apply_option_ok: "config_ok c \<Longrightarrow> apply_option k arg c = Inr c' \<Longrightarrow> config_ok c'"
  by (cases k) (simp_all add: config_ok_def bindE_Inr_iff strcpy_into_def,
      (clarsimp simp: strcpy_into_def split: if_splits)+)

lemma parse_args_ok: "config_ok c \<Longrightarrow> parse_args argv c = Inr (r, c') \<Longrightarrow> config_ok c' \<and> r \<in> {0, -1}"
proof (induction argv c arbitrary: r c' rule: parse_args.induct)
  case (2 arg rest c)
  show ?case
  proof (cases "arg = [] \<or> hd arg \<noteq> CHR ''-'' \<or> option_key_of (tl arg) = None")
    case True
    then show ?thesis using 2(1,2,4,5) by (cases "option_key_of (tl arg)") (simp_all split: if_splits)
  next
    case False
    then obtain k where k: "option_key_of (tl arg) = Some k" by auto
    then show ?thesis
    proof (cases rest)
      case Nil
      then show ?thesis using False k 2(4,5) by auto
    next
      case (Cons v rest')
      then obtain c1 where c1: "apply_option k v c = Inr c1" "parse_args rest' c1 = Inr (r, c')"
        using False k 2(5) by (auto simp: bindE_Inr_iff)
      show ?thesis
        using 2(3) [OF _ k Cons _ c1(2)] False 2(4) apply_option_ok [OF _ c1(1)] by simp
    qed
  qed
qed simp

definition safe_value :: "option_key \<Rightarrow> string \<Rightarrow> bool" where
  "safe_value k v \<longleftrightarrow> (k = K_ip \<longrightarrow> length v < 20) \<and> (k \<in> {K_name, K_target} \<longrightarrow> length v \<noteq> 64)"

lemma clip_fits: "cstring v \<Longrightarrow> length v \<noteq> 64 \<Longrightarrow> length (cstr (clip_arg v)) < 64"
  by (auto simp: clip_arg_def cstr_cstring cstring_take)

lemma apply_option_fault: "cstring v \<Longrightarrow> apply_option k v c = Inl e \<longleftrightarrow> e = Overflow \<and> \<not> safe_value k v"
  using clip_fits [of v]
  by (cases k) (auto simp: safe_value_def bindE_Inl_iff strcpy_into_def cstr_cstring clip_arg_def cstring_take
      split: if_splits)

text \<open>The values that \<open>parse\<close> uses, with their keys.\<close>

fun used_options :: "string list \<Rightarrow> (option_key \<times> string) list" where
  "used_options [] = []"
| "used_options (arg # rest) =
     (if arg = [] \<or> hd arg \<noteq> CHR ''-'' then used_options rest
      else case option_key_of (tl arg) of
             None \<Rightarrow> used_options rest
           | Some k \<Rightarrow> (case rest of [] \<Rightarrow> [] | v # rest' \<Rightarrow> (k, v) # used_options rest'))"

lemma parse_fault_iff:
  "list_all cstring argv \<Longrightarrow>
   (\<exists>e. parse_args argv c = Inl e) \<longleftrightarrow> (\<exists>(k, v) \<in> set (used_options argv). \<not> safe_value k v)"
proof (induction argv c rule: parse_args.induct)
  case (1 c)
  then show ?case by simp
next
  case (2 arg rest c)
  show ?case
  proof (cases "arg = [] \<or> hd arg \<noteq> CHR ''-'' \<or> option_key_of (tl arg) = None")
    case True
    then show ?thesis using 2(1,2,4) by (cases "option_key_of (tl arg)") simp_all
  next
    case False
    then obtain k where k: "option_key_of (tl arg) = Some k" by auto
    show ?thesis
    proof (cases rest)
      case Nil
      then show ?thesis using False k by simp
    next
      case (Cons v rest')
      show ?thesis
      proof (cases "apply_option k v c")
        case (Inl e)
        then show ?thesis using False k Cons 2(4) apply_option_fault [of v k c e] by auto
      next
        case (Inr c')
        then have "safe_value k v"
          using 2(4) Cons apply_option_fault [of v k c Overflow] by auto
        then show ?thesis using False k Cons Inr 2(3) [of k v rest' c'] 2(4) by auto
      qed
    qed
  qed
qed

lemma parse_option:
  assumes "option_key_of key = Some k"
  shows "parse_args ((CHR ''-'' # key) # v # rest) c = bindE (apply_option k v c) (parse_args rest)"
  using assms by simp

end
