(* ===== verification/Agent_Net.thy ===== *)
theory Agent_Net
  imports Agent_Config
begin

text \<open>
  The device agent and the outside: the calls it makes to the operating system and to the
  device SDK, and \<open>core_transfer\<close>, the blocking TCP client to the local web server. Every
  call is logged with its result; the results of the calls whose result is looked at come from
  a list of answers, so that a statement over all answers covers every behaviour of the
  outside. When the list is used up a call fails with -1. A read answers with bytes, cut to
  the length that was asked for.
\<close>

section \<open>The outside\<close>

datatype os_call =
    C_socket | C_setsockopt int | C_connect int | C_close int | C_send int string
  | C_read int nat | C_epoll_create | C_epoll_add int | C_epoll_del int
  | C_open string | C_write int string | C_syncfs int
  | C_thread_create | C_thread_cancel int | C_thread_join int | C_rand
  | S_send_data int string | S_connection_close int int | S_connection_init int int string string
  | S_set_config int nat | S_frame_mode int | S_device_init string string string int bool
  | S_device_close int | S_send_msg int string string | S_init | S_uninit

record world =
  w_ans :: "(int \<times> string) list"
  w_log :: "(os_call \<times> int) list"

definition tell :: "os_call \<Rightarrow> world \<Rightarrow> world" where
  "tell c w = w\<lparr>w_log := w_log w @ [(c, 0)]\<rparr>"

definition ask :: "os_call \<Rightarrow> world \<Rightarrow> int \<times> world" where
  "ask c w = (let r = (case w_ans w of [] \<Rightarrow> -1 | a # _ \<Rightarrow> fst a)
              in (r, w\<lparr>w_ans := tl (w_ans w), w_log := w_log w @ [(c, r)]\<rparr>))"

definition ask_read :: "int \<Rightarrow> nat \<Rightarrow> world \<Rightarrow> int \<times> string \<times> world" where
  "ask_read fd n w =
     (let (r, bs) = (case w_ans w of [] \<Rightarrow> (-1, []) | a # _ \<Rightarrow> if fst a < 0 then (-1, []) else (int (length (take n (snd a))), take n (snd a)))
      in (r, bs, w\<lparr>w_ans := tl (w_ans w), w_log := w_log w @ [(C_read fd n, r)]\<rparr>))"

section \<open>core_transfer\<close>

record endpoint =
  sock :: int
  remote_end :: string
  meta_id :: int
  handle_id :: int

definition sock_open :: "int \<Rightarrow> bool" where
  "sock_open s \<longleftrightarrow> s > 0"

definition to_i16 :: "int \<Rightarrow> int" where
  "to_i16 x = (x + 32768) mod 65536 - 32768"

text \<open>The constructor; \<open>meta_id\<close> is an \<open>int\<close> and \<open>handle_id\<close> a \<open>short\<close>.\<close>

definition new_core_transfer :: "string \<Rightarrow> int \<Rightarrow> int \<Rightarrow> endpoint" where
  "new_core_transfer remote meta handle =
     \<lparr>sock = -1, remote_end = remote, meta_id = to_i32 meta, handle_id = to_i16 handle\<rparr>"

definition create_connection :: "endpoint \<Rightarrow> world \<Rightarrow> int \<times> endpoint \<times> world" where
  "create_connection e w =
     (if sock_open (sock e) then (-1, e, w)
      else let (s, w1) = ask C_socket w;
               e1 = e\<lparr>sock := s\<rparr>;
               w2 = tell (C_setsockopt s) (tell (C_setsockopt s) w1)
           in (if s < 0 then -1 else 0, e1, w2))"

definition connect_blk :: "endpoint \<Rightarrow> world \<Rightarrow> int \<times> endpoint \<times> world" where
  "connect_blk e w =
     (let (_, e1, w1) = create_connection e w
      in if \<not> sock_open (sock e1) then (-1, e1, w1)
         else let (r, w2) = ask (C_connect (sock e1)) w1
              in (if r \<noteq> 0 then -1 else 0, e1, w2))"

definition disconnect_blk :: "endpoint \<Rightarrow> world \<Rightarrow> endpoint \<times> world" where
  "disconnect_blk e w =
     (if \<not> sock_open (sock e) then (e, w)
      else let (r, w1) = ask (C_close (sock e)) w in (e\<lparr>sock := -1\<rparr>, w1))"

definition reconnect_blk :: "endpoint \<Rightarrow> world \<Rightarrow> endpoint \<times> world" where
  "reconnect_blk e w =
     (if sock_open (sock e)
      then let (e1, w1) = disconnect_blk e w; (_, e2, w2) = connect_blk e1 w1 in (e2, w2)
      else let (_, e2, w2) = connect_blk e w in (e2, w2))"

text \<open>The destructor.\<close>

definition destroy_transfer :: "endpoint \<Rightarrow> world \<Rightarrow> world" where
  "destroy_transfer e w = (if sock e \<noteq> -1 then tell (C_close (sock e)) w else w)"

text \<open>
  The loop of \<open>send_blk\<close>. \<open>mem\<close> is the memory from \<open>data\<close> on; a call is given the bytes that
  are not yet sent.
\<close>

function send_blk_loop :: "int \<Rightarrow> string \<Rightarrow> nat \<Rightarrow> nat \<Rightarrow> world \<Rightarrow> nat \<times> world" where
  "send_blk_loop s mem len bytes_transfer w =
     (if len \<le> bytes_transfer then (bytes_transfer, w)
      else let (once, w1) = ask (C_send s (take (len - bytes_transfer) (drop bytes_transfer mem))) w
           in if once < 0 then (bytes_transfer, w1)
              else if once = 0 then (bytes_transfer, w1)
              else if bytes_transfer + nat once \<ge> len then (bytes_transfer + nat once, w1)
              else send_blk_loop s mem len (bytes_transfer + nat once) w1)"
  by pat_completeness auto
termination
  by (relation "measure (\<lambda>(s, mem, len, bt, w). len - bt)") auto

definition send_blk :: "endpoint \<Rightarrow> string \<Rightarrow> nat \<Rightarrow> world \<Rightarrow> int \<times> world" where
  "send_blk e mem len w =
     (if \<not> sock_open (sock e) then (-1, w)
      else let (n, w1) = send_blk_loop (sock e) mem len 0 w in (to_i32 (int n), w1))"

definition recv_blk :: "endpoint \<Rightarrow> nat \<Rightarrow> world \<Rightarrow> int \<times> string \<times> world" where
  "recv_blk e len w = (if \<not> sock_open (sock e) then (-1, [], w) else ask_read (sock e) len w)"

section \<open>Lemmas\<close>

declare send_blk_loop.simps [simp del]

lemma ask_log: "w_log (snd (ask c w)) = w_log w @ [(c, fst (ask c w))]"
  by (simp add: ask_def Let_def)

lemma ask_Cons: "w_ans w = (r, x) # ans \<Longrightarrow> ask c w = (r, w\<lparr>w_ans := ans, w_log := w_log w @ [(c, r)]\<rparr>)"
  by (simp add: ask_def)

lemma tell_log [simp]: "w_log (tell c w) = w_log w @ [(c, 0)]"
  by (simp add: tell_def)

lemma tell_ans [simp]: "w_ans (tell c w) = w_ans w"
  by (simp add: tell_def)

text \<open>What the log says was accepted by \<open>send\<close> on a socket, in order.\<close>

fun sent_bytes :: "(os_call \<times> int) list \<Rightarrow> string" where
  "sent_bytes [] = []"
| "sent_bytes ((C_send s d, r) # l) = take (nat r) d @ sent_bytes l"
| "sent_bytes (_ # l) = sent_bytes l"

lemma sent_bytes_append [simp]: "sent_bytes (l @ k) = sent_bytes l @ sent_bytes k"
  by (induction l rule: sent_bytes.induct) auto

text \<open>The documented behaviour of \<open>send\<close>: it accepts at most what it is given.\<close>

definition sends_ok :: "(os_call \<times> int) list \<Rightarrow> bool" where
  "sends_ok l \<longleftrightarrow> (\<forall>(c, r) \<in> set l. case c of C_send s d \<Rightarrow> r \<le> int (length d) | _ \<Rightarrow> True)"

lemma sends_ok_append [simp]: "sends_ok (l @ k) \<longleftrightarrow> sends_ok l \<and> sends_ok k"
  by (auto simp: sends_ok_def)

lemma send_blk_loop_spec:
  assumes "send_blk_loop s mem len bt w = (n, w')" and "len \<le> length mem" and "bt \<le> len" and "sends_ok (w_log w')"
  shows "\<exists>l. w_log w' = w_log w @ l \<and> bt \<le> n \<and> n \<le> len \<and> sent_bytes l = take (n - bt) (drop bt mem)
    \<and> (n < len \<longrightarrow> l \<noteq> [] \<and> snd (last l) \<le> 0)"
  using assms
proof (induction s mem len bt w arbitrary: n w' rule: send_blk_loop.induct)
  case (1 s mem len bt w)
  let ?c = "C_send s (take (len - bt) (drop bt mem))"
  obtain once w1 where a: "ask ?c w = (once, w1)" by fastforce
  then have log1: "w_log w1 = w_log w @ [(?c, once)]"
    using ask_log [of ?c w] by simp
  show ?case
  proof (cases "len \<le> bt")
    case True
    then show ?thesis using "1.prems" by (subst (asm) send_blk_loop.simps) auto
  next
    case False
    note step = "1.prems"(1) [unfolded send_blk_loop.simps [of s mem len bt w], simplified False a, simplified]
    show ?thesis
    proof (cases "once \<le> 0")
      case True
      then have "n = bt" "w' = w1" using step by (auto split: if_splits)
      then show ?thesis using True log1 "1.prems" False by (intro exI [of _ "[(?c, once)]"]) auto
    next
      case pos: False
      show ?thesis
      proof (cases "len \<le> bt + nat once")
        case True
        then have e: "n = bt + nat once" "w' = w1" using step pos by (auto split: if_splits)
        then have "once \<le> int (len - bt)" using "1.prems"(2,4) log1 by (auto simp: sends_ok_def)
        then have "nat once = len - bt" "n = len" using True e pos False by auto
        then show ?thesis using e log1 pos False "1.prems"(2) by (intro exI [of _ "[(?c, once)]"]) auto
      next
        case more: False
        then have r: "send_blk_loop s mem len (bt + nat once) w1 = (n, w')" using step pos by (auto split: if_splits)
        obtain l where l: "w_log w' = w_log w1 @ l" "bt + nat once \<le> n" "n \<le> len"
            "sent_bytes l = take (n - (bt + nat once)) (drop (bt + nat once) mem)"
            "n < len \<longrightarrow> l \<noteq> [] \<and> snd (last l) \<le> 0"
          using "1.IH" [OF False a [symmetric] refl _ _ _ r] pos more "1.prems"(2,4) by (auto simp: not_le)
        have "take (nat once) (drop bt mem) @ take (n - (bt + nat once)) (drop (bt + nat once) mem) = take (n - bt) (drop bt mem)"
          using take_drop_append [of "nat once" "drop bt mem" "n - (bt + nat once)"] l(2)
          by (simp add: add.commute)
        then show ?thesis
          using l log1 more by (intro exI [of _ "(?c, once) # l"]) (auto simp: min_def)
      qed
    qed
  qed
qed

end
