(* ===== verification/Agent.thy ===== *)
theory Agent
  imports Agent_Net
begin

text \<open>
  The callbacks of the device agent, \<open>2webclient/deviceagent.cpp\<close>: the global state of the
  process and the functions \<open>OnSDK...\<close> that the device SDK calls, with \<open>InitDevice\<close>,
  \<open>InitConnection\<close>, \<open>CloseConnection\<close> and \<open>SendMsgToServer\<close>. A data callback gets the memory
  from \<open>pConnData\<close> on, with what lies behind the \<open>nLen\<close> bytes of the frame, because the code
  runs string functions over it.
\<close>

section \<open>State\<close>

record conn =
  conn_id :: int
  conn_dev :: int
  conn_ctx :: int
  conn_name :: string
  conn_promoter :: bool

record agent =
  cfg :: config
  send_flg :: int
  reinit_flg :: int
  coninit_flg :: int
  closecon_flg :: int
  msg_flg :: int
  send_thread_flg :: int
  server_not_send_flag :: int
  szMsgName :: string
  nLocalDeviceID :: int
  vecConnections :: "conn list"
  vecEndpoints :: "endpoint list"
  epfd :: int
  file_handle :: "int list"
  out_fd :: "int list"
  nErrorCount :: int
  device_counter :: int
  connection_counter :: int
  connection_index :: int
  last_frame_ticket :: "int \<times> int"
  os :: world

definition upd_os :: "(world \<Rightarrow> world) \<Rightarrow> agent \<Rightarrow> agent" where
  "upd_os f a = a\<lparr>os := f (os a)\<rparr>"

section \<open>Device callbacks\<close>

definition OnSDKInit :: "int \<Rightarrow> int \<Rightarrow> agent \<Rightarrow> agent" where
  "OnSDKInit dev err a =
     (let a1 = (if epfd a = 0 then let (r, w) = ask C_epoll_create (os a) in a\<lparr>epfd := r, os := w\<rparr> else a);
          a2 = a1\<lparr>nLocalDeviceID := dev\<rparr>;
          a3 = (if mode (cfg a2) = 0 \<and> err = 0 then a2\<lparr>coninit_flg := 1\<rparr> else a2)
      in if err = 0 then a3\<lparr>reinit_flg := 0\<rparr> else a3)"

text \<open>The message is copied and ended with a NUL before it is compared.\<close>

definition OnSDKMessage :: "string \<Rightarrow> nat \<Rightarrow> agent \<Rightarrow> agent" where
  "OnSDKMessage pData nLen a =
     (let msg = cstr (take nLen pData)
      in if mode (cfg a) = 1
         then let a1 = (if msg = ''start send'' then a\<lparr>send_flg := 1\<rparr> else a)
              in (if msg = ''stop send'' then a1\<lparr>send_flg := 0\<rparr> else a1)
         else a)"

text \<open>The loops over both vectors of \<open>OnSDKClose\<close> and \<open>CloseConnection\<close>.\<close>

fun close_connections :: "int \<Rightarrow> conn list \<Rightarrow> world \<Rightarrow> world" where
  "close_connections dev [] w = w"
| "close_connections dev (c # cs) w = close_connections dev cs (tell (S_connection_close dev (conn_id c)) w)"

definition drop_endpoint :: "endpoint \<Rightarrow> world \<Rightarrow> world" where
  "drop_endpoint e w = (let (e1, w1) = disconnect_blk e (tell (C_epoll_del (sock e)) w) in destroy_transfer e1 w1)"

fun drop_endpoints :: "endpoint list \<Rightarrow> world \<Rightarrow> world" where
  "drop_endpoints [] w = w"
| "drop_endpoints (e # es) w = drop_endpoints es (drop_endpoint e w)"

definition close_all :: "int \<Rightarrow> agent \<Rightarrow> agent" where
  "close_all dev a =
     (let a1 = a\<lparr>os := close_connections dev (vecConnections a) (os a), vecConnections := []\<rparr>
      in if mode (cfg a1) = 1 then a1\<lparr>os := drop_endpoints (vecEndpoints a1) (os a1), vecEndpoints := []\<rparr> else a1)"

definition OnSDKClose :: "int \<Rightarrow> agent \<Rightarrow> agent" where
  "OnSDKClose dev a =
     (let a1 = (if dev = nLocalDeviceID a then close_all dev a else a) in a1\<lparr>reinit_flg := 1\<rparr>)"

definition CloseConnection :: "agent \<Rightarrow> agent" where
  "CloseConnection a = close_all (nLocalDeviceID a) a"

text \<open>The argument is \<open>None\<close> for a null \<open>pInfo\<close>: the counter tests for it, the \<open>printf\<close> does not.\<close>

definition OnSDKTimer :: "int option \<Rightarrow> agent \<Rightarrow> fault + agent" where
  "OnSDKTimer info a =
     (let a1 = (case info of None \<Rightarrow> a
                | Some dev \<Rightarrow> if dev \<noteq> 0 \<and> dev = nLocalDeviceID a
                              then a\<lparr>device_counter := to_i32 (device_counter a + 1)\<rparr> else a)
      in if timer_enable (cfg a1) \<noteq> 0 \<and> device_counter a1 mod 20 = 0 \<and> info = None
         then Inl Null_Deref else Inr a1)"

definition OnSDKConnectionTimer :: "agent \<Rightarrow> agent" where
  "OnSDKConnectionTimer a = a\<lparr>connection_counter := to_i32 (connection_counter a + 1)\<rparr>"

section \<open>Connection callbacks\<close>

definition OnSDKConnectionInit :: "conn \<Rightarrow> int \<Rightarrow> agent \<Rightarrow> agent" where
  "OnSDKConnectionInit info err a =
     (if err \<noteq> 0 then a\<lparr>nErrorCount := nErrorCount a + 1\<rparr>
      else let a1 = a\<lparr>vecConnections := vecConnections a @ [info]\<rparr>;
               a2 = upd_os (tell (S_set_config (conn_id info) (200 * 1024))) a1;
               a3 = (if frame_mode_enable (cfg a2) \<noteq> 0 then upd_os (tell (S_frame_mode (conn_id info))) a2 else a2);
               a4 = (if mode (cfg a3) = 0 \<and> conn_promoter info
                     then a3\<lparr>szMsgName := conn_name info, msg_flg := 1\<rparr> else a3)
           in if mode (cfg a4) = 1 then a4\<lparr>send_thread_flg := 1\<rparr> else a4)"

fun drop_conn_endpoints :: "int \<Rightarrow> endpoint list \<Rightarrow> world \<Rightarrow> endpoint list \<times> world" where
  "drop_conn_endpoints cid [] w = ([], w)"
| "drop_conn_endpoints cid (e # es) w =
     (if meta_id e = cid then drop_conn_endpoints cid es (drop_endpoint e w)
      else let (es', w') = drop_conn_endpoints cid es w in (e # es', w'))"

definition OnSDKConnectionClose :: "conn \<Rightarrow> agent \<Rightarrow> agent" where
  "OnSDKConnectionClose info a =
     (let a1 = a\<lparr>vecConnections := filter (\<lambda>c. conn_id c \<noteq> conn_id info) (vecConnections a)\<rparr>;
          a2 = (if mode (cfg a1) = 1
                then let (es, w) = drop_conn_endpoints (conn_id info) (vecEndpoints a1) (os a1)
                     in a1\<lparr>vecEndpoints := es, os := w\<rparr>
                else a1)
      in upd_os (tell (S_connection_close (conn_dev info) (conn_id info))) a2)"

section \<open>Frames\<close>

definition le_bytes :: "nat \<Rightarrow> int \<Rightarrow> string" where
  "le_bytes n x = map (\<lambda>i. char_of (nat (x div 256 ^ i mod 256))) [0..<n]"

definition frame_header :: "int \<Rightarrow> string" where
  "frame_header handle = replicate 8 CHR 0x00 @ le_bytes 2 handle @ replicate 22 CHR 0x00"

definition header_handle :: "string \<Rightarrow> int" where
  "header_handle buf = to_i16 (of_char (buf ! 8) + 256 * of_char (buf ! 9))"

fun strstr :: "string \<Rightarrow> string \<Rightarrow> nat option" where
  "strstr [] n = (if n = [] then Some 0 else None)"
| "strstr (c # cs) n = (if take (length n) (c # cs) = n then Some 0 else map_option Suc (strstr cs n))"

definition crlf :: string where
  "crlf = [CHR 0x0D, CHR 0x0A]"

text \<open>The request that is sent on: \<open>p\<close> is the text at \<open>pData\<close>.\<close>

definition rewrite_request :: "string \<Rightarrow> nat \<Rightarrow> string \<Rightarrow> fault + string" where
  "rewrite_request p nLen remote =
     (let host = ''Host: '' @ remote @ crlf
      in if strstr p ''GET /verification'' \<noteq> None
         then (case strstr p ''Connection'' of
                 Some k \<Rightarrow> if k < nLen then Inr (''GET / HTTP/1.1'' @ crlf @ host @ drop k p) else Inr p
               | None \<Rightarrow> Inr p)
         else (case strstr p ''Host'' of
                 Some k \<Rightarrow> if k < nLen
                           then (case strstr p ''Connection'' of
                                   None \<Rightarrow> Inl Null_Deref
                                 | Some j \<Rightarrow> Inr (take k p @ host @ drop j p))
                           else Inr p
               | None \<Rightarrow> Inr p))"

definition json_reply :: string where
  "json_reply = ''{\"id\":0,\"params\":[{\"id\":0,\"params\":{\"definition\":\"ZL_7108E\"},\"result\":true},{\"id\":0,\"params\":{\"definition\":16},\"result\":true},{\"id\":0,\"params\":{\"netInterface\":[{\"PhysicalAddress\":\"01:11:B0:EF:1C:A4\"}]},\"result\":true}],\"result\":true}'' @ [CHR 0x0A, CHR 0x00]"

definition json_response :: string where
  "json_response = [CHR 0x01, CHR 0x00, CHR 0x00, CHR 0x00] @ le_bytes 4 (int (length json_reply))
     @ replicate 24 CHR 0x00 @ json_reply"

fun find_endpoint :: "int \<Rightarrow> int \<Rightarrow> endpoint list \<Rightarrow> nat option" where
  "find_endpoint cid h [] = None"
| "find_endpoint cid h (e # es) =
     (if cid = meta_id e \<and> h = handle_id e then Some 0 else map_option Suc (find_endpoint cid h es))"

section \<open>Data\<close>

definition remote_addr :: string where
  "remote_addr = ''10.12.2.121''"

definition open_endpoint :: "int \<Rightarrow> int \<Rightarrow> agent \<Rightarrow> fault + agent" where
  "open_endpoint cid h a =
     (let (_, e, w) = connect_blk (new_core_transfer remote_addr cid h) (os a)
      in if sock e > 0 then Inr (a\<lparr>vecEndpoints := vecEndpoints a @ [e], os := tell (C_epoll_add (sock e)) w\<rparr>)
         else Inl Assertion)"

text \<open>\<open>behind\<close> is the memory behind the string, which \<open>send_blk\<close> reads because it is given \<open>nLen\<close>.\<close>

definition forward_request :: "nat \<Rightarrow> string \<Rightarrow> nat \<Rightarrow> string \<Rightarrow> agent \<Rightarrow> fault + agent" where
  "forward_request i p nLen behind a =
     (let e = vecEndpoints a ! i in
      bindE (rewrite_request p nLen (remote_end e)) (\<lambda>req.
        let mem = req @ CHR 0x00 # behind;
            (ret, w1) = send_blk e mem nLen (os a)
        in if ret \<le> 0
           then let (e1, w2) = reconnect_blk e (tell (C_epoll_del (sock e)) w1)
                in if sock e1 > 0
                   then let (ret2, w3) = send_blk e1 mem nLen (tell (C_epoll_add (sock e1)) w2)
                        in Inr (a\<lparr>vecEndpoints := (vecEndpoints a)[i := e1], os := w3\<rparr>)
                   else Inl Assertion
           else Inr (a\<lparr>os := w1\<rparr>)))"

definition close_endpoint :: "nat \<Rightarrow> agent \<Rightarrow> fault + agent" where
  "close_endpoint i a =
     (let e = vecEndpoints a ! i in
      bindE (index_array (out_fd a) (handle_id e)) (\<lambda>ofd.
        let w1 = (if ofd > 0 then tell (C_close ofd) (os a) else os a);
            (e1, w2) = disconnect_blk e w1
        in Inr (a\<lparr>out_fd := (out_fd a)[nat (handle_id e) := -1],
                  vecEndpoints := take i (vecEndpoints a) @ drop (Suc i) (vecEndpoints a),
                  os := destroy_transfer e1 w2\<rparr>)))"

definition server_data :: "conn \<Rightarrow> string \<Rightarrow> nat \<Rightarrow> string \<Rightarrow> agent \<Rightarrow> fault + agent" where
  "server_data info buf nLen behind a =
     (if length buf < 32 then Inl Bad_Index
      else let h = header_handle buf;
               is_disconnect = (buf ! 10 \<noteq> CHR 0x00)
           in if buf ! 0 = CHR 0x01
              then Inr (upd_os (tell (S_send_data (conn_id info) json_response)) a)
              else case find_endpoint (conn_id info) h (vecEndpoints a) of
                     Some i \<Rightarrow> if is_disconnect then close_endpoint i a
                               else forward_request i (cstr (drop 32 buf)) nLen behind a
                   | None \<Rightarrow> bindE (open_endpoint (conn_id info) h a) (\<lambda>a1.
                       forward_request (length (vecEndpoints a)) (cstr (drop 32 buf)) nLen behind a1))"

text \<open>\<open>nLen - 32\<close> is computed on \<open>unsigned int\<close>.\<close>

definition client_data :: "string \<Rightarrow> nat \<Rightarrow> agent \<Rightarrow> fault + agent" where
  "client_data buf nLen a =
     (if length buf < 32 then Inl Bad_Index
      else let h = header_handle buf;
               n = nat ((int nLen - 32) mod 4294967296)
           in bindE (index_array (file_handle a) h) (\<lambda>fd0.
                let a1 = (if fd0 < 0
                          then let (fd, w) = ask (C_open (''file-content-'' @ dec_str (nat h))) (os a)
                               in a\<lparr>file_handle := (file_handle a)[nat h := fd], os := w\<rparr>
                          else a);
                    fd = file_handle a1 ! nat h
                in if fd > 0
                   then let (ret, w) = ask (C_write fd (take n (drop 32 buf))) (os a1)
                        in if ret mod 4294967296 = int n then Inr (a1\<lparr>os := tell (C_syncfs fd) w\<rparr>) else Inl Assertion
                   else Inl Assertion))"

definition OnSDKConnectionData :: "conn \<Rightarrow> string \<Rightarrow> nat \<Rightarrow> string \<Rightarrow> agent \<Rightarrow> fault + agent" where
  "OnSDKConnectionData info buf nLen behind a =
     (if mode (cfg a) = 1 then server_data info buf nLen behind a else client_data buf nLen a)"

section \<open>Frames of the media mode\<close>

definition timeval_subtract :: "int \<times> int \<Rightarrow> int \<times> int \<Rightarrow> (int \<times> int) option" where
  "timeval_subtract x y =
     (if fst x > fst y then None
      else if fst x = fst y \<and> snd x > snd y then None
      else let s = fst y - fst x; u = snd y - snd x
           in if u < 0 then Some (s - 1, u + 1000000) else Some (s, u))"

text \<open>Division of \<open>int\<close> by 1000, towards zero.\<close>

definition ms_of :: "int \<Rightarrow> int" where
  "ms_of u = (if u < 0 then - ((- u) div 1000) else u div 1000)"

text \<open>
  The milliseconds that are printed; \<open>diff\<close> is what the uninitialised variable held when the
  subtraction fails.
\<close>

definition OnSDKConnectionFrame :: "int \<times> int \<Rightarrow> int \<times> int \<Rightarrow> agent \<Rightarrow> int \<times> agent" where
  "OnSDKConnectionFrame diff time_now a =
     (let d = (case timeval_subtract (last_frame_ticket a) time_now of None \<Rightarrow> diff | Some d \<Rightarrow> d)
      in (ms_of (snd d), a\<lparr>last_frame_ticket := time_now\<rparr>))"

section \<open>Calls of the main loop\<close>

text \<open>The string fields of \<open>stDeviceInfo\<close> hold 64, 50 and 64 characters.\<close>

definition InitDevice :: "agent \<Rightarrow> fault + agent" where
  "InitDevice a =
     bindE (strcpy_into 64 (szName (cfg a))) (\<lambda>name.
     bindE (index_array SDK_DEVICE_TYPE_STR (nType (cfg a))) (\<lambda>ty.
     bindE (strcpy_into 64 (szIp (cfg a))) (\<lambda>ip.
       let (r, w) = ask (S_device_init name ty ip (nPort (cfg a) mod 65536) (timer_enable (cfg a) \<noteq> 0)) (os a)
       in Inr (a\<lparr>os := w\<rparr>))))"

definition InitConnection :: "agent \<Rightarrow> fault + agent" where
  "InitConnection a =
     (let ctx = connection_index a; a1 = a\<lparr>connection_index := to_i32 (ctx + 1)\<rparr> in
      bindE (strcpy_into 64 (szTarget (cfg a))) (\<lambda>name.
      bindE (index_array SDK_CONNECTION_TYPE_STR (nConnectionType (cfg a))) (\<lambda>ty.
       let (r, w) = ask (S_connection_init (nLocalDeviceID a) ctx name ty) (os a1)
       in Inr (a1\<lparr>os := w\<rparr>))))"

text \<open>\<open>C_Channel_T\<close>, packed: eight numbers, 256 bytes of data, one number.\<close>

definition channel_bytes :: string where
  "channel_bytes = concat (map (le_bytes 4) [0, 0, 0, 25, 5, 0, 2, 0]) @ replicate 256 CHR 0x00 @ le_bytes 4 0"

definition SendMsgToServer :: "agent \<Rightarrow> agent" where
  "SendMsgToServer a =
     upd_os (tell (S_send_msg (nLocalDeviceID a) (szMsgName a) (CHR 0x0A # channel_bytes))) a"

end
