(* ===== verification/Agent_Threads.thy ===== *)
theory Agent_Threads
  imports Agent
begin

text \<open>
  The threads and the main loop of the device agent, \<open>2webclient/deviceagent.cpp\<close>: the thread
  that reads the local web server and sends frames to the peer, the thread that sends test
  data, and \<open>main\<close>, one step per character typed.
\<close>

section \<open>Receiving thread\<close>

abbreviation recv_len_per :: nat where "recv_len_per \<equiv> 2097152"
abbreviation max_conn_send_retry :: nat where "max_conn_send_retry \<equiv> 10"

text \<open>
  \<open>while (ConnectionSendData(...) < 0)\<close> with the count of retries; the \<open>n\<close> bytes sent are the
  first of the header and the data, so that \<open>n < 32\<close> sends a part of the header.
\<close>

function send_retry :: "int \<Rightarrow> string \<Rightarrow> nat \<Rightarrow> world \<Rightarrow> fault + (nat \<times> world)" where
  "send_retry cid frame retry_count w =
     (let (r, w1) = ask (S_send_data cid frame) w
      in if r < 0
         then if retry_count > max_conn_send_retry then Inl Assertion
              else send_retry cid frame (retry_count + 1) w1
         else Inr (retry_count, w1))"
  by pat_completeness auto
termination
  by (relation "measure (\<lambda>(cid, frame, n, w). 11 - n)") auto

declare send_retry.simps [simp del]

text \<open>
  \<open>while (len >= __Recv_len_per)\<close>: the \<open>int\<close> is converted to \<open>size_t\<close> for the comparison.
  \<open>fuel\<close> bounds the rounds; \<open>None\<close> is a loop that is still running.
\<close>

fun drain :: "nat \<Rightarrow> endpoint \<Rightarrow> string \<Rightarrow> nat \<Rightarrow> int \<Rightarrow> world \<Rightarrow> (fault + world) option" where
  "drain 0 e hdr rc len w = (if to_size len \<ge> int recv_len_per then None else Some (Inr w))"
| "drain (Suc fuel) e hdr rc len w =
     (if to_size len \<ge> int recv_len_per
      then let (len1, bs, w1) = recv_blk e recv_len_per w;
               frame = take (nat (len1 + 32)) (hdr @ bs)
           in (case send_retry (meta_id e) frame rc w1 of
                 Inl f \<Rightarrow> Some (Inl f)
               | Inr (rc1, w2) \<Rightarrow> drain fuel e hdr rc1 len1 w2)
      else Some (Inr w))"

definition on_readable :: "nat \<Rightarrow> endpoint \<Rightarrow> world \<Rightarrow> (fault + world) option" where
  "on_readable fuel e w =
     (let (len, bs, w1) = recv_blk e recv_len_per w;
          hdr = frame_header (handle_id e)
      in if len > 0
         then (case send_retry (meta_id e) (hdr @ bs) 0 w1 of
                 Inl f \<Rightarrow> Some (Inl f)
               | Inr (_, w2) \<Rightarrow> drain fuel e hdr 0 len w2)
         else Some (Inr w1))"

fun recv_all :: "nat \<Rightarrow> int \<Rightarrow> endpoint list \<Rightarrow> world \<Rightarrow> (fault + world) option" where
  "recv_all fuel fd [] w = Some (Inr w)"
| "recv_all fuel fd (e # es) w =
     (if sock e = fd
      then (case on_readable fuel e w of
              Some (Inr w1) \<Rightarrow> recv_all fuel fd es w1
            | r \<Rightarrow> r)
      else recv_all fuel fd es w)"

definition disconnect_frame :: "int \<Rightarrow> string" where
  "disconnect_frame handle = (frame_header handle)[10 := CHR 0x01]"

fun hangup :: "int \<Rightarrow> endpoint list \<Rightarrow> world \<Rightarrow> endpoint list \<times> world" where
  "hangup fd [] w = ([], w)"
| "hangup fd (e # es) w =
     (if sock e = fd
      then let (e1, w1) = disconnect_blk e w;
               w2 = tell (S_send_data (meta_id e1) (disconnect_frame (handle_id e1))) w1
           in (es, destroy_transfer e1 w2)
      else let (es', w') = hangup fd es w in (e # es', w'))"

record ep_event =
  ev_fd :: int
  ev_in :: bool
  ev_hup :: bool

text \<open>What \<open>RecvThread\<close> does with one event of \<open>epoll_wait\<close>, and with all of them.\<close>

definition recv_event :: "nat \<Rightarrow> ep_event \<Rightarrow> agent \<Rightarrow> (fault + agent) option" where
  "recv_event fuel ev a =
     (case (if ev_in ev then recv_all fuel (ev_fd ev) (vecEndpoints a) (os a) else Some (Inr (os a))) of
        None \<Rightarrow> None
      | Some (Inl f) \<Rightarrow> Some (Inl f)
      | Some (Inr w) \<Rightarrow>
          if ev_hup ev
          then let (es, w1) = hangup (ev_fd ev) (vecEndpoints a) w
               in Some (Inr (a\<lparr>vecEndpoints := es, os := w1\<rparr>))
          else Some (Inr (a\<lparr>os := w\<rparr>)))"

fun RecvThread :: "nat \<Rightarrow> ep_event list \<Rightarrow> agent \<Rightarrow> (fault + agent) option" where
  "RecvThread fuel [] a = Some (Inr a)"
| "RecvThread fuel (ev # evs) a =
     (case recv_event fuel ev a of
        Some (Inr a1) \<Rightarrow> RecvThread fuel evs a1
      | r \<Rightarrow> r)"

section \<open>Thread objects\<close>

record thread_obj =
  t_index :: int
  t_running :: bool
  t_id :: int
  buffing_count1 :: int

definition new_send_thread :: "int \<Rightarrow> thread_obj \<times> int" where
  "new_send_thread n = (\<lparr>t_index = n, t_running = True, t_id = 0, buffing_count1 = 0\<rparr>, n + 1)"

definition new_recv_thread :: thread_obj where
  "new_recv_thread = \<lparr>t_index = 0, t_running = True, t_id = 0, buffing_count1 = 0\<rparr>"

text \<open>
  \<open>start\<close> of both kinds; \<open>tid\<close> is what \<open>pthread_create\<close> stores. \<open>CRecvThread::start\<close> has no
  \<open>return\<close> on its normal path, so its result there is not modelled.
\<close>

definition thread_start :: "int \<Rightarrow> thread_obj \<Rightarrow> world \<Rightarrow> int \<times> thread_obj \<times> world" where
  "thread_start tid t w =
     (if t_id t = 0
      then let (r, w1) = ask C_thread_create w
           in if r \<noteq> 0 then (-1, t\<lparr>t_id := 0\<rparr>, w1) else (0, t\<lparr>t_id := tid\<rparr>, w1)
      else (0, t, w))"

definition recv_thread_start :: "int \<Rightarrow> thread_obj \<Rightarrow> world \<Rightarrow> thread_obj \<times> world" where
  "recv_thread_start tid t w = snd (thread_start tid t w)"

definition thread_stop :: "thread_obj \<Rightarrow> world \<Rightarrow> thread_obj \<times> world" where
  "thread_stop t w =
     (let t1 = t\<lparr>t_running := False\<rparr>
      in if t_id t1 \<noteq> 0
         then (t1\<lparr>t_id := 0\<rparr>, tell (C_thread_join (t_id t1)) (tell (C_thread_cancel (t_id t1)) w))
         else (t1, w))"

definition recv_thread_stop :: "thread_obj \<Rightarrow> world \<Rightarrow> thread_obj \<times> world" where
  "recv_thread_stop t w =
     (let t1 = t\<lparr>t_running := False\<rparr>
      in if t_id t1 \<noteq> 0
         then (t1\<lparr>t_id := 0\<rparr>, tell (C_thread_join (t_id t1)) (tell (C_thread_cancel (t_id t1)) w))
         else (t1, w))"

section \<open>Sending thread\<close>

text \<open>\<open>rand()\<close> is not negative.\<close>

definition send_len :: "config \<Rightarrow> int \<Rightarrow> int \<Rightarrow> int" where
  "send_len c send_count rnd =
     (if buffing c \<noteq> 0 then (rnd mod 200) * 1024 + 1024 * 500
      else if send_count mod 25 = 0 then (rnd mod 100) * 1000 + 100000
      else rnd mod 5000 + 1000)"

text \<open>
  One connection id of the copy that was made under the lock; \<open>i\<close> is its position there and
  \<open>buf\<close> the buffer of the thread. The close uses the position in the copy as the position in
  the vector.
\<close>

definition send_one :: "nat \<Rightarrow> int \<Rightarrow> int \<Rightarrow> string \<Rightarrow> thread_obj \<Rightarrow> agent \<Rightarrow> fault + (thread_obj \<times> agent)" where
  "send_one i cid send_count buf t a =
     (let (rnd, w1) = ask C_rand (os a);
          len = send_len (cfg a) send_count (max 0 rnd);
          (rt, w2) = ask (S_send_data cid (take (nat len) buf)) w1;
          t1 = t\<lparr>buffing_count1 := (if rt = 0 then buffing_count1 t + 1 else 0)\<rparr>;
          a1 = a\<lparr>os := w2\<rparr>
      in if buffing (cfg a1) \<noteq> 0 \<and> buffing_count1 t1 > buffing_count (cfg a1)
         then if i < length (vecConnections a1)
              then let c = vecConnections a1 ! i
                   in Inr (t1\<lparr>buffing_count1 := 0\<rparr>,
                        a1\<lparr>os := tell (S_connection_close (conn_dev c) (conn_id c)) (os a1),
                            vecConnections := take i (vecConnections a1) @ drop (Suc i) (vecConnections a1)\<rparr>)
              else Inl Bad_Index
         else Inr (t1, a1))"

fun send_round :: "nat \<Rightarrow> int list \<Rightarrow> int \<Rightarrow> string \<Rightarrow> thread_obj \<Rightarrow> agent \<Rightarrow> fault + (thread_obj \<times> agent)" where
  "send_round i [] send_count buf t a = Inr (t, a)"
| "send_round i (cid # ids) send_count buf t a =
     bindE (send_one i cid send_count buf t a) (\<lambda>(t1, a1). send_round (Suc i) ids send_count buf t1 a1)"

definition SendThread_pass :: "int \<Rightarrow> string \<Rightarrow> thread_obj \<Rightarrow> agent \<Rightarrow> fault + (int \<times> thread_obj \<times> agent)" where
  "SendThread_pass send_count buf t a =
     (if server_not_send_flag a = 0
      then bindE (send_round 0 (map conn_id (vecConnections a)) send_count buf t a)
             (\<lambda>(t1, a1). Inr (send_count + 1, t1, a1))
      else Inr (send_count, t, a))"

section \<open>The main loop\<close>

record program =
  ag :: agent
  test_id :: int
  id_request :: "int list"

text \<open>The test request and the pending ids of the commands \<open>t\<close> and \<open>y\<close>.\<close>

definition test_frame :: "string \<Rightarrow> int \<Rightarrow> string" where
  "test_frame request h = frame_header h @ request @ [CHR 0x00]"

fun cmd_test :: "string \<Rightarrow> conn list \<Rightarrow> program \<Rightarrow> program" where
  "cmd_test request [] p = p"
| "cmd_test request (c # cs) p =
     (let h = to_i16 (test_id p + 1)
      in cmd_test request cs (p\<lparr>test_id := h, id_request := id_request p @ [h],
           ag := upd_os (tell (S_send_data (conn_id c) (test_frame request h))) (ag p)\<rparr>))"

fun send_disconnects :: "int \<Rightarrow> int list \<Rightarrow> world \<Rightarrow> world" where
  "send_disconnects cid [] w = w"
| "send_disconnects cid (h # hs) w = send_disconnects cid hs (tell (S_send_data cid (disconnect_frame h)) w)"

fun cmd_disconnect :: "conn list \<Rightarrow> program \<Rightarrow> program" where
  "cmd_disconnect [] p = p"
| "cmd_disconnect (c # cs) p =
     cmd_disconnect cs (p\<lparr>ag := upd_os (send_disconnects (conn_id c) (id_request p)) (ag p)\<rparr>)"

text \<open>The tail of both loops: what the flags ask for.\<close>

definition step_close :: "agent \<Rightarrow> agent" where
  "step_close a = (if closecon_flg a \<noteq> 0 then CloseConnection (a\<lparr>closecon_flg := 0\<rparr>) else a)"

definition step_reinit :: "agent \<Rightarrow> fault + agent" where
  "step_reinit a = (if reinit_flg a \<noteq> 0 then InitDevice a else Inr a)"

definition server_cmd :: "char \<Rightarrow> agent \<Rightarrow> agent" where
  "server_cmd ch a =
     (let a1 = (if ch = CHR ''i'' then a\<lparr>reinit_flg := 1\<rparr> else a);
          a2 = (if ch = CHR ''s'' then a1\<lparr>closecon_flg := 1\<rparr> else a1);
          a3 = (if ch = CHR ''x'' then a2\<lparr>server_not_send_flag := 1\<rparr> else a2)
      in (if ch = CHR ''z'' then a3\<lparr>server_not_send_flag := 0\<rparr> else a3))"

text \<open>One round of the loop of the server (\<open>mode 1\<close>); \<open>None\<close> leaves the loop.\<close>

definition server_round :: "char \<Rightarrow> program \<Rightarrow> (fault + program) option" where
  "server_round ch p =
     (if ch = CHR ''q'' then None
      else Some (bindE (step_reinit (step_close (server_cmd ch (ag p)))) (\<lambda>a. Inr (p\<lparr>ag := a\<rparr>))))"

definition client_cmd :: "string \<Rightarrow> char \<Rightarrow> program \<Rightarrow> program" where
  "client_cmd request ch p =
     (let a = ag p;
          a1 = (if ch = CHR ''i'' then a\<lparr>reinit_flg := 1\<rparr> else a);
          a2 = (if ch = CHR ''c'' then a1\<lparr>coninit_flg := 1\<rparr> else a1);
          a3 = (if ch = CHR ''s'' then a2\<lparr>closecon_flg := 1\<rparr> else a2);
          p1 = p\<lparr>ag := a3\<rparr>;
          p2 = (if ch = CHR ''t'' then cmd_test request (vecConnections (ag p1)) p1 else p1)
      in (if ch = CHR ''y'' then (cmd_disconnect (vecConnections (ag p2)) p2)\<lparr>id_request := []\<rparr> else p2))"

definition step_msg :: "agent \<Rightarrow> agent" where
  "step_msg a = (if msg_flg a \<noteq> 0 then SendMsgToServer (a\<lparr>msg_flg := 0\<rparr>) else a)"

definition step_coninit :: "agent \<Rightarrow> fault + agent" where
  "step_coninit a = (if coninit_flg a \<noteq> 0 then InitConnection (a\<lparr>coninit_flg := 0\<rparr>) else Inr a)"

definition client_round :: "string \<Rightarrow> char \<Rightarrow> program \<Rightarrow> (fault + program) option" where
  "client_round request ch p =
     (if ch = CHR ''q'' then None
      else let p1 = client_cmd request ch p in
           Some (bindE (step_coninit (ag p1)) (\<lambda>a.
                 bindE (step_reinit (step_msg (step_close a))) (\<lambda>a'. Inr (p1\<lparr>ag := a'\<rparr>)))))"

fun close_files :: "int list \<Rightarrow> world \<Rightarrow> world" where
  "close_files [] w = w"
| "close_files (fd # fds) w = close_files fds (if fd > 0 then tell (C_close fd) w else w)"

fun close_out_streams :: "int list \<Rightarrow> world \<Rightarrow> world" where
  "close_out_streams [] w = w"
| "close_out_streams (fd # fds) w = close_out_streams fds (if fd < 0 then tell (C_close fd) w else w)"

text \<open>The end of \<open>main\<close>.\<close>

definition main_exit :: "agent \<Rightarrow> agent" where
  "main_exit a =
     upd_os (\<lambda>w. close_out_streams (out_fd a) (close_files (file_handle a)
       (tell S_uninit (tell (S_device_close (nLocalDeviceID a)) w)))) a"

definition agent_init :: "config \<Rightarrow> world \<Rightarrow> agent" where
  "agent_init c w = \<lparr>cfg = c, send_flg = 0, reinit_flg = 0, coninit_flg = 0, closecon_flg = 0, msg_flg = 0,
     send_thread_flg = 0, server_not_send_flag = 0, szMsgName = [], nLocalDeviceID = 0, vecConnections = [],
     vecEndpoints = [], epfd = 0, file_handle = replicate 1024 (-1), out_fd = replicate 1024 (-1),
     nErrorCount = 0, device_counter = 0, connection_counter = 0, connection_index = 0,
     last_frame_ticket = (0, 0), os = w\<rparr>"

text \<open>The start of \<open>main\<close>: the result of \<open>parse\<close> is not looked at.\<close>

definition main_start :: "string list \<Rightarrow> world \<Rightarrow> fault + agent" where
  "main_start argv w =
     bindE (parse_args argv config_init) (\<lambda>(_, c).
     bindE (printarg c) (\<lambda>_. InitDevice (agent_init c (tell S_init w))))"

end
