(* ===== verification/Agent_Sockets.thy ===== *)
theory Agent_Sockets
  imports Agent_Threads
begin

text \<open>
  The sockets of the device agent: what the log of calls says is open and is registered with
  epoll, and the invariant that these are exactly the sockets of the endpoints, kept by every
  callback, every event of the receiving thread and every command. The operating system is
  taken to return only descriptors that are not open (otherwise \<open>fds\<close> is \<open>None\<close>), and to
  remove a closed descriptor from the epoll set.
\<close>

section \<open>The descriptors according to the log\<close>

definition fd_step :: "os_call \<times> int \<Rightarrow> int set \<times> int set \<Rightarrow> (int set \<times> int set) option" where
  "fd_step cr SR = (case fst cr of
      C_socket \<Rightarrow> if snd cr \<le> 0 then Some SR
                  else if snd cr \<in> fst SR then None else Some (insert (snd cr) (fst SR), snd SR)
    | C_close s \<Rightarrow> Some (fst SR - {s}, snd SR - {s})
    | C_epoll_add s \<Rightarrow> Some (fst SR, insert s (snd SR))
    | C_epoll_del s \<Rightarrow> Some (fst SR, snd SR - {s})
    | _ \<Rightarrow> Some SR)"

definition fds :: "world \<Rightarrow> (int set \<times> int set) option" where
  "fds w = fold (\<lambda>cr st. Option.bind st (fd_step cr)) (w_log w) (Some ({}, {}))"

lemma fds_tell: "fds (tell c w) = Option.bind (fds w) (fd_step (c, 0))"
  by (simp add: fds_def)

lemma fds_ask: "fds (snd (ask c w)) = Option.bind (fds w) (fd_step (c, fst (ask c w)))"
  by (simp add: fds_def ask_log)

lemma fds_ask_eq: "ask c w = (r, w') \<Longrightarrow> fds w' = Option.bind (fds w) (fd_step (c, r))"
  using fds_ask [of c w] by simp

fun neutral :: "os_call \<Rightarrow> bool" where
  "neutral C_socket \<longleftrightarrow> False"
| "neutral (C_close s) \<longleftrightarrow> False"
| "neutral (C_epoll_add s) \<longleftrightarrow> False"
| "neutral (C_epoll_del s) \<longleftrightarrow> False"
| "neutral _ \<longleftrightarrow> True"

lemma fd_step_neutral: "neutral c \<Longrightarrow> fd_step (c, r) = Some"
  by (cases c) (auto simp: fd_step_def)

lemma bind_Some: "Option.bind x Some = x"
  by (cases x) auto

lemma fds_tell_neutral [simp]: "neutral c \<Longrightarrow> fds (tell c w) = fds w"
  by (simp add: fds_tell fd_step_neutral bind_Some)

lemma fds_ask_neutral: "neutral c \<Longrightarrow> ask c w = (r, w') \<Longrightarrow> fds w' = fds w"
  by (simp add: fds_ask_eq fd_step_neutral bind_Some)

lemma fds_read: "ask_read fd n w = (r, bs, w') \<Longrightarrow> fds w' = fds w"
  by (auto simp: ask_read_def fds_def fd_step_neutral bind_Some split: prod.splits list.splits if_splits)

lemma fds_send_blk_loop: "fds (snd (send_blk_loop s mem len bt w)) = fds w"
proof (induction s mem len bt w rule: send_blk_loop.induct)
  case (1 s mem len bt w)
  obtain r w1 where a: "ask (C_send s (take (len - bt) (drop bt mem))) w = (r, w1)" by fastforce
  then have "fds w1 = fds w" by (rule fds_ask_neutral [rotated]) simp
  then show ?case
    using "1.IH" [OF _ a [symmetric] refl] by (subst send_blk_loop.simps) (auto simp: a)
qed

lemma fds_send_blk: "fds (snd (send_blk e mem len w)) = fds w"
  using fds_send_blk_loop [of "sock e" mem len 0 w] by (simp add: send_blk_def case_prod_beta)

lemma fds_recv_blk: "recv_blk e n w = (r, bs, w') \<Longrightarrow> fds w' = fds w"
  by (auto simp: recv_blk_def fds_read split: if_splits)

lemma fds_send_retry: "send_retry cid frame n w = Inr (k, w') \<Longrightarrow> fds w' = fds w"
proof (induction cid frame n w rule: send_retry.induct)
  case (1 cid frame n w)
  obtain r w1 where a: "ask (S_send_data cid frame) w = (r, w1)" by fastforce
  then have "fds w1 = fds w" by (rule fds_ask_neutral [rotated]) simp
  then show ?case
    using "1.IH" [OF a [symmetric]] "1.prems"
    by (subst (asm) send_retry.simps) (auto simp: a split: if_splits)
qed

lemma fds_drain: "drain fuel e hdr rc len w = Some (Inr w') \<Longrightarrow> fds w' = fds w"
proof (induction fuel arbitrary: rc len w)
  case 0
  then show ?case by (auto split: if_splits)
next
  case (Suc fuel)
  then show ?case
    by (auto simp: Let_def dest!: fds_recv_blk fds_send_retry split: if_splits prod.splits sum.splits)
qed

lemma fds_on_readable: "on_readable fuel e w = Some (Inr w') \<Longrightarrow> fds w' = fds w"
  by (auto simp: on_readable_def Let_def dest!: fds_recv_blk fds_send_retry fds_drain
      split: if_splits prod.splits sum.splits)

lemma fds_recv_all: "recv_all fuel fd es w = Some (Inr w') \<Longrightarrow> fds w' = fds w"
  by (induction es arbitrary: w)
    (auto dest!: fds_on_readable split: if_splits option.splits sum.splits)

lemma fds_close_connections [simp]: "fds (close_connections dev cs w) = fds w"
  by (induction cs arbitrary: w) simp_all

section \<open>Operations on endpoints\<close>

lemma fds_close: "fds (tell (C_close s) w) = map_option (\<lambda>(S, R). (S - {s}, R - {s})) (fds w)"
  by (cases "fds w") (auto simp: fds_tell fd_step_def)

lemma fds_epoll_del: "fds (tell (C_epoll_del s) w) = map_option (\<lambda>(S, R). (S, R - {s})) (fds w)"
  by (cases "fds w") (auto simp: fds_tell fd_step_def)

lemma fds_epoll_add: "fds (tell (C_epoll_add s) w) = map_option (\<lambda>(S, R). (S, insert s R)) (fds w)"
  by (cases "fds w") (auto simp: fds_tell fd_step_def)

lemma disconnect_fds:
  assumes "disconnect_blk e w = (e', w')" and "sock e > 0"
  shows "fds w' = map_option (\<lambda>(S, R). (S - {sock e}, R - {sock e})) (fds w)" and "e' = e\<lparr>sock := -1\<rparr>"
  using assms by (cases "fds w"; auto simp: disconnect_blk_def sock_open_def fd_step_def dest!: fds_ask_eq
      split: prod.splits)+

lemma drop_endpoint_fds:
  "sock e > 0 \<Longrightarrow> fds (drop_endpoint e w) = map_option (\<lambda>(S, R). (S - {sock e}, R - {sock e})) (fds w)"
proof -
  assume s: "sock e > 0"
  obtain e1 w1 where d: "disconnect_blk e (tell (C_epoll_del (sock e)) w) = (e1, w1)" by fastforce
  show ?thesis
    using disconnect_fds [OF d s] by (cases "fds w") (auto simp: drop_endpoint_def d fds_epoll_del destroy_transfer_def)
qed

text \<open>A connection on an endpoint without a socket.\<close>

lemma connect_fds:
  assumes "connect_blk e w = (r, e', w')" and "sock e \<le> 0"
  shows "meta_id e' = meta_id e \<and> handle_id e' = handle_id e
    \<and> fds w' = (if sock e' > 0
        then Option.bind (fds w) (\<lambda>(S, R). if sock e' \<in> S then None else Some (insert (sock e') S, R))
        else fds w)"
proof -
  obtain s w1 where a: "ask C_socket w = (s, w1)" by fastforce
  have f1: "fds w1 = (if s > 0 then Option.bind (fds w) (\<lambda>(S, R). if s \<in> S then None else Some (insert s S, R)) else fds w)"
    using fds_ask_eq [OF a] by (cases "fds w") (auto simp: fd_step_def)
  then show ?thesis
    using assms a by (cases "fds w") (auto simp: connect_blk_def create_connection_def sock_open_def Let_def
        fd_step_neutral bind_Some dest!: fds_ask_eq [of "C_connect s"] split: prod.splits if_splits)
qed

lemma reconnect_fds:
  assumes "reconnect_blk e w = (e', w')" and "sock e > 0"
  shows "meta_id e' = meta_id e \<and> handle_id e' = handle_id e
    \<and> fds w' = (if sock e' > 0
        then Option.bind (fds w) (\<lambda>(S, R). if sock e' \<in> S - {sock e} then None
               else Some (insert (sock e') (S - {sock e}), R - {sock e}))
        else map_option (\<lambda>(S, R). (S - {sock e}, R - {sock e})) (fds w))"
proof -
  obtain e1 w1 where d: "disconnect_blk e w = (e1, w1)" by fastforce
  obtain r where c: "connect_blk e1 w1 = (r, e', w')"
    using assms d by (auto simp: reconnect_blk_def sock_open_def split: prod.splits)
  note e1 = disconnect_fds [OF d assms(2)]
  show ?thesis
    using connect_fds [OF c] by (cases "fds w") (auto simp: e1)
qed

section \<open>The invariant\<close>

abbreviation socks :: "endpoint list \<Rightarrow> int list" where
  "socks es \<equiv> map sock es"

definition socks_ok :: "agent \<Rightarrow> bool" where
  "socks_ok a \<longleftrightarrow> distinct (socks (vecEndpoints a)) \<and> (\<forall>s \<in> set (socks (vecEndpoints a)). s > 0)
     \<and> set (out_fd a) \<subseteq> {-1} \<and> fds (os a) = Some (set (socks (vecEndpoints a)), set (socks (vecEndpoints a)))"

definition agent_ok :: "agent \<Rightarrow> bool" where
  "agent_ok a \<longleftrightarrow> fds (os a) = None \<or> socks_ok a"

lemma agent_ok_same:
  "agent_ok a \<Longrightarrow> fds (os a') = fds (os a) \<Longrightarrow> vecEndpoints a' = vecEndpoints a \<Longrightarrow> out_fd a' = out_fd a \<Longrightarrow> agent_ok a'"
  by (auto simp: agent_ok_def socks_ok_def)

lemma drop_endpoint_none: "fds w = None \<Longrightarrow> fds (drop_endpoint e w) = None"
  by (auto simp: drop_endpoint_def disconnect_blk_def destroy_transfer_def fds_epoll_del fds_close
      dest!: fds_ask_eq split: prod.splits)

lemma drop_endpoints_fds:
  "\<forall>s \<in> set (socks es). s > 0 \<Longrightarrow>
   fds (drop_endpoints es w) = map_option (\<lambda>(S, R). (S - set (socks es), R - set (socks es))) (fds w)"
  by (induction es arbitrary: w; case_tac "fds w") (auto simp: drop_endpoint_fds)

lemma drop_endpoints_none: "fds w = None \<Longrightarrow> fds (drop_endpoints es w) = None"
  by (induction es arbitrary: w) (auto simp: drop_endpoint_none)

lemma close_all_ok: "agent_ok a \<Longrightarrow> agent_ok (close_all dev a)"
  by (auto simp: agent_ok_def close_all_def Let_def socks_ok_def drop_endpoints_fds drop_endpoints_none)

lemma drop_conn_none: "fds w = None \<Longrightarrow> fds (snd (drop_conn_endpoints cid es w)) = None"
  by (induction cid es w rule: drop_conn_endpoints.induct) (auto simp: drop_endpoint_none case_prod_beta)

lemma drop_conn_fst: "fst (drop_conn_endpoints cid es w) = filter (\<lambda>e. meta_id e \<noteq> cid) es"
  by (induction cid es w rule: drop_conn_endpoints.induct) (auto simp: case_prod_beta)

lemma drop_conn_fds:
  "\<forall>s \<in> set (socks es). s > 0 \<Longrightarrow> fds w = Some (S, R) \<Longrightarrow>
   fds (snd (drop_conn_endpoints cid es w)) =
     Some (S - set (socks (filter (\<lambda>e. meta_id e = cid) es)), R - set (socks (filter (\<lambda>e. meta_id e = cid) es)))"
  by (induction cid es w arbitrary: S R rule: drop_conn_endpoints.induct)
    (auto simp: drop_endpoint_fds case_prod_beta)

lemma set_socks_filter:
  "distinct (socks es) \<Longrightarrow> sock ` set es - sock ` {e \<in> set es. P e} = sock ` {e \<in> set es. \<not> P e}"
  by (auto simp: distinct_map inj_on_def)

lemma distinct_socks_filter: "distinct (socks es) \<Longrightarrow> distinct (socks (filter P es))"
  by (induction es) (auto simp: image_iff)

lemma connection_close_ok: "agent_ok a \<Longrightarrow> agent_ok (OnSDKConnectionClose info a)"
  using drop_conn_none [of "os a" "conn_id info" "vecEndpoints a"]
    drop_conn_fds [of "vecEndpoints a" "os a" _ _ "conn_id info"] drop_conn_fst [of "conn_id info" "vecEndpoints a" "os a"]
  by (auto simp: agent_ok_def OnSDKConnectionClose_def Let_def socks_ok_def upd_os_def case_prod_beta
      set_socks_filter distinct_socks_filter)

lemma open_endpoint_ok:
  assumes "agent_ok a" and "open_endpoint cid h a = Inr a'"
  shows "agent_ok a' \<and> (\<exists>e. vecEndpoints a' = vecEndpoints a @ [e] \<and> sock e > 0)"
proof -
  obtain r e w where c: "connect_blk (new_core_transfer remote_addr cid h) (os a) = (r, e, w)"
    by (metis prod_cases3)
  have s: "sock (new_core_transfer remote_addr cid h) \<le> 0" by (simp add: new_core_transfer_def)
  have a': "sock e > 0" "a' = a\<lparr>vecEndpoints := vecEndpoints a @ [e], os := tell (C_epoll_add (sock e)) w\<rparr>"
    using assms(2) by (auto simp: open_endpoint_def c split: if_splits)
  show ?thesis
    using connect_fds [OF c s] assms(1) a'
    by (cases "sock e \<in> set (socks (vecEndpoints a))")
      (auto simp: agent_ok_def socks_ok_def fds_epoll_add)
qed

lemma remove_nth:
  assumes "distinct xs" and "i < length xs"
  shows "set (take i xs @ drop (Suc i) xs) = set xs - {xs ! i}" and "distinct (take i xs @ drop (Suc i) xs)"
proof -
  have e: "xs = take i xs @ xs ! i # drop (Suc i) xs" by (rule id_take_nth_drop [OF assms(2)])
  have d: "distinct (take i xs @ xs ! i # drop (Suc i) xs)" using assms(1) e by metis
  have "set xs = set (take i xs @ xs ! i # drop (Suc i) xs)" using e by metis
  then show "set (take i xs @ drop (Suc i) xs) = set xs - {xs ! i}" using d by auto
  show "distinct (take i xs @ drop (Suc i) xs)" using d by simp
qed

lemma map_remove: "map f (take i xs @ drop (Suc i) xs) = take i (map f xs) @ drop (Suc i) (map f xs)"
  by (simp add: take_map drop_map)

lemma close_endpoint_ok:
  assumes a: "agent_ok a" and i: "i < length (vecEndpoints a)" and c: "close_endpoint i a = Inr a'"
  shows "agent_ok a'"
proof (cases "fds (os a)")
  case None
  then have "fds (os a') = None"
    using c by (auto simp: close_endpoint_def Let_def bindE_Inr_iff disconnect_blk_def destroy_transfer_def fds_close
        dest!: fds_ask_eq split: prod.splits if_splits)
  then show ?thesis by (simp add: agent_ok_def)
next
  case (Some SR)
  let ?e = "vecEndpoints a ! i"
  have ok: "socks_ok a" using a Some by (simp add: agent_ok_def)
  then have pos: "sock ?e > 0" using i by (simp add: socks_ok_def)
  have o_none: "k < length (out_fd a) \<Longrightarrow> out_fd a ! k = -1" for k
    using ok by (metis nth_mem singletonD socks_ok_def subsetD)
  obtain e1 w2 where d: "disconnect_blk ?e (os a) = (e1, w2)" by fastforce
  have a': "a' = a\<lparr>out_fd := (out_fd a)[nat (handle_id ?e) := -1],
      vecEndpoints := take i (vecEndpoints a) @ drop (Suc i) (vecEndpoints a), os := destroy_transfer e1 w2\<rparr>"
    using c d o_none by (auto simp: close_endpoint_def Let_def bindE_Inr_iff index_array_def split: if_splits)
  have n: "set (socks (vecEndpoints a')) = set (socks (vecEndpoints a)) - {sock ?e}" "distinct (socks (vecEndpoints a'))"
    using remove_nth [of "socks (vecEndpoints a)" i] ok i by (simp_all add: a' map_remove socks_ok_def del: map_append)
  have "set (out_fd a') \<subseteq> {-1}"
    using ok set_update_subset_insert [of "out_fd a"] by (fastforce simp: a' socks_ok_def)
  moreover have "fds (os a') = Some (set (socks (vecEndpoints a')), set (socks (vecEndpoints a')))"
    unfolding n(1) using disconnect_fds [OF d pos] ok by (simp add: a' destroy_transfer_def socks_ok_def)
  moreover have "\<forall>s \<in> set (socks (vecEndpoints a')). s > 0" unfolding n(1) using ok by (auto simp: socks_ok_def)
  ultimately show ?thesis using n(2) by (simp add: agent_ok_def socks_ok_def)
qed

lemma upd_sock:
  assumes "distinct (socks es)" and "i < length es" and "sock e1 \<notin> set (socks es) - {sock (es ! i)}"
  shows "distinct (socks (es[i := e1])) \<and> set (socks (es[i := e1])) = insert (sock e1) (set (socks es) - {sock (es ! i)})"
  using assms set_update_distinct [of "socks es" i "sock e1"]
  by (auto simp: map_update intro!: distinct_list_update)

lemma disconnect_none: "fds w = None \<Longrightarrow> fds (snd (disconnect_blk e w)) = None"
  by (auto simp: disconnect_blk_def case_prod_beta fds_ask)

lemma connect_none: "fds w = None \<Longrightarrow> fds (snd (snd (connect_blk e w))) = None"
  by (auto simp: connect_blk_def create_connection_def Let_def case_prod_beta fds_ask fds_tell)

lemma reconnect_none: "fds w = None \<Longrightarrow> fds (snd (reconnect_blk e w)) = None"
  by (simp add: reconnect_blk_def case_prod_beta disconnect_none connect_none)

lemma forward_ok:
  assumes a: "agent_ok a" and i: "i < length (vecEndpoints a)" and f: "forward_request i p n behind a = Inr a'"
  shows "agent_ok a'"
proof -
  let ?e = "vecEndpoints a ! i"
  obtain req where req: "rewrite_request p n (remote_end ?e) = Inr req"
    using f by (auto simp: forward_request_def Let_def bindE_Inr_iff)
  let ?mem = "req @ CHR 0x00 # behind"
  obtain ret w1 where s: "send_blk ?e ?mem n (os a) = (ret, w1)" by fastforce
  then have w1: "fds w1 = fds (os a)" using fds_send_blk [of ?e ?mem n "os a"] by simp
  show ?thesis
  proof (cases "ret \<le> 0")
    case False
    then have "a' = a\<lparr>os := w1\<rparr>" using f req s by (simp add: forward_request_def)
    then show ?thesis using a w1 by (auto intro: agent_ok_same)
  next
    case True
    obtain e1 w2 where r: "reconnect_blk ?e (tell (C_epoll_del (sock ?e)) w1) = (e1, w2)" by fastforce
    obtain ret2 w3 where s2: "send_blk e1 ?mem n (tell (C_epoll_add (sock e1)) w2) = (ret2, w3)" by fastforce
    have e1: "sock e1 > 0" "a' = a\<lparr>vecEndpoints := (vecEndpoints a)[i := e1], os := w3\<rparr>"
      using f True req s r s2 by (auto simp: forward_request_def split: if_splits)
    have w3: "fds w3 = map_option (\<lambda>(S, R). (S, insert (sock e1) R)) (fds w2)"
      using fds_send_blk [of e1 ?mem n "tell (C_epoll_add (sock e1)) w2"] s2 by (simp add: fds_epoll_add)
    show ?thesis
    proof (cases "fds (os a)")
      case None
      then have "fds w2 = None"
        using reconnect_none [of "tell (C_epoll_del (sock ?e)) w1" ?e] r w1 by (simp add: fds_epoll_del)
      then show ?thesis by (simp add: agent_ok_def e1 w3)
    next
      case (Some SR)
      then have ok: "socks_ok a" using a by (simp add: agent_ok_def)
      then have pos: "sock ?e > 0" using i by (simp add: socks_ok_def)
      show ?thesis
        using reconnect_fds [OF r pos] ok i e1(1) upd_sock [of "vecEndpoints a" i e1]
        by (cases "sock e1 \<in> set (socks (vecEndpoints a)) - {sock ?e}")
          (auto simp: agent_ok_def socks_ok_def e1 w3 w1 fds_epoll_del)
    qed
  qed
qed

lemma find_endpoint_nth:
  "find_endpoint cid h es = Some i \<Longrightarrow> i < length es \<and> meta_id (es ! i) = cid \<and> handle_id (es ! i) = h"
  by (induction es arbitrary: i) (auto split: if_splits)

lemma server_data_ok:
  assumes a: "agent_ok a" and d: "server_data info buf n behind a = Inr a'"
  shows "agent_ok a'"
proof (cases "find_endpoint (conn_id info) (header_handle buf) (vecEndpoints a)")
  case (Some i)
  then show ?thesis
    using d a find_endpoint_nth [OF Some]
    by (auto simp: server_data_def Let_def upd_os_def split: if_splits
        intro: close_endpoint_ok forward_ok agent_ok_same)
next
  case None
  then show ?thesis
    using d a by (auto simp: server_data_def Let_def upd_os_def bindE_Inr_iff split: if_splits
        intro: agent_ok_same forward_ok dest!: open_endpoint_ok [OF a])
qed

lemma client_data_ok:
  assumes "agent_ok a" and "client_data buf n a = Inr a'"
  shows "agent_ok a'"
  using assms(1)
proof (rule agent_ok_same)
  show "fds (os a') = fds (os a)" "vecEndpoints a' = vecEndpoints a" "out_fd a' = out_fd a"
    using assms(2) by (auto simp: client_data_def Let_def bindE_Inr_iff fd_step_neutral bind_Some
        dest!: fds_ask_eq split: if_splits prod.splits)
qed

section \<open>Threads and commands\<close>

lemma hangup_none: "fds w = None \<Longrightarrow> fds (snd (hangup fd es w)) = None"
  by (induction fd es w rule: hangup.induct)
    (auto simp: case_prod_beta Let_def destroy_transfer_def fds_close disconnect_none)

lemma hangup_spec:
  assumes "distinct (socks es)" and "\<forall>s \<in> set (socks es). s > 0" and "fds w = Some (S, R)"
  shows "fst (hangup fd es w) = filter (\<lambda>e. sock e \<noteq> fd) es
    \<and> fds (snd (hangup fd es w)) = (if fd \<in> set (socks es) then Some (S - {fd}, R - {fd}) else Some (S, R))"
  using assms
proof (induction es)
  case (Cons e es)
  show ?case
  proof (cases "sock e = fd")
    case True
    obtain e1 w1 where d: "disconnect_blk e w = (e1, w1)" by fastforce
    have "sock e > 0" using Cons.prems by simp
    have "filter (\<lambda>e. sock e \<noteq> fd) es = es"
      using Cons.prems(1) True by (auto simp: filter_id_conv image_iff)
    then show ?thesis
      using disconnect_fds [OF d \<open>sock e > 0\<close>] Cons.prems(3) True
      by (simp add: d Let_def destroy_transfer_def)
  next
    case False
    then show ?thesis using Cons by (auto simp: case_prod_beta)
  qed
qed simp

lemma socks_minus: "sock ` {e \<in> set es. sock e \<noteq> fd} = sock ` set es - {fd}"
  by auto

lemma recv_event_ok:
  assumes "agent_ok a" and "recv_event fuel ev a = Some (Inr a')"
  shows "agent_ok a'"
proof -
  obtain w where w: "(if ev_in ev then recv_all fuel (ev_fd ev) (vecEndpoints a) (os a) else Some (Inr (os a))) = Some (Inr w)"
    using assms(2) by (auto simp: recv_event_def split: option.splits sum.splits)
  then have f: "fds w = fds (os a)" by (auto dest: fds_recv_all split: if_splits)
  show ?thesis
  proof (cases "ev_hup ev")
    case False
    then have "a' = a\<lparr>os := w\<rparr>" using assms(2) w by (simp add: recv_event_def)
    then show ?thesis using assms(1) f by (auto intro: agent_ok_same)
  next
    case True
    obtain es w1 where h: "hangup (ev_fd ev) (vecEndpoints a) w = (es, w1)" by fastforce
    have a': "a' = a\<lparr>vecEndpoints := es, os := w1\<rparr>"
      using assms(2) w True h by (simp add: recv_event_def)
    show ?thesis
    proof (cases "fds (os a)")
      case None
      then show ?thesis using hangup_none [of w "ev_fd ev" "vecEndpoints a"] f h by (simp add: agent_ok_def a')
    next
      case (Some SR)
      then have ok: "socks_ok a" using assms(1) by (simp add: agent_ok_def)
      then show ?thesis
        using hangup_spec [of "vecEndpoints a" w _ _ "ev_fd ev"] h f
        by (auto simp: agent_ok_def socks_ok_def a' distinct_socks_filter socks_minus split: if_splits)
    qed
  qed
qed

lemma recv_thread_ok: "agent_ok a \<Longrightarrow> RecvThread fuel evs a = Some (Inr a') \<Longrightarrow> agent_ok a'"
proof (induction evs arbitrary: a)
  case (Cons ev evs)
  then obtain a1 where "recv_event fuel ev a = Some (Inr a1)" "RecvThread fuel evs a1 = Some (Inr a')"
    by (auto split: option.splits sum.splits)
  then show ?case using Cons recv_event_ok by blast
qed simp

lemma send_one_frame:
  assumes "send_one i cid k buf t a = Inr (t', a')"
  shows "fds (os a') = fds (os a) \<and> vecEndpoints a' = vecEndpoints a \<and> out_fd a' = out_fd a \<and> cfg a' = cfg a"
proof -
  obtain rnd w1 where r: "ask C_rand (os a) = (rnd, w1)" by fastforce
  obtain rt w2 where s: "ask (S_send_data cid (take (nat (send_len (cfg a) k (max 0 rnd))) buf)) w1 = (rt, w2)" by fastforce
  have "fds w2 = fds (os a)"
    using fds_ask_neutral [OF _ r] fds_ask_neutral [OF _ s] by simp
  then show ?thesis using assms by (auto simp: send_one_def r s Let_def split: if_splits)
qed

lemma send_round_frame:
  "send_round i ids k buf t a = Inr (t', a') \<Longrightarrow>
   fds (os a') = fds (os a) \<and> vecEndpoints a' = vecEndpoints a \<and> out_fd a' = out_fd a"
  by (induction ids arbitrary: i t a) (fastforce simp: bindE_Inr_iff dest!: send_one_frame)+

lemma agent_ok_upd: "agent_ok a \<Longrightarrow> neutral c \<Longrightarrow> agent_ok (upd_os (tell c) a)"
  by (erule agent_ok_same) (simp_all add: upd_os_def)

lemma init_device_ok: "agent_ok a \<Longrightarrow> InitDevice a = Inr a' \<Longrightarrow> agent_ok a'"
  by (erule agent_ok_same)
    (auto simp: InitDevice_def bindE_Inr_iff case_prod_beta Let_def fds_ask fd_step_neutral bind_Some)

lemma init_connection_ok: "agent_ok a \<Longrightarrow> InitConnection a = Inr a' \<Longrightarrow> agent_ok a'"
  by (erule agent_ok_same)
    (auto simp: InitConnection_def bindE_Inr_iff case_prod_beta Let_def fds_ask fd_step_neutral bind_Some)

lemma step_close_ok: "agent_ok a \<Longrightarrow> agent_ok (step_close a)"
  by (auto simp: step_close_def CloseConnection_def intro!: close_all_ok intro: agent_ok_same)

lemma step_reinit_ok: "agent_ok a \<Longrightarrow> step_reinit a = Inr a' \<Longrightarrow> agent_ok a'"
  by (auto simp: step_reinit_def dest: init_device_ok split: if_splits)

lemma server_cmd_ok: "agent_ok a \<Longrightarrow> agent_ok (server_cmd ch a)"
  by (erule agent_ok_same) (simp_all add: server_cmd_def Let_def)

lemma cmd_test_frame:
  "fds (os (ag (cmd_test req cs p))) = fds (os (ag p)) \<and> vecEndpoints (ag (cmd_test req cs p)) = vecEndpoints (ag p)
   \<and> out_fd (ag (cmd_test req cs p)) = out_fd (ag p)"
  by (induction req cs p rule: cmd_test.induct) (simp_all add: Let_def upd_os_def)

lemma send_disconnects_fds [simp]: "fds (send_disconnects cid hs w) = fds w"
  by (induction cid hs w rule: send_disconnects.induct) simp_all

lemma cmd_disconnect_frame:
  "fds (os (ag (cmd_disconnect cs p))) = fds (os (ag p)) \<and> vecEndpoints (ag (cmd_disconnect cs p)) = vecEndpoints (ag p)
   \<and> out_fd (ag (cmd_disconnect cs p)) = out_fd (ag p)"
  by (induction cs p rule: cmd_disconnect.induct) (simp_all add: upd_os_def)

lemma client_cmd_ok: "agent_ok (ag p) \<Longrightarrow> agent_ok (ag (client_cmd req ch p))"
  by (erule agent_ok_same) (simp_all add: client_cmd_def Let_def cmd_test_frame cmd_disconnect_frame)

lemma step_msg_ok: "agent_ok a \<Longrightarrow> agent_ok (step_msg a)"
  by (erule agent_ok_same) (simp_all add: step_msg_def SendMsgToServer_def upd_os_def)

lemma step_coninit_ok: "agent_ok a \<Longrightarrow> step_coninit a = Inr a' \<Longrightarrow> agent_ok a'"
  using init_connection_ok [of "a\<lparr>coninit_flg := 0\<rparr>" a'] agent_ok_same [of a "a\<lparr>coninit_flg := 0\<rparr>"]
  by (auto simp: step_coninit_def split: if_splits)

text \<open>The steps of the agent, in any order.\<close>

inductive agent_step :: "agent \<Rightarrow> agent \<Rightarrow> bool" where
  init: "agent_step a (OnSDKInit dev err a)"
| message: "agent_step a (OnSDKMessage d n a)"
| close: "agent_step a (OnSDKClose dev a)"
| timer: "OnSDKTimer info a = Inr a' \<Longrightarrow> agent_step a a'"
| conn_init: "agent_step a (OnSDKConnectionInit info err a)"
| conn_data: "OnSDKConnectionData info buf n behind a = Inr a' \<Longrightarrow> agent_step a a'"
| conn_close: "agent_step a (OnSDKConnectionClose info a)"
| receive: "RecvThread fuel evs a = Some (Inr a') \<Longrightarrow> agent_step a a'"
| send: "SendThread_pass k buf t a = Inr (k', t', a') \<Longrightarrow> agent_step a a'"
| server: "server_round ch p = Some (Inr p') \<Longrightarrow> agent_step (ag p) (ag p')"
| client: "client_round req ch p = Some (Inr p') \<Longrightarrow> agent_step (ag p) (ag p')"

inductive agent_reach :: "agent \<Rightarrow> bool" where
  start: "main_start argv \<lparr>w_ans = ans, w_log = []\<rparr> = Inr a \<Longrightarrow> agent_reach a"
| step: "agent_reach a \<Longrightarrow> agent_step a a' \<Longrightarrow> agent_reach a'"

lemma agent_step_ok: "agent_step a a' \<Longrightarrow> agent_ok a \<Longrightarrow> agent_ok a'"
proof (induction rule: agent_step.induct)
  case (init a dev err)
  then show ?case
    by (rule agent_ok_same) (auto simp: OnSDKInit_def Let_def fd_step_neutral bind_Some dest!: fds_ask_eq split: prod.splits)
next
  case (message a d n)
  then show ?case by (rule agent_ok_same) (auto simp: OnSDKMessage_def Let_def)
next
  case (close a dev)
  then show ?case
    using close_all_ok [of a dev] by (auto simp: OnSDKClose_def Let_def intro: agent_ok_same)
next
  case (timer info a a')
  show ?case
    using timer(2) by (rule agent_ok_same)
      (use timer(1) in \<open>auto simp: OnSDKTimer_def Let_def split: option.splits if_splits\<close>)
next
  case (conn_init a info err)
  then show ?case
    by (rule agent_ok_same) (auto simp: OnSDKConnectionInit_def Let_def upd_os_def)
next
  case (conn_data info buf n behind a a')
  then show ?case
    using server_data_ok [OF conn_data(2)] client_data_ok [OF conn_data(2)]
    by (auto simp: OnSDKConnectionData_def split: if_splits)
next
  case (send k buf t a k' t' a')
  then have "fds (os a') = fds (os a) \<and> vecEndpoints a' = vecEndpoints a \<and> out_fd a' = out_fd a"
    by (auto simp: SendThread_pass_def bindE_Inr_iff split: if_splits dest!: send_round_frame)
  then show ?case using agent_ok_same [OF send(2)] by blast
next
  case (server ch p p')
  then show ?case
    using step_reinit_ok [OF step_close_ok [OF server_cmd_ok [OF server(2)]]]
    by (auto simp: server_round_def bindE_Inr_iff split: if_splits)
next
  case (client req ch p p')
  then obtain a where "step_coninit (ag (client_cmd req ch p)) = Inr a" "step_reinit (step_msg (step_close a)) = Inr (ag p')"
    by (auto simp: client_round_def Let_def bindE_Inr_iff split: if_splits)
  then show ?case
    by (blast intro: step_reinit_ok [OF step_msg_ok [OF step_close_ok [OF step_coninit_ok [OF client_cmd_ok [OF client(2)]]]]])
next
  case (conn_close a info)
  then show ?case by (rule connection_close_ok)
next
  case (receive fuel evs a a')
  then show ?case by (rule recv_thread_ok [rotated])
qed

lemma agent_reach_ok: "agent_reach a \<Longrightarrow> agent_ok a"
proof (induction rule: agent_reach.induct)
  case (start argv ans a)
  have "agent_ok (agent_init c (tell S_init \<lparr>w_ans = ans, w_log = []\<rparr>))" for c
    by (simp add: agent_ok_def socks_ok_def agent_init_def) (simp add: fds_def)
  with start show ?case
    by (auto simp: main_start_def bindE_Inr_iff intro: init_device_ok)
qed (rule agent_step_ok)

end
