(* ===== verification/Agent_Props.thy ===== *)
theory Agent_Props
  imports Agent_Sockets
begin

text \<open>
  The properties of the device agent: the command line, the sockets, the requests that are
  forwarded, the frames of the tunnel and their round trip, the loop of the receiving thread,
  and the pass of the sending thread.
\<close>

section \<open>Frames\<close>

lemma length_le_bytes [simp]: "length (le_bytes n x) = n"
  by (simp add: le_bytes_def)

lemma length_frame_header [simp]: "length (frame_header h) = 32"
  by (simp add: frame_header_def)




lemma le_bytes2: "le_bytes 2 x = [char_of (nat (x mod 256)), char_of (nat (x div 256 mod 256))]"
  by (simp add: le_bytes_def numeral_2_eq_2)


lemma frame_plain: "(frame_header h @ x) ! 0 = CHR 0x00" "(frame_header h @ x) ! 10 = CHR 0x00"
  by (simp_all add: frame_header_def le_bytes2 nth_append)

section \<open>Searching\<close>

lemma strstr_match: "strstr s n = Some k \<Longrightarrow> take (length n) (drop k s) = n \<and> k \<le> length s"
  by (induction s arbitrary: k) (auto split: if_splits)

lemma strstr_none_append: "strstr (a @ b) n = None \<Longrightarrow> strstr b n = None"
  by (induction a) (auto split: if_splits)

section \<open>The command line\<close>

text \<open>
  C34. The command line. \<open>parse\<close> writes past a buffer exactly when a name or target of exactly 64
  characters or an address of 20 or more is given: longer names are cut, 64 is missed. When it
  returns, the settings are in their ranges, except that a negative \<open>type\<close> or \<open>contype\<close> is
  kept, and exactly then \<open>printarg\<close> reads outside the array of names.
\<close>

theorem parse_outcomes:
  assumes "list_all cstring argv"
  shows "((\<exists>e. parse_args argv config_init = Inl e) \<longleftrightarrow> (\<exists>(k, v) \<in> set (used_options argv). \<not> safe_value k v))
    \<and> (\<forall>r c. parse_args argv config_init = Inr (r, c) \<longrightarrow>
          config_ok c \<and> (printarg c = Inl Bad_Index \<longleftrightarrow> nType c < 0 \<or> nConnectionType c < 0))"
proof -
  have "printarg c = Inl Bad_Index \<longleftrightarrow> nType c < 0 \<or> nConnectionType c < 0" if "config_ok c" for c
    using that by (auto simp: printarg_def bindE_Inl_iff index_array_def config_ok_def
        SDK_DEVICE_TYPE_STR_def SDK_CONNECTION_TYPE_STR_def)
  then show ?thesis
    using parse_fault_iff [OF assms] parse_args_ok [OF config_init_ok] by blast
qed

theorem parse_outcomes_witness:
  "(\<exists>e. parse_args [''a'', ''-name'', replicate 64 CHR ''x''] config_init = Inl e)
   \<and> (\<exists>r c. parse_args [''a'', ''-name'', replicate 65 CHR ''x'', ''-mode'', ''1''] config_init = Inr (r, c) \<and> config_ok c)"
proof -
  have a: "list_all cstring [''a'', ''-name'', replicate 64 CHR ''x'']"
      "list_all cstring [''a'', ''-name'', replicate 65 CHR ''x'', ''-mode'', ''1'']"
    by (simp_all add: cstring_def)
  have u: "used_options [''a'', ''-name'', replicate 64 CHR ''x''] = [(K_name, replicate 64 CHR ''x'')]"
    by code_simp
  have v: "\<not> (\<exists>e. parse_args [''a'', ''-name'', replicate 65 CHR ''x'', ''-mode'', ''1''] config_init = Inl e)"
  proof -
    have "used_options [''a'', ''-name'', replicate 65 CHR ''x'', ''-mode'', ''1''] = [(K_name, replicate 65 CHR ''x''), (K_mode, ''1'')]"
      by code_simp
    then show ?thesis using parse_outcomes [OF a(2)] by (simp add: safe_value_def)
  qed
  show ?thesis
    using parse_outcomes [OF a(1)] parse_outcomes [OF a(2)] u v
    by (cases "parse_args [''a'', ''-name'', replicate 65 CHR ''x'', ''-mode'', ''1''] config_init")
      (auto simp: safe_value_def)
qed

section \<open>Sockets\<close>


definition demo_conn :: conn where
  "demo_conn = \<lparr>conn_id = 3, conn_dev = 1, conn_ctx = 0, conn_name = ''peer'', conn_promoter = False\<rparr>"

definition demo_agent :: "fault + agent" where
  "demo_agent = main_start [''agent'', ''-mode'', ''1''] \<lparr>w_ans = [(0, []), (5, []), (0, []), (40, [])], w_log = []\<rparr>"

definition demo_request :: string where
  "demo_request = frame_header 9 @ ''GET /a'' @ [CHR 0x00]"

definition demo_data :: "fault + agent" where
  "demo_data = bindE demo_agent (OnSDKConnectionData demo_conn demo_request 40 (replicate 32 CHR ''z''))"




text \<open>
  When the peer closes a connection, its entry and all its endpoints are gone and nothing
  else is, in the order they had; each of these sockets is taken out of epoll and closed.
\<close>

theorem connection_closed:
  assumes "mode (cfg a) = 1" and "\<forall>e \<in> set (vecEndpoints a). sock e > 0"
    and "fds (os a) = Some (S, R)" and "a' = OnSDKConnectionClose info a"
  shows "vecConnections a' = filter (\<lambda>c. conn_id c \<noteq> conn_id info) (vecConnections a)
    \<and> vecEndpoints a' = filter (\<lambda>e. meta_id e \<noteq> conn_id info) (vecEndpoints a)
    \<and> fds (os a') = Some (S - sock ` {e \<in> set (vecEndpoints a). meta_id e = conn_id info},
                        R - sock ` {e \<in> set (vecEndpoints a). meta_id e = conn_id info})"
  using assms(1,2,3) drop_conn_fds [of "vecEndpoints a" "os a" S R "conn_id info"]
    drop_conn_fst [of "conn_id info" "vecEndpoints a" "os a"]
  by (auto simp: assms(4) OnSDKConnectionClose_def Let_def case_prod_beta upd_os_def)

theorem connection_closed_witness:
  "\<exists>a. demo_data = Inr a \<and> vecEndpoints (OnSDKConnectionClose demo_conn a) = []
     \<and> fds (os (OnSDKConnectionClose demo_conn a)) = Some ({}, {})"
proof -
  have "case demo_data of Inr a \<Rightarrow> fds (os a) = Some ({5}, {5}) \<and> map sock (vecEndpoints a) = [5]
      \<and> mode (cfg a) = 1 \<and> map meta_id (vecEndpoints a) = [3] | _ \<Rightarrow> False" by code_simp
  then obtain a e where a: "demo_data = Inr a" "fds (os a) = Some ({5}, {5})" "vecEndpoints a = [e]" "sock e = 5"
      "mode (cfg a) = 1" "meta_id e = 3"
    by (auto split: sum.splits)
  then show ?thesis
    using connection_closed [OF a(5) _ a(2) refl, of demo_conn] by (intro exI [of _ a]) (simp add: demo_conn_def)
qed

section \<open>Requests\<close>

text \<open>
  The request that is sent to the web server. For a text with a host line and a later
  \<open>Connection\<close> line, and no \<open>GET /verification\<close>, the text up to the host line is kept, the
  host is the local server, everything up to the first \<open>Connection\<close> is dropped and the rest is kept. A
  text with a host line and no \<open>Connection\<close> reads a null pointer.
\<close>

theorem request_rewritten:
  assumes "strstr p ''GET /verification'' = None" and "strstr p ''Host'' = Some k" and "k < nLen"
  shows "(strstr p ''Connection'' = None \<longrightarrow> rewrite_request p nLen remote = Inl Null_Deref)
    \<and> (\<forall>j. strstr p ''Connection'' = Some j \<longrightarrow>
         (\<exists>c. drop j p = ''Connection'' @ c
            \<and> rewrite_request p nLen remote = Inr (take k p @ ''Host: '' @ remote @ crlf @ ''Connection'' @ c)))"
proof -
  have "\<exists>c. drop j p = ''Connection'' @ c" if "strstr p ''Connection'' = Some j" for j
    using strstr_match [OF that] by (metis append_take_drop_id)
  then show ?thesis using assms by (auto simp: rewrite_request_def Let_def)
qed

theorem request_rewritten_witness:
  "rewrite_request (''GET /a'' @ crlf @ ''Host: x'' @ crlf) 60 ''l'' = Inl Null_Deref
   \<and> (\<exists>c. rewrite_request (''GET /a'' @ crlf @ ''Host: x'' @ crlf @ ''Connection: close'' @ crlf) 60 ''l''
        = Inr (take 8 (''GET /a'' @ crlf) @ ''Host: '' @ ''l'' @ crlf @ ''Connection'' @ c))"
proof -
  let ?p = "''GET /a'' @ crlf @ ''Host: x'' @ crlf" and ?q = "''GET /a'' @ crlf @ ''Host: x'' @ crlf @ ''Connection: close'' @ crlf"
  have p: "strstr ?p ''GET /verification'' = None" "strstr ?p ''Host'' = Some 8" "strstr ?p ''Connection'' = None"
    by code_simp+
  have q: "strstr ?q ''GET /verification'' = None" "strstr ?q ''Host'' = Some 8" "strstr ?q ''Connection'' = Some 17"
    by code_simp+
  have t: "take 8 ?q = take 8 (''GET /a'' @ crlf)" by code_simp
  show ?thesis
    using request_rewritten [OF p(1,2), of 60 "''l''"] request_rewritten [OF q(1,2), of 60 "''l''"] p(3) q(3) t by auto
qed

text \<open>
  What reaches the web server. \<open>send_blk\<close> is given the length of the frame and not that of
  the request. For a frame whose text is forwarded as it is, and a system that accepts
  everything at once, the server is sent the text, its NUL, and 32 bytes of whatever lies
  behind it in the memory of the agent.
\<close>

theorem forward_overreads:
  assumes "i < length (vecEndpoints a)" and "sock (vecEndpoints a ! i) > 0"
    and "strstr p ''GET /verification'' = None" and "strstr p ''Host'' = None"
    and "nLen = 32 + (length p + 1)" and "nLen < 2147483648" and "length behind \<ge> 32"
    and "w_ans (os a) = (int nLen, bs) # ans"
  shows "\<exists>a'. forward_request i p nLen behind a = Inr a'
    \<and> w_log (os a') = w_log (os a) @ [(C_send (sock (vecEndpoints a ! i)) (p @ [CHR 0x00] @ take 32 behind), int nLen)]"
proof -
  let ?e = "vecEndpoints a ! i"
  let ?mem = "p @ CHR 0x00 # behind"
  have "take nLen ?mem = p @ [CHR 0x00] @ take 32 behind" using assms(5) by simp
  moreover have pos: "0 < nLen" using assms(5) by simp
  ultimately have "send_blk_loop (sock ?e) ?mem nLen 0 (os a) = (nLen, (os a)\<lparr>w_ans := ans,
      w_log := w_log (os a) @ [(C_send (sock ?e) (p @ [CHR 0x00] @ take 32 behind), int nLen)]\<rparr>)"
    using assms(8) pos by (subst send_blk_loop.simps) (simp add: ask_Cons)
  then show ?thesis
    using assms(2-6) by (simp add: forward_request_def rewrite_request_def send_blk_def sock_open_def c_conv)
qed

theorem forward_overreads_witness:
  "\<exists>a a'. demo_agent = Inr a
     \<and> forward_request 0 ''GET /a'' 39 (replicate 32 CHR ''z'') (a\<lparr>vecEndpoints := [\<lparr>sock = 5, remote_end = ''r'', meta_id = 3, handle_id = 9\<rparr>],
           os := \<lparr>w_ans = [(39, [])], w_log = []\<rparr>\<rparr>) = Inr a'
     \<and> w_log (os a') = [(C_send 5 (''GET /a'' @ [CHR 0x00] @ replicate 32 CHR ''z''), 39)]"
proof -
  have "case demo_agent of Inr a \<Rightarrow> True | _ \<Rightarrow> False" by code_simp
  then obtain a where a: "demo_agent = Inr a" by (auto split: sum.splits)
  have s: "strstr ''GET /a'' ''GET /verification'' = None" "strstr ''GET /a'' ''Host'' = None" by code_simp+
  let ?a = "a\<lparr>vecEndpoints := [\<lparr>sock = 5, remote_end = ''r'', meta_id = 3, handle_id = 9\<rparr>], os := \<lparr>w_ans = [(39, [])], w_log = []\<rparr>\<rparr>"
  show ?thesis
    using forward_overreads [of 0 ?a "''GET /a''" 39 "replicate 32 CHR ''z''" "[]" "[]"] a s by (subst a) auto
qed

section \<open>The tunnel\<close>

lemma send_retry_ok:
  assumes "w_ans w = (k, x) # ans" and "0 \<le> k"
  shows "send_retry cid f rc w = Inr (rc, w\<lparr>w_ans := ans, w_log := w_log w @ [(S_send_data cid f, k)]\<rparr>)"
  using assms by (subst send_retry.simps) (simp add: ask_Cons)



text \<open>
  The receiving thread does not get out of its inner loop when a read fails. After a full
  block, reads that fail (end of the connection) leave a length of -1, which compares as a huge
  \<open>size_t\<close>: as long as the SDK accepts the frames, the loop is running after any number of
  rounds.
\<close>

lemma drain_failing:
  assumes "sock e > 0"
  shows "len \<in> {int recv_len_per, -1} \<Longrightarrow> w_ans w = concat (replicate k [(-1, []), (0, [])]) \<Longrightarrow> drain k e hdr rc len w = None"
proof (induction k arbitrary: rc len w)
  case 0
  then show ?case by (auto simp: to_size_def)
next
  case (Suc k)
  let ?a = "concat (replicate k [(-1, []), (0, [])]) :: (int \<times> string) list"
  have l: "to_size len \<ge> int recv_len_per" using Suc.prems by (auto simp: to_size_def)
  obtain w1 where r: "recv_blk e recv_len_per w = (-1, [], w1)" "w_ans w1 = (0, []) # ?a"
    using Suc.prems(2) assms by (simp add: recv_blk_def sock_open_def ask_read_def Let_def)
  obtain w2 where s: "send_retry (meta_id e) (take 31 hdr) rc w1 = Inr (rc, w2)" "w_ans w2 = ?a"
    using send_retry_ok [OF r(2)] by simp
  show ?case using l r(1) s Suc.IH [of "-1" w2 rc] by simp
qed

theorem receive_runs_on:
  assumes "sock e > 0"
    and "w_ans w = (2097152, replicate 2097152 c) # (0, []) # concat (replicate k [(-1, []), (0, [])])"
  shows "on_readable k e w = None"
proof -
  let ?bs = "replicate 2097152 c" and ?a = "concat (replicate k [(-1, []), (0, [])]) :: (int \<times> string) list"
  let ?f = "frame_header (handle_id e) @ ?bs"
  obtain w1 where r: "recv_blk e recv_len_per w = (2097152, ?bs, w1)" "w_ans w1 = (0, []) # ?a"
    using assms by (simp add: recv_blk_def sock_open_def ask_read_def Let_def)
  obtain w2 where s: "send_retry (meta_id e) ?f 0 w1 = Inr (0, w2)" "w_ans w2 = ?a"
    using send_retry_ok [OF r(2)] by simp
  show ?thesis
    using drain_failing [OF assms(1) _ s(2), of 2097152] by (simp add: on_readable_def r(1) s(1))
qed

theorem receive_runs_on_witness:
  "on_readable 3 \<lparr>sock = 5, remote_end = ''r'', meta_id = 3, handle_id = 9\<rparr>
     \<lparr>w_ans = [(2097152, replicate 2097152 CHR ''x''), (0, []), (-1, []), (0, []), (-1, []), (0, []), (-1, []), (0, [])], w_log = []\<rparr> = None"
  by (rule receive_runs_on [where c = "CHR ''x''"]) (simp_all add: numeral_3_eq_3)

section \<open>The sending thread\<close>

fun sends_of :: "(os_call \<times> int) list \<Rightarrow> (int \<times> nat) list" where
  "sends_of [] = []"
| "sends_of ((S_send_data cid d, r) # l) = (cid, length d) # sends_of l"
| "sends_of (_ # l) = sends_of l"

lemma sends_of_append [simp]: "sends_of (l @ k) = sends_of l @ sends_of k"
  by (induction l rule: sends_of.induct) auto

lemma send_len_range:
  "buffing c = 0 \<Longrightarrow> 1000 \<le> send_len c k r \<and> send_len c k r \<le> 199000"
  using pos_mod_bound [of 100 r] pos_mod_sign [of 100 r] pos_mod_bound [of 5000 r] pos_mod_sign [of 5000 r]
  by (auto simp: send_len_def)

lemma send_one_plain:
  assumes "buffing (cfg a) = 0" and "length buf \<ge> 199000"
  shows "\<exists>t' a' l n. send_one i cid k buf t a = Inr (t', a') \<and> cfg a' = cfg a \<and> vecConnections a' = vecConnections a
    \<and> w_log (os a') = w_log (os a) @ l \<and> sends_of l = [(cid, n)] \<and> 1000 \<le> n \<and> n \<le> 199000"
proof -
  obtain rnd w1 where r: "ask C_rand (os a) = (rnd, w1)" by fastforce
  let ?len = "send_len (cfg a) k (max 0 rnd)"
  obtain rt w2 where s: "ask (S_send_data cid (take (nat ?len) buf)) w1 = (rt, w2)" by fastforce
  have "w_log w2 = w_log (os a) @ [(C_rand, rnd), (S_send_data cid (take (nat ?len) buf), rt)]"
    using ask_log [of C_rand "os a"] ask_log [of "S_send_data cid (take (nat ?len) buf)" w1] by (simp add: r s)
  moreover have "1000 \<le> nat ?len" "nat ?len \<le> 199000"
    using send_len_range [OF assms(1), of k "max 0 rnd"] by auto
  ultimately show ?thesis using assms by (simp add: send_one_def r s Let_def)
qed

lemma send_round_plain:
  assumes "length buf \<ge> 199000"
  shows "buffing (cfg a) = 0 \<Longrightarrow> \<exists>t' a' l. send_round i ids k buf t a = Inr (t', a') \<and> vecConnections a' = vecConnections a
    \<and> w_log (os a') = w_log (os a) @ l \<and> map fst (sends_of l) = ids \<and> (\<forall>(c, n) \<in> set (sends_of l). 1000 \<le> n \<and> n \<le> 199000)"
proof (induction ids arbitrary: i t a)
  case Nil
  then show ?case by auto
next
  case (Cons cid ids)
  obtain t1 a1 l1 n where 1: "send_one i cid k buf t a = Inr (t1, a1)" "cfg a1 = cfg a" "vecConnections a1 = vecConnections a"
      "w_log (os a1) = w_log (os a) @ l1" "sends_of l1 = [(cid, n)]" "1000 \<le> n" "n \<le> 199000"
    using send_one_plain [OF Cons.prems assms] by blast
  obtain t2 a2 l2 where 2: "send_round (Suc i) ids k buf t1 a1 = Inr (t2, a2)" "vecConnections a2 = vecConnections a1"
      "w_log (os a2) = w_log (os a1) @ l2" "map fst (sends_of l2) = ids" "\<forall>(c, n) \<in> set (sends_of l2). 1000 \<le> n \<and> n \<le> 199000"
    using Cons.IH [of a1 "Suc i" t1] Cons.prems 1(2) by auto
  show ?case
    using 1 2 by (intro exI [of _ t2] exI [of _ a2] exI [of _ "l1 @ l2"]) auto
qed

text \<open>
  A pass of the sending thread without buffering serves every connection: whatever the SDK
  answers, each connection present at the start is sent exactly one block, in order, of 1000 to
  199000 bytes (within the buffer of the thread), and no connection is closed.
\<close>

theorem send_pass:
  assumes "server_not_send_flag a = 0" and "buffing (cfg a) = 0" and "length buf = 1048576"
  shows "\<exists>t' a' l. SendThread_pass k buf t a = Inr (k + 1, t', a') \<and> vecConnections a' = vecConnections a
    \<and> w_log (os a') = w_log (os a) @ l \<and> map fst (sends_of l) = map conn_id (vecConnections a)
    \<and> (\<forall>(c, n) \<in> set (sends_of l). 1000 \<le> n \<and> n \<le> 199000)"
proof -
  have "length buf \<ge> 199000" using assms(3) by simp
  from send_round_plain [OF this assms(2), of 0 "map conn_id (vecConnections a)" k t]
  obtain t' a' l where r: "send_round 0 (map conn_id (vecConnections a)) k buf t a = Inr (t', a')"
      "vecConnections a' = vecConnections a" "w_log (os a') = w_log (os a) @ l"
      "map fst (sends_of l) = map conn_id (vecConnections a)" "\<forall>(c, n) \<in> set (sends_of l). 1000 \<le> n \<and> n \<le> 199000"
    by blast
  have "SendThread_pass k buf t a = Inr (k + 1, t', a')" using assms(1) r(1) by (simp add: SendThread_pass_def)
  with r(2-5) show ?thesis by blast
qed

definition demo_sender :: "int \<Rightarrow> (int \<times> string) list \<Rightarrow> agent" where
  "demo_sender b ans = (agent_init (config_init\<lparr>buffing := b, buffing_count := 0\<rparr>) \<lparr>w_ans = ans, w_log = []\<rparr>)
     \<lparr>vecConnections := [demo_conn, demo_conn\<lparr>conn_id := 4\<rparr>]\<rparr>"

theorem send_pass_witness:
  "\<exists>t' a'. SendThread_pass 0 (replicate 1048576 CHR ''x'') new_recv_thread (demo_sender 0 []) = Inr (1, t', a')
     \<and> map fst (sends_of (w_log (os a'))) = [3, 4]"
  using send_pass [of "demo_sender 0 []" "replicate 1048576 CHR ''x''" 0 new_recv_thread]
  by (auto simp: demo_sender_def agent_init_def config_init_def demo_conn_def)

text \<open>
  With buffering, the close goes by position. For two connections, when the SDK reports a
  full buffer for both and the limit is 0, the first is closed, the second has moved to
  position 0, and the access for it is outside the vector.
\<close>

theorem stale_close:
  assumes "server_not_send_flag a = 0" and "buffing (cfg a) \<noteq> 0" and "buffing_count (cfg a) = 0"
    and "vecConnections a = [c1, c2]" and "buffing_count1 t \<ge> 0"
    and "w_ans (os a) = (r1, x1) # (0, x2) # (r2, x3) # (0, x4) # ans"
  shows "SendThread_pass k buf t a = Inl Bad_Index"
proof -
  have "\<exists>a1. send_one 0 (conn_id c1) k buf t a = Inr (t\<lparr>buffing_count1 := 0\<rparr>, a1) \<and> cfg a1 = cfg a
      \<and> vecConnections a1 = [c2] \<and> w_ans (os a1) = (r2, x3) # (0, x4) # ans"
    using assms(2-6) by (simp add: send_one_def ask_Cons Let_def)
  then obtain a1 where a1: "send_one 0 (conn_id c1) k buf t a = Inr (t\<lparr>buffing_count1 := 0\<rparr>, a1)" "cfg a1 = cfg a"
      "vecConnections a1 = [c2]" "w_ans (os a1) = (r2, x3) # (0, x4) # ans" by (elim exE conjE)
  have "send_one (Suc 0) (conn_id c2) k buf (t\<lparr>buffing_count1 := 0\<rparr>) a1 = Inl Bad_Index"
    using assms(2,3) a1(2-4) by (simp add: send_one_def ask_Cons Let_def)
  then show ?thesis using assms(1,4) a1(1) by (simp add: SendThread_pass_def)
qed

theorem stale_close_witness:
  "SendThread_pass 0 ''x'' new_recv_thread (demo_sender 1 [(7, []), (0, []), (7, []), (0, [])]) = Inl Bad_Index"
  by (rule stale_close) (simp_all add: demo_sender_def agent_init_def config_init_def new_recv_thread_def)

section \<open>Times\<close>

definition usec_of :: "int \<times> int \<Rightarrow> int" where
  "usec_of t = fst t * 1000000 + snd t"

definition tv_ok :: "int \<times> int \<Rightarrow> bool" where
  "tv_ok t \<longleftrightarrow> 0 \<le> snd t \<and> snd t < 1000000"

text \<open>
  \<open>timeval_subtract\<close> on times in normal form gives the difference in normal form, and an
  error exactly when the first is later; the number that \<open>OnSDKConnectionFrame\<close> prints is the
  difference in milliseconds without the whole seconds.
\<close>

theorem timeval_subtract_correct:
  assumes "tv_ok x" and "tv_ok y"
  shows "(timeval_subtract x y = None \<longleftrightarrow> usec_of x > usec_of y)
    \<and> (\<forall>d. timeval_subtract x y = Some d \<longrightarrow> tv_ok d \<and> usec_of d = usec_of y - usec_of x
          \<and> fst (OnSDKConnectionFrame u y (a\<lparr>last_frame_ticket := x\<rparr>)) = (usec_of y - usec_of x) div 1000 mod 1000)"
proof -
  have ms: "snd d div 1000 = usec_of d div 1000 mod 1000" if "tv_ok d" for d
  proof -
    have "usec_of d div 1000 = fst d * 1000 + snd d div 1000" by (simp add: usec_of_def)
    moreover have "snd d div 1000 < 1000" "0 \<le> snd d div 1000" using that by (auto simp: tv_ok_def)
    ultimately show ?thesis by simp
  qed
  have d: "tv_ok d \<and> usec_of d = usec_of y - usec_of x" if "timeval_subtract x y = Some d" for d
    using that assms by (auto simp: timeval_subtract_def Let_def tv_ok_def usec_of_def split: if_splits)
  have "fst (OnSDKConnectionFrame u y (a\<lparr>last_frame_ticket := x\<rparr>)) = (usec_of y - usec_of x) div 1000 mod 1000"
    if "timeval_subtract x y = Some d" for d
    using d [OF that] ms [of d] that by (simp add: OnSDKConnectionFrame_def ms_of_def tv_ok_def)
  moreover have "timeval_subtract x y = None \<longleftrightarrow> usec_of x > usec_of y"
    using assms by (auto simp: timeval_subtract_def Let_def tv_ok_def usec_of_def)
  ultimately show ?thesis using d by blast
qed

theorem timeval_subtract_correct_witness:
  "timeval_subtract (1, 900000) (3, 100000) = Some (1, 200000)
   \<and> fst (OnSDKConnectionFrame (0, 0) (3, 100000) ((agent_init config_init \<lparr>w_ans = [], w_log = []\<rparr>)\<lparr>last_frame_ticket := (1, 900000)\<rparr>)) = 200"
  using timeval_subtract_correct [of "(1, 900000)" "(3, 100000)" "(0, 0)" "agent_init config_init \<lparr>w_ans = [], w_log = []\<rparr>"]
  by (simp add: tv_ok_def usec_of_def timeval_subtract_def)

end
