(* ===== verification/Iostream_Con.thy ===== *)
theory Iostream_Con
  imports Prelude_C "HOL-Library.Monad_Syntax"
begin

text \<open>
  \<open>deviceagent/connection.hpp\<close>: a transport over C++ streams. A read is requested once
  (\<open>async_read_at_least\<close>) and filled by hand (\<open>read_some\<close>, \<open>read_all\<close>) or from a stream
  (\<open>read\<close>); \<open>stub_con\<close> adds the handlers, among them one that requests the next read. Buffers
  are blocks of memory named by numbers. A handler is data: which member function is bound; the
  calls of handlers are logged with the bytes they find. An empty \<open>std::function\<close> that is
  called throws.
\<close>

section \<open>Errors\<close>

datatype tvalue = T_general | T_pass_through | T_invalid_num_bytes | T_double_read | T_operation_aborted
  | T_operation_not_supported | T_eof | T_tls_short_read | T_timeout | T_action_after_shutdown | T_tls_error

datatype ivalue = I_general | I_invalid_num_bytes | I_double_read | I_output_stream_required | I_bad_stream

datatype ecode = No_Error | Transport tvalue | Iostream ivalue

fun transport_message :: "tvalue \<Rightarrow> string" where
  "transport_message T_general = ''generic transport policy error''"
| "transport_message T_pass_through = ''underlying transport error''"
| "transport_message T_invalid_num_bytes = ''async_read_at_least call requested more bytes than buffer can store''"
| "transport_message T_operation_aborted = ''the operation was aborted''"
| "transport_message T_operation_not_supported = ''the operation is not supported by this transport''"
| "transport_message T_eof = ''end of file''"
| "transport_message T_timeout = ''timer expired''"
| "transport_message T_action_after_shutdown = ''a transport action was requested after shutdown''"
| "transport_message T_tls_error = ''generic tls related error''"
| "transport_message _ = ''unknown''"

fun iostream_message :: "ivalue \<Rightarrow> string" where
  "iostream_message I_general = ''generic iostream transport policy error''"
| "iostream_message I_invalid_num_bytes = ''async_read_at_least call requested more bytes than buffer can store''"
| "iostream_message I_double_read = ''async read already in progress''"
| "iostream_message I_output_stream_required = ''an output stream to be set before async_write can be used''"
| "iostream_message I_bad_stream = ''a stream opeartion returned ios::bad''"

section \<open>Streams of the standard library\<close>

text \<open>
  An output stream: what was written, and for each further write whether it succeeds. After a
  failed write the stream is bad and takes nothing. An input stream: what is left, whether its
  end is an error of the device, and its state.
\<close>

record ostream =
  o_data :: string
  o_script :: "bool list"
  o_bad :: bool

definition o_write :: "string \<Rightarrow> ostream \<Rightarrow> ostream" where
  "o_write s os = (if o_bad os then os
     else case o_script os of
            [] \<Rightarrow> os\<lparr>o_data := o_data os @ s\<rparr>
          | ok # r \<Rightarrow> if ok then os\<lparr>o_data := o_data os @ s, o_script := r\<rparr> else os\<lparr>o_script := r, o_bad := True\<rparr>)"

record istream =
  i_data :: string
  i_breaks :: bool
  i_good :: bool
  i_bad :: bool

definition i_read :: "nat \<Rightarrow> istream \<Rightarrow> string \<times> istream" where
  "i_read n i = (take n (i_data i),
     if n \<le> length (i_data i) then i\<lparr>i_data := drop n (i_data i)\<rparr>
     else i\<lparr>i_data := [], i_good := False, i_bad := i_breaks i\<rparr>)"

section \<open>The connection\<close>

datatype handler = H_none | H_op | H_indef | H_user nat

type_synonym write_fn = "string \<Rightarrow> string \<Rightarrow> string \<times> ecode"
type_synonym vector_write_fn = "string \<Rightarrow> string list \<Rightarrow> string \<times> ecode"

text \<open>
  \<open>out\<close> is the string that the write handlers append to, \<open>memory\<close> the content of each buffer;
  the fields from \<open>ec\<close> on are those of \<open>stub_con\<close>.
\<close>

record con =
  reading :: bool
  output_stream :: "ostream option"
  remote_endpoint :: string
  write_handler :: "write_fn option"
  vector_write_handler :: "vector_write_fn option"
  shutdown_handler :: "ecode option"
  buf :: nat
  len :: nat
  bytes_needed :: nat
  read_handler :: handler
  cursor :: nat
  memory :: "nat \<Rightarrow> string"
  out :: string
  ec :: ecode
  indef_read_size :: nat
  indef_read_len :: nat
  indef_read_total :: nat
  indef_read_buf :: nat
  calls :: "(handler \<times> ecode \<times> nat \<times> string) list"

definition con_init :: "(nat \<Rightarrow> string) \<Rightarrow> con" where
  "con_init m = \<lparr>reading = False, output_stream = None, remote_endpoint = ''iostream transport'',
     write_handler = None, vector_write_handler = None, shutdown_handler = None, buf = 0, len = 0,
     bytes_needed = 0, read_handler = H_none, cursor = 0, memory = m, out = [],
     ec = Transport T_general, indef_read_size = 0, indef_read_len = 0, indef_read_total = 0,
     indef_read_buf = 0, calls = []\<rparr>"

text \<open>
  \<open>async_read_at_least\<close>: \<open>Inl\<close> is the error that the handler is called with at once, \<open>Inr\<close> the
  state that waits for data.
\<close>

definition arm_read :: "nat \<Rightarrow> nat \<Rightarrow> nat \<Rightarrow> handler \<Rightarrow> con \<Rightarrow> ecode + con" where
  "arm_read num_bytes b l h c =
     (if num_bytes > l then Inl (Iostream I_invalid_num_bytes)
      else if reading c then Inl (Iostream I_double_read)
      else if num_bytes = 0 \<or> l = 0 then Inl No_Error
      else Inr (c\<lparr>buf := b, len := l, bytes_needed := num_bytes, read_handler := h, cursor := 0, reading := True\<rparr>))"

definition log_call :: "handler \<Rightarrow> ecode \<Rightarrow> nat \<Rightarrow> con \<Rightarrow> con" where
  "log_call h e n c = c\<lparr>calls := calls c @ [(h, e, n, take n (memory c (buf c)))]\<rparr>"

text \<open>
  The call of a handler; \<open>Inl ()\<close> is the exception of an empty function. \<open>handle_indef\<close>
  requests the next read, which may call the handler again: a call that does not return is
  \<open>None\<close>.
\<close>

partial_function (option) call_handler :: "handler \<Rightarrow> ecode \<Rightarrow> nat \<Rightarrow> con \<Rightarrow> (unit + con) option" where
  "call_handler h e n c =
     (let c1 = log_call h e n c in
      case h of
        H_none \<Rightarrow> Some (Inl ())
      | H_user k \<Rightarrow> Some (Inr c1)
      | H_op \<Rightarrow> Some (Inr (c1\<lparr>ec := e\<rparr>))
      | H_indef \<Rightarrow>
          (let c2 = c1\<lparr>ec := e, indef_read_total := indef_read_total c1 + n\<rparr> in
           case arm_read (indef_read_size c2) (indef_read_buf c2) (indef_read_len c2) H_indef c2 of
             Inl e' \<Rightarrow> call_handler H_indef e' 0 c2
           | Inr c3 \<Rightarrow> Some (Inr c3)))"

definition async_read_at_least :: "nat \<Rightarrow> nat \<Rightarrow> nat \<Rightarrow> handler \<Rightarrow> con \<Rightarrow> (unit + con) option" where
  "async_read_at_least num_bytes b l h c =
     (case arm_read num_bytes b l h c of Inl e \<Rightarrow> call_handler h e 0 c | Inr c1 \<Rightarrow> Some (Inr c1))"

definition indef_read :: "con \<Rightarrow> (unit + con) option" where
  "indef_read c = async_read_at_least (indef_read_size c) (indef_read_buf c) (indef_read_len c) H_indef c"

definition async_read_indef :: "nat \<Rightarrow> nat \<Rightarrow> nat \<Rightarrow> con \<Rightarrow> (unit + con) option" where
  "async_read_indef num_bytes b l c =
     indef_read (c\<lparr>indef_read_size := num_bytes, indef_read_buf := b, indef_read_len := l\<rparr>)"

definition complete_read :: "ecode \<Rightarrow> con \<Rightarrow> (unit + con) option" where
  "complete_read e c =
     call_handler (read_handler c) e (cursor c) (c\<lparr>reading := False, read_handler := H_none\<rparr>)"

definition store_bytes :: "string \<Rightarrow> con \<Rightarrow> con" where
  "store_bytes s c = c\<lparr>memory := (memory c)(buf c := mem_put (cursor c) s (memory c (buf c))),
     cursor := cursor c + length s\<rparr>"

definition read_some_impl :: "string \<Rightarrow> con \<Rightarrow> (unit + (nat \<times> con)) option" where
  "read_some_impl s c =
     (if \<not> reading c then Some (Inr (0, c))
      else let n = min (length s) (len c - cursor c);
               c1 = store_bytes (take n s) c
           in if cursor c1 \<ge> bytes_needed c1
              then map_option (map_sum id (\<lambda>c2. (n, c2))) (complete_read No_Error c1)
              else Some (Inr (n, c1)))"

definition read_some :: "string \<Rightarrow> con \<Rightarrow> (unit + (nat \<times> con)) option" where
  "read_some s c = read_some_impl s c"

text \<open>The loop of \<open>read_all\<close>.\<close>

partial_function (option) read_loop :: "string \<Rightarrow> nat \<Rightarrow> con \<Rightarrow> (unit + (nat \<times> con)) option" where
  "read_loop s tot c =
     Option.bind (read_some_impl (drop tot s) c) (\<lambda>r. case r of
        Inl u \<Rightarrow> Some (Inl u)
      | Inr (temp_read, c1) \<Rightarrow>
          if temp_read \<noteq> 0 \<and> tot + temp_read < length s then read_loop s (tot + temp_read) c1
          else Some (Inr (tot + temp_read, c1)))"

definition read_all :: "string \<Rightarrow> con \<Rightarrow> (unit + (nat \<times> con)) option" where
  "read_all s c = read_loop s 0 c"

text \<open>Reading from a stream; after a bad stream the code goes on to the next test.\<close>

partial_function (option) read_stream :: "istream \<Rightarrow> con \<Rightarrow> (unit + (istream \<times> con)) option" where
  "read_stream i c =
     (if \<not> i_good i then Some (Inr (i, c))
      else if \<not> reading c then Some (Inr (i, c))
      else let (s, i1) = i_read (len c - cursor c) i
           in if s = [] then Some (Inr (i1, c))
              else let c1 = store_bytes s c in
                Option.bind (if i_bad i1 then complete_read (Iostream I_bad_stream) c1 else Some (Inr c1)) (\<lambda>r1.
                  case r1 of
                    Inl u \<Rightarrow> Some (Inl u)
                  | Inr c2 \<Rightarrow>
                      Option.bind (if cursor c2 \<ge> bytes_needed c2 then complete_read No_Error c2 else Some (Inr c2)) (\<lambda>r2.
                        case r2 of
                          Inl u \<Rightarrow> Some (Inl u)
                        | Inr c3 \<Rightarrow> read_stream i1 c3)))"

definition fatal_error :: "con \<Rightarrow> (unit + con) option" where
  "fatal_error c = (if reading c then complete_read (Transport T_pass_through) c else Some (Inr c))"

section \<open>Writing\<close>

fun write_stream :: "string list \<Rightarrow> ostream \<Rightarrow> ecode \<times> ostream" where
  "write_stream [] os = (No_Error, os)"
| "write_stream (s # ss) os =
     (let os1 = o_write s os in if o_bad os1 then (Iostream I_bad_stream, os1) else write_stream ss os1)"

fun write_each :: "write_fn \<Rightarrow> string list \<Rightarrow> ecode \<Rightarrow> string \<Rightarrow> string \<times> ecode" where
  "write_each f [] e o' = (o', e)"
| "write_each f (s # ss) e o' =
     (let (o1, e1) = f o' s in if e1 \<noteq> No_Error then (o1, e1) else write_each f ss e1 o1)"

definition write_result :: "string \<Rightarrow> con \<Rightarrow> ecode \<times> con" where
  "write_result s c =
     (case output_stream c of
        Some os \<Rightarrow> let os1 = o_write s os
                   in (if o_bad os1 then Iostream I_bad_stream else No_Error, c\<lparr>output_stream := Some os1\<rparr>)
      | None \<Rightarrow> (case write_handler c of
          Some f \<Rightarrow> let (o1, e) = f (out c) s in (e, c\<lparr>out := o1\<rparr>)
        | None \<Rightarrow> (Iostream I_output_stream_required, c)))"

definition async_write :: "string \<Rightarrow> handler \<Rightarrow> con \<Rightarrow> (unit + con) option" where
  "async_write s h c = (let (e, c1) = write_result s c in call_handler h e 0 c1)"

definition write_vector_result :: "string list \<Rightarrow> con \<Rightarrow> ecode \<times> con" where
  "write_vector_result bufs c =
     (case output_stream c of
        Some os \<Rightarrow> let (e, os1) = write_stream bufs os in (e, c\<lparr>output_stream := Some os1\<rparr>)
      | None \<Rightarrow> (case vector_write_handler c of
          Some f \<Rightarrow> let (o1, e) = f (out c) bufs in (e, c\<lparr>out := o1\<rparr>)
        | None \<Rightarrow> (case write_handler c of
            Some f \<Rightarrow> let (o1, e) = write_each f bufs No_Error (out c) in (e, c\<lparr>out := o1\<rparr>)
          | None \<Rightarrow> (Iostream I_output_stream_required, c))))"

definition async_write_vector :: "string list \<Rightarrow> handler \<Rightarrow> con \<Rightarrow> (unit + con) option" where
  "async_write_vector bufs h c = (let (e, c1) = write_vector_result bufs c in call_handler h e 0 c1)"

definition async_shutdown :: "handler \<Rightarrow> con \<Rightarrow> (unit + con) option" where
  "async_shutdown h c = call_handler h (case shutdown_handler c of Some e \<Rightarrow> e | None \<Rightarrow> No_Error) 0 c"

text \<open>The handlers that the file defines for \<open>stub_con\<close>.\<close>

definition stub_write_handler :: write_fn where
  "stub_write_handler o' s = (o' @ s, No_Error)"

definition stub_vector_write_handler :: vector_write_fn where
  "stub_vector_write_handler o' bufs = (fold (\<lambda>s acc. acc @ s) bufs o', No_Error)"

definition write_handler_error :: write_fn where
  "write_handler_error o' s = (o', Transport T_general)"

section \<open>The rest of the interface\<close>

text \<open>
  The setters, \<open>init\<close> and \<open>dispatch\<close>, and the members of \<open>stub_con\<close> that bind its handlers.
  \<open>eof\<close> and \<open>set_shutdown_handler\<close> do not compile when they are used.
\<close>

definition register_ostream :: "ostream \<Rightarrow> con \<Rightarrow> con" where
  "register_ostream o' c = c\<lparr>output_stream := Some o'\<rparr>"

definition set_remote_endpoint :: "string \<Rightarrow> con \<Rightarrow> con" where
  "set_remote_endpoint v c = c\<lparr>remote_endpoint := v\<rparr>"

definition con_set_write_handler :: "write_fn \<Rightarrow> con \<Rightarrow> con" where
  "con_set_write_handler f c = c\<lparr>write_handler := Some f\<rparr>"

definition con_set_vector_write_handler :: "vector_write_fn \<Rightarrow> con \<Rightarrow> con" where
  "con_set_vector_write_handler f c = c\<lparr>vector_write_handler := Some f\<rparr>"

definition con_base_init :: "handler \<Rightarrow> con \<Rightarrow> (unit + con) option" where
  "con_base_init h c = call_handler h No_Error 0 c"

definition con_dispatch :: "handler \<Rightarrow> con \<Rightarrow> (unit + (ecode \<times> con)) option" where
  "con_dispatch h c = map_option (map_sum id (\<lambda>c1. (No_Error, c1))) (call_handler h No_Error 0 c)"

definition stub_write :: "string \<Rightarrow> con \<Rightarrow> (unit + con) option" where
  "stub_write msg c = async_write msg H_op c"

definition stub_write_vector :: "string list \<Rightarrow> con \<Rightarrow> (unit + con) option" where
  "stub_write_vector bufs c = async_write_vector bufs H_op c"

definition stub_read_at_least :: "nat \<Rightarrow> nat \<Rightarrow> nat \<Rightarrow> con \<Rightarrow> (unit + con) option" where
  "stub_read_at_least num_bytes b l c = async_read_at_least num_bytes b l H_op c"

definition stub_shutdown :: "con \<Rightarrow> (unit + con) option" where
  "stub_shutdown c = async_shutdown H_op c"

end
