(* ===== verification/Iostream_Props.thy ===== *)
theory Iostream_Props
  imports Iostream_Con
begin

text \<open>
  The properties of the stream transport: a requested read gets the bytes in order, repeated
  reads split the input without loss, and the cases in which a handler is called for ever or an
  empty handler is called.
\<close>

section \<open>One step of input\<close>

definition pending :: "con \<Rightarrow> string" where
  "pending c = take (cursor c) (memory c (buf c))"

definition armed :: "con \<Rightarrow> bool" where
  "armed c \<longleftrightarrow> reading c \<and> 0 < bytes_needed c \<and> bytes_needed c \<le> len c \<and> cursor c < bytes_needed c
     \<and> len c \<le> length (memory c (buf c))"

lemma store_fields [simp]:
  "reading (store_bytes s c) = reading c" "buf (store_bytes s c) = buf c" "len (store_bytes s c) = len c"
  "bytes_needed (store_bytes s c) = bytes_needed c" "read_handler (store_bytes s c) = read_handler c"
  "cursor (store_bytes s c) = cursor c + length s" "calls (store_bytes s c) = calls c"
  "indef_read_size (store_bytes s c) = indef_read_size c" "indef_read_len (store_bytes s c) = indef_read_len c"
  "indef_read_buf (store_bytes s c) = indef_read_buf c" "indef_read_total (store_bytes s c) = indef_read_total c"
  "ec (store_bytes s c) = ec c"
  by (simp_all add: store_bytes_def)

lemma pending_store:
  "cursor c + length s \<le> length (memory c (buf c)) \<Longrightarrow> pending (store_bytes s c) = pending c @ s"
  by (simp add: pending_def store_bytes_def take_mem_put)

lemma length_store:
  "cursor c + length s \<le> length (memory c (buf c)) \<Longrightarrow> length (memory (store_bytes s c) (buf c)) = length (memory c (buf c))"
  by (simp add: store_bytes_def)

lemma call_user: "call_handler (H_user k) e n c = Some (Inr (log_call (H_user k) e n c))"
  by (subst call_handler.simps) simp

lemma call_none: "call_handler H_none e n c = Some (Inl ())"
  by (subst call_handler.simps) simp

lemma call_op: "call_handler H_op e n c = Some (Inr ((log_call H_op e n c)\<lparr>ec := e\<rparr>))"
  by (subst call_handler.simps) simp

section \<open>Repeated reads\<close>

definition indef_ok :: "con \<Rightarrow> bool" where
  "indef_ok c \<longleftrightarrow> armed c \<and> read_handler c = H_indef \<and> indef_read_size c = bytes_needed c
     \<and> indef_read_len c = len c \<and> indef_read_buf c = buf c"

text \<open>The deliveries in a piece of the log, and what one of them must be.\<close>

definition delivered :: "(handler \<times> ecode \<times> nat \<times> string) list \<Rightarrow> string" where
  "delivered l = concat (map (\<lambda>(h, e, n, s). s) l)"

definition good_call :: "nat \<Rightarrow> nat \<Rightarrow> handler \<times> ecode \<times> nat \<times> string \<Rightarrow> bool" where
  "good_call lo hi x \<longleftrightarrow> (case x of (h, e, n, s) \<Rightarrow> h = H_indef \<and> e = No_Error \<and> length s = n \<and> lo \<le> n \<and> n \<le> hi)"

lemma delivered_append [simp]: "delivered (l @ k) = delivered l @ delivered k"
  by (simp add: delivered_def)

lemma rearm:
  assumes "indef_read_size c \<noteq> 0" and "indef_read_size c \<le> indef_read_len c" and "\<not> reading c"
  shows "call_handler H_indef e n c = Some (Inr ((log_call H_indef e n c)\<lparr>ec := e,
      indef_read_total := indef_read_total c + n, buf := indef_read_buf c, len := indef_read_len c,
      bytes_needed := indef_read_size c, read_handler := H_indef, cursor := 0, reading := True\<rparr>))"
  using assms by (subst call_handler.simps) (simp add: arm_read_def log_call_def)

lemma indef_step:
  assumes c: "indef_ok c" and n: "n = min (length s) (len c - cursor c)"
  shows "\<exists>c' l. read_some_impl s c = Some (Inr (n, c')) \<and> indef_ok c' \<and> bytes_needed c' = bytes_needed c \<and> len c' = len c
    \<and> calls c' = calls c @ l \<and> list_all (good_call (bytes_needed c) (len c)) l
    \<and> delivered l @ pending c' = pending c @ take n s"
proof -
  have fit: "cursor c + length (take n s) \<le> length (memory c (buf c))"
    using c n by (auto simp: indef_ok_def armed_def)
  let ?c1 = "store_bytes (take n s) c"
  have p: "pending ?c1 = pending c @ take n s" by (rule pending_store [OF fit])
  have lm: "length (memory ?c1 (buf c)) = length (memory c (buf c))" by (rule length_store [OF fit])
  show ?thesis
  proof (cases "cursor ?c1 \<ge> bytes_needed ?c1")
    case False
    then show ?thesis
      using c n p lm by (intro exI [of _ ?c1] exI [of _ "[]"])
        (auto simp: read_some_impl_def Let_def indef_ok_def armed_def delivered_def)
  next
    case True
    let ?c2 = "?c1\<lparr>reading := False, read_handler := H_none\<rparr>"
    let ?x = "(H_indef, No_Error, cursor ?c1, pending ?c1)"
    let ?c3 = "(log_call H_indef No_Error (cursor ?c1) ?c2)\<lparr>ec := No_Error,
      indef_read_total := indef_read_total ?c2 + cursor ?c1, buf := indef_read_buf ?c2, len := indef_read_len ?c2,
      bytes_needed := indef_read_size ?c2, read_handler := H_indef, cursor := 0, reading := True\<rparr>"
    have "complete_read No_Error ?c1 = Some (Inr ?c3)"
      using c unfolding complete_read_def
      by (simp add: indef_ok_def armed_def rearm del: store_fields(6))
    then have r: "read_some_impl s c = Some (Inr (n, ?c3))"
      using c n True by (simp add: read_some_impl_def Let_def indef_ok_def armed_def)
    have k: "calls ?c3 = calls c @ [?x]" by (simp add: log_call_def pending_def)
    have "indef_ok ?c3" "bytes_needed ?c3 = bytes_needed c" "len ?c3 = len c" "pending ?c3 = []"
      using c lm by (auto simp: indef_ok_def armed_def log_call_def pending_def)
    moreover have "good_call (bytes_needed c) (len c) ?x"
      using True c n lm by (auto simp: good_call_def pending_def indef_ok_def armed_def)
    ultimately show ?thesis
      using r k p by (intro exI [of _ ?c3] exI [of _ "[?x]"]) (simp add: delivered_def)
  qed
qed

lemma indef_loop:
  "indef_ok c \<Longrightarrow> tot \<le> length s \<Longrightarrow> (s = [] \<or> tot < length s) \<Longrightarrow>
   \<exists>c' l. read_loop s tot c = Some (Inr (length s, c')) \<and> indef_ok c' \<and> bytes_needed c' = bytes_needed c \<and> len c' = len c
    \<and> calls c' = calls c @ l \<and> list_all (good_call (bytes_needed c) (len c)) l
    \<and> delivered l @ pending c' = pending c @ drop tot s"
proof (induction "length s - tot" arbitrary: tot c rule: less_induct)
  case less
  define n where "n = min (length (drop tot s)) (len c - cursor c)"
  obtain c1 l1 where 1: "read_some_impl (drop tot s) c = Some (Inr (n, c1))" "indef_ok c1"
      "bytes_needed c1 = bytes_needed c" "len c1 = len c" "calls c1 = calls c @ l1"
      "list_all (good_call (bytes_needed c) (len c)) l1" "delivered l1 @ pending c1 = pending c @ take n (drop tot s)"
    using indef_step [OF less.prems(1) n_def] by blast
  have room: "len c - cursor c > 0" using less.prems(1) by (auto simp: indef_ok_def armed_def)
  show ?case
  proof (cases "tot + n < length s")
    case False
    then have "n = length (drop tot s)" by (auto simp: n_def)
    moreover from this have "tot + n = length s" using less.prems(2) by simp
    ultimately show ?thesis
      using 1 False by (intro exI [of _ c1] exI [of _ l1]) (subst read_loop.simps, simp)
  next
    case True
    then have pos: "n \<noteq> 0" using room less.prems by (auto simp: n_def)
    then have "length s - (tot + n) < length s - tot" using True by simp
    note IH = less.hyps [OF this 1(2)]
    obtain c2 l2 where 2: "read_loop s (tot + n) c1 = Some (Inr (length s, c2))" "indef_ok c2"
        "bytes_needed c2 = bytes_needed c1" "len c2 = len c1" "calls c2 = calls c1 @ l2"
        "list_all (good_call (bytes_needed c1) (len c1)) l2" "delivered l2 @ pending c2 = pending c1 @ drop (tot + n) s"
      using IH True by (meson less_imp_le)
    have "read_loop s tot c = Some (Inr (length s, c2))"
      using 1(1) pos True 2(1) by (subst read_loop.simps) simp
    moreover have "delivered (l1 @ l2) @ pending c2 = pending c @ drop tot s"
      using 1(7) 2(7) append_take_drop_id [of n "drop tot s"] by (simp add: add.commute) (metis append.assoc)
    ultimately show ?thesis
      using 1 2 by (intro exI [of _ c2] exI [of _ "l1 @ l2"]) simp
  qed
qed

text \<open>
  C35. Repeated reads lose nothing. After \<open>async_read_indef\<close> with at least one byte asked for,
  no more than the buffer holds, and a buffer of that length, \<open>read_all\<close> returns having taken
  the whole input; the handler was called without an error with between the size asked for and
  the size of the buffer; what it was given, with what is still in the buffer (less than the
  size asked for), is the input, in order.
\<close>

theorem indef_stream:
  assumes "0 < num_bytes" and "num_bytes \<le> l" and "l \<le> length (memory c b)" and "\<not> reading c"
  shows "\<exists>c0 c' k. async_read_indef num_bytes b l c = Some (Inr c0) \<and> read_all s c0 = Some (Inr (length s, c'))
    \<and> calls c' = calls c @ k \<and> list_all (good_call num_bytes l) k
    \<and> delivered k @ take (cursor c') (memory c' (buf c')) = s \<and> reading c' \<and> cursor c' < num_bytes"
proof -
  let ?c0 = "c\<lparr>indef_read_size := num_bytes, indef_read_buf := b, indef_read_len := l, buf := b, len := l,
    bytes_needed := num_bytes, read_handler := H_indef, cursor := 0, reading := True\<rparr>"
  have a: "async_read_indef num_bytes b l c = Some (Inr ?c0)"
    using assms by (simp add: async_read_indef_def indef_read_def async_read_at_least_def arm_read_def)
  have ok: "indef_ok ?c0" using assms by (simp add: indef_ok_def armed_def)
  have n: "s = [] \<or> 0 < length s" by (cases s) auto
  obtain c' k where "read_loop s 0 ?c0 = Some (Inr (length s, c'))" "indef_ok c'" "bytes_needed c' = num_bytes"
      "calls c' = calls c @ k" "list_all (good_call num_bytes l) k" "delivered k @ pending c' = s"
    using indef_loop [OF ok _ n] by (auto simp: pending_def)
  then show ?thesis
    using a by (auto simp: read_all_def pending_def indef_ok_def armed_def)
qed

theorem indef_stream_witness:
  "\<exists>c0 c' k. async_read_indef 3 0 4 (con_init (\<lambda>_. replicate 4 CHR ''.'')) = Some (Inr c0)
     \<and> read_all ''abcdefghij'' c0 = Some (Inr (10, c'))
     \<and> delivered k @ take (cursor c') (memory c' (buf c')) = ''abcdefghij'' \<and> cursor c' < 3"
proof -
  have "\<not> reading (con_init (\<lambda>_. replicate 4 CHR ''.''))" by (simp add: con_init_def)
  from indef_stream [of 3 4 "con_init (\<lambda>_. replicate 4 CHR ''.'')" 0 "''abcdefghij''", OF _ _ _ this]
  show ?thesis by (auto simp: con_init_def)
qed

section \<open>A handler that is called for ever\<close>

lemma indef_loops:
  assumes "call_handler h e n c = Some r"
  shows "h = H_indef \<longrightarrow> indef_read_size c \<noteq> 0 \<and> indef_read_size c \<le> indef_read_len c \<and> \<not> reading c"
proof (rule call_handler.raw_induct [OF _ assms])
  fix rec h e n c r
  assume IH: "\<And>h e n c y. rec h e n c = Some (y :: unit + con) \<Longrightarrow>
      h = H_indef \<longrightarrow> indef_read_size c \<noteq> 0 \<and> indef_read_size c \<le> indef_read_len c \<and> \<not> reading c"
    and eq: "(let c1 = log_call h e n c in
      case h of
        H_none \<Rightarrow> Some (Inl ())
      | H_op \<Rightarrow> Some (Inr (c1\<lparr>ec := e\<rparr>))
      | H_indef \<Rightarrow>
          (let c2 = c1\<lparr>ec := e, indef_read_total := indef_read_total c1 + n\<rparr> in
           case arm_read (indef_read_size c2) (indef_read_buf c2) (indef_read_len c2) H_indef c2 of
             Inl e' \<Rightarrow> rec H_indef e' 0 c2
           | Inr c3 \<Rightarrow> Some (Inr c3))
      | H_user k \<Rightarrow> Some (Inr c1)) = Some r"
  let ?c2 = "(log_call h e n c)\<lparr>ec := e, indef_read_total := indef_read_total (log_call h e n c) + n\<rparr>"
  show "h = H_indef \<longrightarrow> indef_read_size c \<noteq> 0 \<and> indef_read_size c \<le> indef_read_len c \<and> \<not> reading c"
  proof
    assume h: "h = H_indef"
    show "indef_read_size c \<noteq> 0 \<and> indef_read_size c \<le> indef_read_len c \<and> \<not> reading c"
    proof (cases "arm_read (indef_read_size ?c2) (indef_read_buf ?c2) (indef_read_len ?c2) H_indef ?c2")
      case (Inl e')
      then have "rec H_indef e' 0 ?c2 = Some r" using eq h by (simp add: Let_def)
      from IH [OF this] show ?thesis by (simp add: log_call_def)
    next
      case (Inr c3)
      then show ?thesis by (auto simp: arm_read_def log_call_def split: if_splits)
    qed
  qed
qed

text \<open>
  \<open>async_read_indef\<close> returns only for a read that can be armed: with 0 bytes, with more
  bytes than the buffer has, or while a read is in progress, the handler is called at once and
  requests the same read again, without end.
\<close>

theorem indef_diverges:
  assumes "num_bytes = 0 \<or> num_bytes > l \<or> reading c"
  shows "async_read_indef num_bytes b l c = None"
proof -
  let ?c = "c\<lparr>indef_read_size := num_bytes, indef_read_buf := b, indef_read_len := l\<rparr>"
  have "call_handler H_indef e 0 ?c = None" for e
    using indef_loops [of H_indef e 0 ?c] assms by (cases "call_handler H_indef e 0 ?c") auto
  then show ?thesis
    using assms by (auto simp: async_read_indef_def indef_read_def async_read_at_least_def arm_read_def)
qed

theorem indef_diverges_witness:
  "async_read_indef 5 0 4 (con_init (\<lambda>_. [])) = None"
  by (rule indef_diverges) simp

section \<open>Streams\<close>

text \<open>
  When a stream goes bad while it delivers the rest of a requested read, the read is
  completed twice: the first completion empties the handler, and the call of the empty handler
  throws.
\<close>

theorem bad_stream_throws:
  assumes "armed c" and "read_handler c = H_user k" and "i_good i" and "i_breaks i"
    and "bytes_needed c - cursor c \<le> length (i_data i)" and "length (i_data i) < len c - cursor c"
  shows "read_stream i c = Some (Inl ())"
proof -
  let ?s = "i_data i" and ?i = "i\<lparr>i_data := [], i_good := False, i_bad := True\<rparr>"
  have s: "?s \<noteq> []" using assms(1,5) by (auto simp: armed_def)
  have r: "i_read (len c - cursor c) i = (?s, ?i)" using assms(4,6) by (simp add: i_read_def)
  have 1: "complete_read (Iostream I_bad_stream) (store_bytes ?s c) =
      Some (Inr (log_call (H_user k) (Iostream I_bad_stream) (cursor c + length ?s)
        ((store_bytes ?s c)\<lparr>reading := False, read_handler := H_none\<rparr>)))"
    using assms(2) by (simp add: complete_read_def call_user)
  have "cursor c + length ?s \<ge> bytes_needed c" using assms(5) by simp
  then show ?thesis
    using assms(1,3) s r 1 by (subst read_stream.simps)
      (simp add: armed_def log_call_def complete_read_def call_none)
qed

theorem bad_stream_throws_witness:
  "read_stream \<lparr>i_data = ''abc'', i_breaks = True, i_good = True, i_bad = False\<rparr>
     ((con_init (\<lambda>_. replicate 8 CHR ''.''))\<lparr>reading := True, len := 8, bytes_needed := 2, read_handler := H_user 1\<rparr>)
   = Some (Inl ())"
  by (rule bad_stream_throws) (simp_all add: armed_def con_init_def)

section \<open>Writing\<close>

lemma fold_appends: "fold (\<lambda>s acc. acc @ s) bufs o' = o' @ concat bufs"
  by (induction bufs arbitrary: o') simp_all

lemma write_each_stub: "write_each stub_write_handler bufs No_Error o' = (o' @ concat bufs, No_Error)"
  by (induction bufs arbitrary: o') (simp_all add: stub_write_handler_def)

text \<open>
  A vector of buffers is written like one buffer with the bytes of all of them, whichever
  handler is set: through the vector handler, through the single handler once per buffer, and
  as one write of the joined bytes, the output and the error are the same.
\<close>

theorem vector_write_equiv:
  assumes "output_stream c = None" and "vector_write_handler c = Some stub_vector_write_handler"
    and "write_handler c = Some stub_write_handler"
  shows "write_vector_result bufs c = (No_Error, c\<lparr>out := out c @ concat bufs\<rparr>)
    \<and> write_vector_result bufs (c\<lparr>vector_write_handler := None\<rparr>)
        = (No_Error, c\<lparr>vector_write_handler := None, out := out c @ concat bufs\<rparr>)
    \<and> write_result (concat bufs) c = (No_Error, c\<lparr>out := out c @ concat bufs\<rparr>)"
  using assms
  by (simp add: write_vector_result_def write_result_def write_each_stub stub_vector_write_handler_def
      fold_appends stub_write_handler_def)

theorem vector_write_equiv_witness:
  "out (snd (write_vector_result [''ab'', ''c''] ((con_init (\<lambda>_. []))\<lparr>vector_write_handler := Some stub_vector_write_handler,
      write_handler := Some stub_write_handler\<rparr>))) = ''abc''"
  using vector_write_equiv [of "(con_init (\<lambda>_. []))\<lparr>vector_write_handler := Some stub_vector_write_handler,
      write_handler := Some stub_write_handler\<rparr>" "[''ab'', ''c'']"]
  by (simp add: con_init_def)

end
