(* ===== verification/Mh_Comm.thy ===== *)
theory Mh_Comm
  imports Prelude_C
begin

text \<open>
  The messages of \<open>thconcurrent_frame\<close>: \<open>mhcomm_dll/message_type.c\<close> (a buffer that grows, to
  which fields with a length are pushed, and the function that takes them apart) and the login
  request of \<open>server/handler.c\<close>. The buffer is the memory that \<open>malloc\<close> returned; its length
  is the allocated size, while \<open>buf_len\<close> and \<open>msg_pos\<close> are the 16-bit fields of the structure.
\<close>

section \<open>Messages\<close>

abbreviation max_cmsg_buf_size :: nat where "max_cmsg_buf_size \<equiv> 8192"

record cmsg =
  msg_type :: nat
  buf_len :: nat
  msg_pos :: nat
  msg_mem :: string

definition u16 :: "nat \<Rightarrow> nat" where
  "u16 n = n mod 65536"

definition le16 :: "nat \<Rightarrow> string" where
  "le16 n = [char_of (n mod 256), char_of (n div 256 mod 256)]"

definition get16 :: "string \<Rightarrow> nat" where
  "get16 s = of_char (s ! 0) + 256 * of_char (s ! 1)"

text \<open>\<open>memcpy\<close> into the allocated block.\<close>

definition mem_write :: "nat \<Rightarrow> string \<Rightarrow> cmsg \<Rightarrow> fault + cmsg" where
  "mem_write at s m = (if at + length s \<le> length (msg_mem m) then Inr (m\<lparr>msg_mem := mem_put at s (msg_mem m)\<rparr>)
     else Inl Overflow)"

text \<open>\<open>garbage n\<close> is the content of a fresh block of \<open>n\<close> bytes.\<close>

definition create_cmsg :: "(nat \<Rightarrow> string) \<Rightarrow> nat \<Rightarrow> cmsg" where
  "create_cmsg garbage type =
     \<lparr>msg_type = type, buf_len = max_cmsg_buf_size, msg_pos = 2,
      msg_mem = mem_put 0 (le16 type) (garbage max_cmsg_buf_size)\<rparr>"

text \<open>\<open>while (msg_len + cmsg->msg_pos > tmp_len) tmp_len += MAX_CMSG_BUF_SIZE\<close>\<close>

function grown_len :: "nat \<Rightarrow> nat \<Rightarrow> nat" where
  "grown_len need tmp_len = (if need > tmp_len then grown_len need (tmp_len + max_cmsg_buf_size) else tmp_len)"
  by pat_completeness auto
termination
  by (relation "measure (\<lambda>(need, tmp_len). need - tmp_len)") auto

declare grown_len.simps [simp del]

definition grow :: "(nat \<Rightarrow> string) \<Rightarrow> nat \<Rightarrow> cmsg \<Rightarrow> cmsg" where
  "grow garbage n m = m\<lparr>msg_mem := mem_put 0 (take (msg_pos m) (msg_mem m)) (garbage n), buf_len := u16 n\<rparr>"

text \<open>The test for room counts the field and not the two bytes of its length.\<close>

definition push_cmsg :: "(nat \<Rightarrow> string) \<Rightarrow> string \<Rightarrow> cmsg \<Rightarrow> fault + cmsg" where
  "push_cmsg garbage field m =
     (let msg_len = length field;
          m1 = (if msg_len + msg_pos m > buf_len m
                then grow garbage (grown_len (msg_len + msg_pos m) (buf_len m)) m else m)
      in bindE (mem_write (msg_pos m1) (le16 msg_len) m1) (\<lambda>m2.
         let m3 = m2\<lparr>msg_pos := u16 (msg_pos m2 + 2)\<rparr> in
         bindE (mem_write (msg_pos m3) field m3) (\<lambda>m4.
         Inr (m4\<lparr>msg_pos := u16 (msg_pos m4 + msg_len)\<rparr>))))"

text \<open>The test is for one byte, two are written.\<close>

definition end_cmsg :: "(nat \<Rightarrow> string) \<Rightarrow> cmsg \<Rightarrow> fault + cmsg" where
  "end_cmsg garbage m =
     (let m1 = (if 1 + msg_pos m > buf_len m then grow garbage (1 + msg_pos m) m else m)
      in bindE (mem_write (msg_pos m1) (le16 0) m1) (\<lambda>m2. Inr (m2\<lparr>msg_pos := u16 (msg_pos m2 + 2)\<rparr>)))"

text \<open>
  The loop of \<open>unpacket_message\<close>: \<open>dests\<close> are the sizes of the buffers that are passed, their
  end is the \<open>NULL\<close>. The result is what is copied to each.
\<close>

fun unpacket_loop :: "string \<Rightarrow> nat \<Rightarrow> nat \<Rightarrow> nat list \<Rightarrow> fault + string list" where
  "unpacket_loop msg length' len dests =
     (if length' \<ge> len then Inr []
      else if length msg < 2 then Inl Bad_Index
      else let tmp_len = get16 msg in
        if tmp_len = 0 then Inr []
        else case dests of
               [] \<Rightarrow> Inr []
             | d # ds \<Rightarrow>
                 if length (drop 2 msg) < tmp_len then Inl Bad_Index
                 else if d < tmp_len then Inl Overflow
                 else bindE (unpacket_loop (drop (2 + tmp_len) msg) (length' + 2 + tmp_len) len ds)
                        (\<lambda>r. Inr (take tmp_len (drop 2 msg) # r)))"

declare unpacket_loop.simps [simp del]

definition unpacket_message :: "string \<Rightarrow> nat \<Rightarrow> nat list \<Rightarrow> fault + string list" where
  "unpacket_message msg len dests = unpacket_loop msg 0 len dests"

section \<open>The login request\<close>

abbreviation user_login_type :: nat where "user_login_type \<equiv> 1002"

definition user_login :: "string \<Rightarrow> nat \<Rightarrow> fault + string list" where
  "user_login ibuf ilen = unpacket_message ibuf ilen [129, 129, 8]"

text \<open>\<open>ibuf\<close> is the whole receive buffer, \<open>ilen\<close> the bytes received; the length grows where it
  should shrink.\<close>

definition server_process :: "string \<Rightarrow> nat \<Rightarrow> fault + string list option" where
  "server_process ibuf ilen =
     (let type = get16 ibuf; n = ilen + 2; b = drop 2 ibuf
      in if type = user_login_type then bindE (user_login b n) (\<lambda>r. Inr (Some r)) else Inr None)"

definition push_all :: "(nat \<Rightarrow> string) \<Rightarrow> string list \<Rightarrow> cmsg \<Rightarrow> fault + cmsg" where
  "push_all garbage fs m = fold (\<lambda>f r. bindE r (push_cmsg garbage f)) fs (Inr m)"

end
