(* ===== verification/Mh_Props.thy ===== *)
theory Mh_Props
  imports Mh_Comm
begin

text \<open>
  The properties of the messages of \<open>thconcurrent_frame\<close>: what a sequence of pushes builds and
  how the server takes it apart, and when a push writes past the buffer.
\<close>

section \<open>Sixteen-bit lengths\<close>

lemma get16_le16: "n < 65536 \<Longrightarrow> get16 (le16 n @ s) = n"
  by (simp add: get16_def le16_def of_char_of)

lemma length_le16 [simp]: "length (le16 n) = 2"
  by (simp add: le16_def)

lemma le16_drop [simp]: "drop 2 (le16 n @ s) = s"
  by (simp add: le16_def)

section \<open>Pushing\<close>

text \<open>A message that has never grown: the block has its 8192 bytes.\<close>

definition cmsg_ok :: "cmsg \<Rightarrow> bool" where
  "cmsg_ok m \<longleftrightarrow> buf_len m = max_cmsg_buf_size \<and> length (msg_mem m) = max_cmsg_buf_size \<and> msg_pos m \<le> max_cmsg_buf_size"

definition content :: "cmsg \<Rightarrow> string" where
  "content m = take (msg_pos m) (msg_mem m)"

lemma take_put_put:
  "at \<le> length d \<Longrightarrow> at + length x + length y \<le> length d \<Longrightarrow>
   take (at + length x + length y) (mem_put (at + length x) y (mem_put at x d)) = take at d @ x @ y"
  by (simp add: mem_put_def)

lemma push_fits:
  assumes "cmsg_ok m" and "msg_pos m + 2 + length f \<le> max_cmsg_buf_size"
  shows "\<exists>m'. push_cmsg g f m = Inr m' \<and> cmsg_ok m' \<and> content m' = content m @ le16 (length f) @ f
    \<and> msg_pos m' = msg_pos m + 2 + length f"
  using assms take_put_put [of "msg_pos m" "msg_mem m" "le16 (length f)" f]
  by (simp add: push_cmsg_def Let_def mem_write_def cmsg_ok_def content_def u16_def)

lemma push_overflow_iff:
  assumes "cmsg_ok m" and "msg_pos m + length f \<le> max_cmsg_buf_size"
  shows "push_cmsg g f m = Inl Overflow \<longleftrightarrow> msg_pos m + length f + 2 > max_cmsg_buf_size"
  using assms by (auto simp: push_cmsg_def Let_def mem_write_def cmsg_ok_def u16_def)

definition packed :: "string list \<Rightarrow> string" where
  "packed fs = concat (map (\<lambda>f. le16 (length f) @ f) fs)"

lemma push_all_fits:
  "cmsg_ok m \<Longrightarrow> msg_pos m + length (packed fs) \<le> max_cmsg_buf_size \<Longrightarrow>
   \<exists>m'. push_all g fs m = Inr m' \<and> cmsg_ok m' \<and> content m' = content m @ packed fs \<and> msg_pos m' = msg_pos m + length (packed fs)"
proof (induction fs arbitrary: m)
  case Nil
  then show ?case by (simp add: push_all_def packed_def)
next
  case (Cons f fs)
  have "msg_pos m + 2 + length f \<le> max_cmsg_buf_size" using Cons.prems(2) by (simp add: packed_def)
  then obtain m1 where 1: "push_cmsg g f m = Inr m1" "cmsg_ok m1" "content m1 = content m @ le16 (length f) @ f"
      "msg_pos m1 = msg_pos m + 2 + length f"
    using push_fits [OF Cons.prems(1)] by blast
  then have "msg_pos m1 + length (packed fs) \<le> max_cmsg_buf_size" using Cons.prems(2) by (simp add: packed_def)
  then obtain m2 where "push_all g fs m1 = Inr m2" "cmsg_ok m2" "content m2 = content m1 @ packed fs"
      "msg_pos m2 = msg_pos m1 + length (packed fs)"
    using Cons.IH [OF 1(2)] by blast
  with 1 show ?case by (simp add: push_all_def packed_def)
qed

section \<open>Taking apart\<close>

lemma unpack_fields:
  "list_all2 (\<lambda>f d. f \<noteq> [] \<and> length f \<le> d \<and> length f < 65536) fs ds \<Longrightarrow> k + length (packed fs) < len \<Longrightarrow>
   length rest \<ge> 2 \<Longrightarrow> unpacket_loop (packed fs @ rest) k len ds = Inr fs"
proof (induction fs ds arbitrary: k rule: list_all2_induct)
  case Nil
  then show ?case by (subst unpacket_loop.simps) (auto simp: packed_def Let_def)
next
  case (Cons f fs d ds)
  have e: "packed (f # fs) @ rest = le16 (length f) @ f @ packed fs @ rest" by (simp add: packed_def)
  have l: "k + 2 + length f + length (packed fs) < len" using Cons.prems(1) by (simp add: packed_def)
  have d: "drop (2 + length f) (le16 (length f) @ f @ packed fs @ rest) = packed fs @ rest" by simp
  have "unpacket_loop (drop (2 + length f) (le16 (length f) @ f @ packed fs @ rest)) (k + 2 + length f) len ds = Inr fs"
    unfolding d using Cons.IH l Cons.prems(2) by simp
  then show ?case
    unfolding e using Cons.hyps(1) l Cons.prems by (subst unpacket_loop.simps) (simp add: get16_le16)
qed

text \<open>
  The login request. What the client builds with \<open>push_cmsg\<close> from fields that fit into the server's buffers
  is the type and the fields with their lengths; a server that has received these bytes, whatever
  follows them, gets the fields back.
\<close>

lemma login_request:
  assumes "u \<noteq> []" and "length u \<le> 129" and "p \<noteq> []" and "length p \<le> 129" and "length uid = 8"
    and "length (g max_cmsg_buf_size) = max_cmsg_buf_size"
  obtains m where "push_all g [u, p, uid] (create_cmsg g user_login_type) = Inr m"
    "content m = le16 user_login_type @ packed [u, p, uid]" "length (content m) = 16 + length u + length p"
    "\<And>rest n. length rest \<ge> 2 \<Longrightarrow> n \<ge> length (content m) \<Longrightarrow> server_process (content m @ rest) n = Inr (Some [u, p, uid])"
proof -
  let ?m0 = "create_cmsg g user_login_type" and ?f = "packed [u, p, uid]"
  have f: "length ?f = 6 + length u + length p + length uid" by (simp add: packed_def)
  have "cmsg_ok ?m0" "content ?m0 = le16 user_login_type" "msg_pos ?m0 = 2"
    using assms(6) by (simp_all add: create_cmsg_def cmsg_ok_def content_def mem_put_def)
  then obtain m where m: "push_all g [u, p, uid] ?m0 = Inr m" "content m = le16 user_login_type @ ?f"
    using push_all_fits [of ?m0 "[u, p, uid]" g] f assms(2,4,5) by auto
  have l: "length (content m) = 2 + length ?f" by (simp add: m(2))
  have "server_process (content m @ rest) n = Inr (Some [u, p, uid])" if rest: "length rest \<ge> 2" "n \<ge> length (content m)" for rest n
  proof -
    have "unpacket_loop (?f @ rest) 0 (n + 2) [129, 129, 8] = Inr [u, p, uid]"
      using assms(1-5) rest l by (intro unpack_fields) auto
    then show ?thesis by (simp add: m(2) server_process_def user_login_def unpacket_message_def get16_le16)
  qed
  with m l f assms(5) show thesis by (intro that [OF m]) auto
qed

text \<open>
  A push that needs no growing writes past the buffer exactly when the two bytes of the
  length do not fit: the test for room leaves them out. A field that fits with its length is
  appended and nothing before it changes.
\<close>

theorem push_bounds:
  assumes "cmsg_ok m" and "msg_pos m + length f \<le> max_cmsg_buf_size"
  shows "(push_cmsg g f m = Inl Overflow \<longleftrightarrow> msg_pos m + length f + 2 > max_cmsg_buf_size)
    \<and> (msg_pos m + length f + 2 \<le> max_cmsg_buf_size \<longrightarrow>
         (\<exists>m'. push_cmsg g f m = Inr m' \<and> cmsg_ok m' \<and> content m' = content m @ le16 (length f) @ f))"
  using push_overflow_iff [OF assms] push_fits [OF assms(1), of f g] by auto

theorem push_bounds_witness:
  "push_cmsg (\<lambda>n. []) (replicate 8190 CHR ''x'') (create_cmsg (\<lambda>n. replicate n CHR ''?'') 7) = Inl Overflow"
proof -
  have "cmsg_ok (create_cmsg (\<lambda>n. replicate n CHR ''?'') 7)" "msg_pos (create_cmsg (\<lambda>n. replicate n CHR ''?'') 7) = 2"
    by (simp_all add: create_cmsg_def cmsg_ok_def)
  then show ?thesis
    using push_bounds [of "create_cmsg (\<lambda>n. replicate n CHR ''?'') 7" "replicate 8190 CHR ''x''" "\<lambda>n. []"] by simp
qed

end
