(* ===== verification/Thread_Pool.thy ===== *)
theory Thread_Pool
  imports Prelude_C "HOL-Library.Multiset"
begin

text \<open>
  \<open>thread_pool/thread_pool.c\<close> (also copied under \<open>thconcurrent_frame\<close> and \<open>deviceagent\<close>): a queue
  of jobs, worker threads that wait on a condition variable, and the shutdown. A worker is a
  program counter; the lock is its owner. A step is what a thread does between two points at
  which others can come in: since \<open>thpool_destroy\<close> sets its flag without the lock, the test of
  the waiting loop and the wait itself are separate steps.
\<close>

section \<open>State\<close>

text \<open>
  The points of \<open>thread_routine\<close>: before the lock; at the test of the waiting loop (lock held);
  about to wait (lock held); waiting (lock released); woken and about to take the lock again; at
  the test of the shutdown flag (lock held); about to take a job (lock held); running a job; gone.
\<close>

datatype wpc = W_lock | W_test | W_wait | W_asleep | W_woken | W_flag | W_take | W_run nat | W_exit

text \<open>\<open>D_join i\<close> waits for thread \<open>i\<close>; \<open>D_free\<close> is after the last join, \<open>D_done\<close> after the frees.\<close>

datatype dpc = D_none | D_set | D_join nat | D_free | D_done

text \<open>\<open>sigs\<close> counts the signals that are still to be sent; \<open>added\<close>, \<open>started\<close> and \<open>finished\<close>
  are kept for the specification.\<close>

record thread_pool =
  queue :: "nat list"
  curr_queue_size :: nat
  is_shutdown :: bool
  lock :: "nat option"
  pc :: "nat \<Rightarrow> wpc"
  max_thread_num :: nat
  sigs :: nat
  destroyer :: dpc
  failed :: bool
  added :: "nat list"
  started :: "nat list"
  finished :: "nat list"

definition thpool_init :: "nat \<Rightarrow> thread_pool" where
  "thpool_init n = \<lparr>queue = [], curr_queue_size = 0, is_shutdown = False, lock = None, pc = (\<lambda>_. W_lock),
     max_thread_num = n, sigs = 0, destroyer = D_none, failed = False, added = [], started = [], finished = []\<rparr>"

section \<open>Adding\<close>

text \<open>The walk to the last node.\<close>

fun append_worker :: "nat list \<Rightarrow> nat \<Rightarrow> nat list" where
  "append_worker [] w = [w]"
| "append_worker (x # xs) w = x # append_worker xs w"

text \<open>The part of \<open>thpool_add_worker\<close> under the lock, then the signal; \<open>k\<close> is the thread the
  system wakes, if any waits.\<close>

definition add_worker :: "nat \<Rightarrow> thread_pool \<Rightarrow> thread_pool" where
  "add_worker w p = p\<lparr>queue := append_worker (queue p) w, curr_queue_size := curr_queue_size p + 1,
     sigs := sigs p + 1, added := added p @ [w]\<rparr>"

definition signal_ready :: "nat option \<Rightarrow> thread_pool \<Rightarrow> thread_pool" where
  "signal_ready k p = (let p1 = p\<lparr>sigs := sigs p - 1\<rparr>
     in case k of None \<Rightarrow> p1 | Some i \<Rightarrow> p1\<lparr>pc := (pc p1)(i := W_woken)\<rparr>)"

section \<open>Workers\<close>

definition goto :: "nat \<Rightarrow> wpc \<Rightarrow> thread_pool \<Rightarrow> thread_pool" where
  "goto i x p = p\<lparr>pc := (pc p)(i := x)\<rparr>"

definition acquire :: "nat \<Rightarrow> thread_pool \<Rightarrow> thread_pool option" where
  "acquire i p = (if lock p = None then Some (goto i W_test (p\<lparr>lock := Some i\<rparr>)) else None)"

text \<open>One step of worker \<open>i\<close>; \<open>None\<close> when it cannot go on by itself. \<open>failed\<close> is an assertion.\<close>

definition thread_routine :: "nat \<Rightarrow> thread_pool \<Rightarrow> thread_pool option" where
  "thread_routine i p = (case pc p i of
      W_lock \<Rightarrow> acquire i p
    | W_test \<Rightarrow> Some (if curr_queue_size p = 0 \<and> \<not> is_shutdown p then goto i W_wait p else goto i W_flag p)
    | W_wait \<Rightarrow> Some (goto i W_asleep (p\<lparr>lock := None\<rparr>))
    | W_asleep \<Rightarrow> None
    | W_woken \<Rightarrow> acquire i p
    | W_flag \<Rightarrow> Some (if is_shutdown p then goto i W_exit (p\<lparr>lock := None\<rparr>) else goto i W_take p)
    | W_take \<Rightarrow> Some (if curr_queue_size p = 0 then goto i W_lock (p\<lparr>lock := None\<rparr>)
        else case queue p of
               [] \<Rightarrow> p\<lparr>failed := True\<rparr>
             | w # ws \<Rightarrow> goto i (W_run w) (p\<lparr>curr_queue_size := curr_queue_size p - 1, queue := ws, lock := None,
                           started := started p @ [w]\<rparr>))
    | W_run w \<Rightarrow> Some (goto i W_lock (p\<lparr>finished := finished p @ [w]\<rparr>))
    | W_exit \<Rightarrow> None)"

section \<open>Shutdown\<close>

definition wake_all :: "(nat \<Rightarrow> wpc) \<Rightarrow> nat \<Rightarrow> wpc" where
  "wake_all f i = (if f i = W_asleep then W_woken else f i)"

text \<open>
  The steps of \<open>thpool_destroy\<close>: the flag, the broadcast, one join after the other, the frees.
  A second call returns -1 and does nothing.
\<close>

definition thpool_destroy :: "thread_pool \<Rightarrow> thread_pool option" where
  "thpool_destroy p = (case destroyer p of
      D_none \<Rightarrow> if is_shutdown p then None else Some (p\<lparr>is_shutdown := True, destroyer := D_set\<rparr>)
    | D_set \<Rightarrow> Some (p\<lparr>pc := wake_all (pc p), destroyer := (if max_thread_num p = 0 then D_free else D_join 0)\<rparr>)
    | D_join i \<Rightarrow> if pc p i = W_exit
                  then Some (p\<lparr>destroyer := (if Suc i < max_thread_num p then D_join (Suc i) else D_free)\<rparr>)
                  else None
    | D_free \<Rightarrow> Some (p\<lparr>queue := [], destroyer := D_done\<rparr>)
    | D_done \<Rightarrow> None)"

section \<open>Interleavings\<close>

text \<open>Waits may end without a signal, as POSIX allows (\<open>spurious\<close>).\<close>

inductive pool_step :: "thread_pool \<Rightarrow> thread_pool \<Rightarrow> bool" where
  add: "lock p = None \<Longrightarrow> destroyer p \<noteq> D_done \<Longrightarrow> pool_step p (add_worker w p)"
| signal: "sigs p > 0 \<Longrightarrow> i < max_thread_num p \<Longrightarrow> pc p i = W_asleep \<Longrightarrow> pool_step p (signal_ready (Some i) p)"
| signal_lost: "sigs p > 0 \<Longrightarrow> \<forall>i < max_thread_num p. pc p i \<noteq> W_asleep \<Longrightarrow> pool_step p (signal_ready None p)"
| spurious: "i < max_thread_num p \<Longrightarrow> pc p i = W_asleep \<Longrightarrow> pool_step p (goto i W_woken p)"
| worker: "i < max_thread_num p \<Longrightarrow> thread_routine i p = Some p' \<Longrightarrow> pool_step p p'"
| destroy: "thpool_destroy p = Some p' \<Longrightarrow> pool_step p p'"

inductive pool_reach :: "nat \<Rightarrow> thread_pool \<Rightarrow> bool" for n where
  start: "pool_reach n (thpool_init n)"
| step: "pool_reach n p \<Longrightarrow> pool_step p p' \<Longrightarrow> pool_reach n p'"

inductive_cases pool_step_cases: "pool_step p p'"

section \<open>The invariant\<close>

definition holds_lock :: "wpc \<Rightarrow> bool" where
  "holds_lock x \<longleftrightarrow> x \<in> {W_test, W_wait, W_flag, W_take}"

definition running :: "thread_pool \<Rightarrow> nat multiset" where
  "running p = (\<Sum>i \<in> {..<max_thread_num p}. case pc p i of W_run w \<Rightarrow> {#w#} | _ \<Rightarrow> {#})"

text \<open>How many threads the destroyer has joined.\<close>

definition joined :: "thread_pool \<Rightarrow> nat" where
  "joined p = (case destroyer p of D_join k \<Rightarrow> k | D_free \<Rightarrow> max_thread_num p | D_done \<Rightarrow> max_thread_num p | _ \<Rightarrow> 0)"

definition pool_ok :: "thread_pool \<Rightarrow> bool" where
  "pool_ok p \<longleftrightarrow> \<not> failed p
     \<and> (destroyer p \<noteq> D_done \<longrightarrow> added p = started p @ queue p \<and> curr_queue_size p = length (queue p))
     \<and> (\<forall>i < max_thread_num p. lock p = Some i \<longleftrightarrow> holds_lock (pc p i))
     \<and> (\<forall>i. lock p = Some i \<longrightarrow> i < max_thread_num p)
     \<and> (\<forall>i < max_thread_num p. pc p i = W_flag \<longrightarrow> curr_queue_size p > 0 \<or> is_shutdown p)
     \<and> (\<forall>i < max_thread_num p. pc p i = W_take \<longrightarrow> curr_queue_size p > 0)
     \<and> (is_shutdown p \<longleftrightarrow> destroyer p \<noteq> D_none)
     \<and> (\<forall>i < joined p. pc p i = W_exit) \<and> joined p \<le> max_thread_num p
     \<and> (\<forall>k. destroyer p = D_join k \<longrightarrow> k < max_thread_num p)
     \<and> mset (started p) = mset (finished p) + running p"

lemma append_worker_eq: "append_worker q w = q @ [w]"
  by (induction q) simp_all

lemma running_goto:
  assumes "i < max_thread_num p"
  shows "running (goto i x p) + (case pc p i of W_run w \<Rightarrow> {#w#} | _ \<Rightarrow> {#}) =
    running p + (case x of W_run w \<Rightarrow> {#w#} | _ \<Rightarrow> {#})"
proof -
  let ?f = "\<lambda>pc i. case pc i of W_run w \<Rightarrow> {#w#} | _ \<Rightarrow> ({#} :: nat multiset)"
  have "running (goto i x p) = (\<Sum>j \<in> {..<max_thread_num p} - {i}. ?f (pc p) j) + (case x of W_run w \<Rightarrow> {#w#} | _ \<Rightarrow> {#})"
    using assms by (simp add: running_def goto_def sum.remove [of _ i])
  moreover have "running p = (\<Sum>j \<in> {..<max_thread_num p} - {i}. ?f (pc p) j) + ?f (pc p) i"
    using assms by (simp add: running_def sum.remove [of _ i])
  ultimately show ?thesis by (simp add: ac_simps)
qed

lemma running_wake_all: "running (p\<lparr>pc := wake_all (pc p)\<rparr>) = running p"
  by (auto simp: running_def wake_all_def intro!: sum.cong)

end
