(* ===== verification/Thread_Pool_Props.thy ===== *)
theory Thread_Pool_Props
  imports Thread_Pool
begin

text \<open>
  What the pool of \<open>thread_pool.c\<close> keeps over all interleavings, and what the flag set without the
  lock costs.
\<close>

section \<open>Running jobs\<close>

abbreviation (input) idle :: "wpc \<Rightarrow> bool" where
  "idle x \<equiv> \<forall>w. x \<noteq> W_run w"

lemma running_cong: "pc p = pc q \<Longrightarrow> max_thread_num p = max_thread_num q \<Longrightarrow> running p = running q"
  by (simp add: running_def)

lemma running_idle:
  assumes "i < max_thread_num p" "idle (pc p i)" "idle x"
  shows "running (goto i x p) = running p"
  using running_goto [OF assms(1), of x] assms(2,3) by (cases "pc p i"; cases x) auto

lemma running_begin:
  assumes "i < max_thread_num p" "idle (pc p i)"
  shows "running (goto i (W_run w) p) = add_mset w (running p)"
  using running_goto [OF assms(1), of "W_run w"] assms(2) by (cases "pc p i") auto

lemma running_end:
  assumes "i < max_thread_num p" "pc p i = W_run w" "idle x"
  shows "running p = add_mset w (running (goto i x p))"
  using running_goto [OF assms(1), of x] assms(2,3) by (cases x) auto

section \<open>The invariant is kept\<close>

lemma goto_sel [simp]:
  "queue (goto i x p) = queue p" "curr_queue_size (goto i x p) = curr_queue_size p"
  "is_shutdown (goto i x p) = is_shutdown p" "lock (goto i x p) = lock p"
  "max_thread_num (goto i x p) = max_thread_num p" "sigs (goto i x p) = sigs p"
  "destroyer (goto i x p) = destroyer p" "failed (goto i x p) = failed p"
  "added (goto i x p) = added p" "started (goto i x p) = started p" "finished (goto i x p) = finished p"
  "pc (goto i x p) = (pc p)(i := x)"
  by (simp_all add: goto_def)

lemma holds_lock_simps [simp]:
  "holds_lock W_test" "holds_lock W_wait" "holds_lock W_flag" "holds_lock W_take"
  "\<not> holds_lock W_lock" "\<not> holds_lock W_asleep" "\<not> holds_lock W_woken" "\<not> holds_lock (W_run w)" "\<not> holds_lock W_exit"
  by (simp_all add: holds_lock_def)

lemma joined_cong: "destroyer p = destroyer q \<Longrightarrow> max_thread_num p = max_thread_num q \<Longrightarrow> joined p = joined q"
  by (simp add: joined_def split: dpc.split)

lemma joined_upd [simp]:
  "joined (goto i x p) = joined p" "joined (p\<lparr>pc := f\<rparr>) = joined p" "joined (p\<lparr>lock := l\<rparr>) = joined p"
  "joined (p\<lparr>sigs := k\<rparr>) = joined p" "joined (p\<lparr>finished := a\<rparr>) = joined p"
  "joined (p\<lparr>queue := q, curr_queue_size := c, sigs := k, added := a\<rparr>) = joined p"
  "joined (p\<lparr>curr_queue_size := c, queue := q, lock := l, started := a\<rparr>) = joined p"
  by (rule joined_cong; simp)+

lemma ok_init: "pool_ok (thpool_init n)"
  by (simp add: pool_ok_def thpool_init_def running_def joined_def)

lemma ok_add:
  assumes "pool_ok p" "lock p = None" "destroyer p \<noteq> D_done"
  shows "pool_ok (add_worker w p)"
proof -
  have "running (add_worker w p) = running p" by (rule running_cong) (simp_all add: add_worker_def)
  with assms show ?thesis by (auto simp: pool_ok_def add_worker_def append_worker_eq)
qed

lemma ok_sigs: "pool_ok (p\<lparr>sigs := k\<rparr>) = pool_ok p"
  using running_cong [of "p\<lparr>sigs := k\<rparr>" p] by (simp add: pool_ok_def)

text \<open>Moving a worker that runs no job, with the lock that goes with its new point.\<close>

definition lock_after :: "nat \<Rightarrow> wpc \<Rightarrow> thread_pool \<Rightarrow> nat option" where
  "lock_after i x p = (if holds_lock x then Some i else if holds_lock (pc p i) then None else lock p)"

lemma ok_move:
  assumes ok: "pool_ok p" and i: "i < max_thread_num p"
    and "idle (pc p i)" "pc p i \<noteq> W_exit" "idle x"
    and free: "holds_lock x \<Longrightarrow> \<not> holds_lock (pc p i) \<Longrightarrow> lock p = None"
    and "x = W_flag \<Longrightarrow> curr_queue_size p > 0 \<or> is_shutdown p"
    and "x = W_take \<Longrightarrow> curr_queue_size p > 0"
  shows "pool_ok (goto i x (p\<lparr>lock := lock_after i x p\<rparr>))" (is "pool_ok ?q")
proof -
  have r: "running ?q = running p"
    using assms running_idle [of i "p\<lparr>lock := lock_after i x p\<rparr>" x] running_cong [of "p\<lparr>lock := lock_after i x p\<rparr>" p]
    by simp
  have own: "lock p = Some j \<longleftrightarrow> holds_lock (pc p j)" if "j < max_thread_num p" for j
    using ok that by (simp add: pool_ok_def)
  have "lock_after i x p = Some j \<longleftrightarrow> holds_lock (((pc p)(i := x)) j)" if "j < max_thread_num p" for j
    using own [OF that] own [OF i] free by (cases "j = i") (auto simp: lock_after_def)
  moreover have "k < max_thread_num p" if "lock_after i x p = Some k" for k
    using ok i that by (auto simp: lock_after_def pool_ok_def split: if_splits)
  moreover have "pc ?q j = W_exit" if "j < joined p" for j
    using ok assms(4) that by (auto simp: pool_ok_def)
  moreover have "curr_queue_size p > 0 \<or> is_shutdown p" if "j < max_thread_num p" "pc ?q j = W_flag" for j
    using ok assms(7) that by (auto simp: pool_ok_def split: if_splits)
  moreover have "curr_queue_size p > 0" if "j < max_thread_num p" "pc ?q j = W_take" for j
    using ok assms(8) that by (auto simp: pool_ok_def split: if_splits)
  moreover have "mset (started ?q) = mset (finished ?q) + running ?q"
    using ok r by (simp add: pool_ok_def)
  moreover have "\<not> failed p" "destroyer p \<noteq> D_done \<longrightarrow> added p = started p @ queue p \<and> curr_queue_size p = length (queue p)"
    "is_shutdown p \<longleftrightarrow> destroyer p \<noteq> D_none" "joined p \<le> max_thread_num p" "\<forall>k. destroyer p = D_join k \<longrightarrow> k < max_thread_num p"
    using ok unfolding pool_ok_def by blast+
  ultimately show ?thesis
    unfolding pool_ok_def by simp
qed

lemma ok_move_eq:
  assumes "pool_ok p" "i < max_thread_num p" "idle (pc p i)" "pc p i \<noteq> W_exit" "idle x"
    and "holds_lock x \<Longrightarrow> \<not> holds_lock (pc p i) \<Longrightarrow> lock p = None"
    and "x = W_flag \<Longrightarrow> curr_queue_size p > 0 \<or> is_shutdown p"
    and "x = W_take \<Longrightarrow> curr_queue_size p > 0"
    and "q = goto i x (p\<lparr>lock := lock_after i x p\<rparr>)"
  shows "pool_ok q"
  using ok_move [OF assms(1-8)] assms(9) by simp

lemma ok_woken:
  assumes "pool_ok p" "i < max_thread_num p" "pc p i = W_asleep"
  shows "pool_ok (goto i W_woken p)"
  using assms by - (rule ok_move_eq [of p i W_woken]; (auto simp: lock_after_def)?)

lemma ok_acquire:
  assumes "pool_ok p" "i < max_thread_num p" "pc p i = W_lock \<or> pc p i = W_woken" "acquire i p = Some p'"
  shows "pool_ok p'"
  using assms by - (rule ok_move_eq [of p i W_test]; (auto simp: lock_after_def acquire_def split: if_splits)?)

lemma ok_worker:
  assumes ok: "pool_ok p" and i: "i < max_thread_num p" and st: "thread_routine i p = Some p'"
  shows "pool_ok p'"
proof (cases "pc p i")
  case W_lock
  with ok i st show ?thesis by - (rule ok_acquire [of p i]; (simp_all add: thread_routine_def)?)
next
  case W_woken
  with ok i st show ?thesis by - (rule ok_acquire [of p i]; (simp_all add: thread_routine_def)?)
next
  case W_test
  have l: "lock p = Some i" using ok i W_test by (simp add: pool_ok_def)
  then have e: "p\<lparr>lock := Some i\<rparr> = p" by simp
  show ?thesis
    using ok i W_test st
    by - (rule ok_move_eq [of p i "if curr_queue_size p = 0 \<and> \<not> is_shutdown p then W_wait else W_flag"]; (auto simp: thread_routine_def lock_after_def e split: if_splits)?)
next
  case W_wait
  with ok i st show ?thesis
    by - (rule ok_move_eq [of p i W_asleep]; (auto simp: thread_routine_def lock_after_def)?)
next
  case W_flag
  have l: "lock p = Some i" using ok i W_flag by (simp add: pool_ok_def)
  then have e: "p\<lparr>lock := Some i\<rparr> = p" by simp
  have "is_shutdown p \<or> curr_queue_size p > 0" using ok i W_flag by (auto simp: pool_ok_def)
  with ok i W_flag st show ?thesis
    by - (rule ok_move_eq [of p i "if is_shutdown p then W_exit else W_take"]; (auto simp: thread_routine_def lock_after_def e split: if_splits)?)
next
  case (W_run w)
  let ?q = "p\<lparr>finished := finished p @ [w]\<rparr>"
  have r: "running p = add_mset w (running (goto i W_lock ?q))"
    using i W_run running_end [of i ?q w W_lock] running_cong [of ?q p] by simp
  have p': "p' = goto i W_lock ?q" using st W_run by (simp add: thread_routine_def)
  have "lock p \<noteq> Some i" "\<not> i < joined p" using ok i W_run by (auto simp: pool_ok_def)
  with ok i W_run r show ?thesis unfolding pool_ok_def p' by auto
next
  case W_take
  from ok i W_take have pos: "curr_queue_size p > 0" by (auto simp: pool_ok_def)
  from ok i W_take have nd: "destroyer p \<noteq> D_done" by (auto simp: pool_ok_def joined_def)
  with ok pos obtain w ws where q: "queue p = w # ws" by (cases "queue p") (auto simp: pool_ok_def)
  let ?q = "p\<lparr>curr_queue_size := curr_queue_size p - 1, queue := ws, lock := None, started := started p @ [w]\<rparr>"
  have p': "p' = goto i (W_run w) ?q" using st W_take pos q by (simp add: thread_routine_def)
  have "running p' = add_mset w (running p)"
    using i W_take running_begin [of i ?q w] running_cong [of ?q p] p' by simp
  have own: "lock p = Some i" "\<not> i < joined p" using ok i W_take by (auto simp: pool_ok_def)
  then have "\<not> holds_lock (pc p j)" if "j < max_thread_num p" "j \<noteq> i" for j
    using ok that by (auto simp: pool_ok_def)
  moreover have "pc p j \<noteq> W_flag" "pc p j \<noteq> W_take" if "j < max_thread_num p" "j \<noteq> i" for j
    using calculation [OF that] by auto
  moreover have "mset (started p') = mset (finished p') + running p'"
    using ok \<open>running p' = add_mset w (running p)\<close> by (simp add: p' pool_ok_def)
  ultimately show ?thesis using ok own q nd unfolding pool_ok_def p' by auto
qed (use st in \<open>simp_all add: thread_routine_def\<close>)

lemma holds_wake_all [simp]: "holds_lock (wake_all f i) = holds_lock (f i)"
  by (simp add: wake_all_def)

lemma wake_all_eq [simp]:
  "wake_all f i = W_flag \<longleftrightarrow> f i = W_flag" "wake_all f i = W_take \<longleftrightarrow> f i = W_take" "wake_all f i = W_exit \<longleftrightarrow> f i = W_exit"
  by (auto simp: wake_all_def)

lemma ok_destroy:
  assumes ok: "pool_ok p" and st: "thpool_destroy p = Some p'"
  shows "pool_ok p'"
proof -
  have r: "running p' = running p"
    using st running_wake_all [of p]
    by (cases "destroyer p") (auto simp: thpool_destroy_def running_def split: if_splits)
  show ?thesis
  proof (cases "destroyer p")
    case D_none
    with ok st r show ?thesis by (auto simp: pool_ok_def thpool_destroy_def joined_def split: if_splits)
  next
    case D_set
    with ok st r show ?thesis by (simp add: pool_ok_def thpool_destroy_def joined_def split: if_splits) auto
  next
    case (D_join k)
    then have e: "pc p k = W_exit" "p' = p\<lparr>destroyer := (if Suc k < max_thread_num p then D_join (Suc k) else D_free)\<rparr>"
      using st by (auto simp: thpool_destroy_def split: if_splits)
    have "k < max_thread_num p" and g: "\<forall>i < k. pc p i = W_exit"
      using ok D_join by (auto simp: pool_ok_def joined_def)
    then have j: "joined p' = Suc k" using e(2) by (auto simp: joined_def)
    have "\<forall>i < joined p'. pc p' i = W_exit" using g e j by (auto simp: less_Suc_eq)
    with ok D_join e(2) r j \<open>k < max_thread_num p\<close> show ?thesis
      unfolding pool_ok_def by (cases "Suc k < max_thread_num p") auto
  next
    case D_free
    with ok st r show ?thesis by (auto simp: pool_ok_def thpool_destroy_def joined_def)
  next
    case D_done
    with st show ?thesis by (simp add: thpool_destroy_def)
  qed
qed

lemma ok_step:
  assumes "pool_step p p'" "pool_ok p" shows "pool_ok p'"
  using assms
proof cases
  case (signal i)
  then show ?thesis using assms(2) ok_woken [of "p\<lparr>sigs := sigs p - 1\<rparr>" i]
    by (simp add: ok_sigs signal_ready_def goto_def)
qed (auto simp: ok_add ok_woken ok_sigs signal_ready_def intro: ok_worker ok_destroy)

lemma ok_reach: "pool_reach n p \<Longrightarrow> pool_ok p \<and> max_thread_num p = n"
proof (induction rule: pool_reach.induct)
  case start
  show ?case using ok_init [of n] by (simp add: thpool_init_def)
next
  case (step p p')
  from step.hyps(2) have "max_thread_num p' = max_thread_num p"
    by cases (auto simp: add_worker_def signal_ready_def thread_routine_def acquire_def thpool_destroy_def Let_def
        split: wpc.splits if_splits dpc.splits list.splits)
  with step show ?case using ok_step by blast
qed

section \<open>What is reached\<close>

text \<open>A worker going on by itself for \<open>k\<close> steps.\<close>

fun work_on :: "nat \<Rightarrow> nat \<Rightarrow> thread_pool \<Rightarrow> thread_pool option" where
  "work_on i 0 p = Some p"
| "work_on i (Suc k) p = (case thread_routine i p of None \<Rightarrow> None | Some q \<Rightarrow> work_on i k q)"

lemma reach_work_on:
  "pool_reach n p \<Longrightarrow> i < n \<Longrightarrow> work_on i k p = Some q \<Longrightarrow> pool_reach n q"
proof (induction k arbitrary: p)
  case (Suc k)
  then obtain r where r: "thread_routine i p = Some r" "work_on i k r = Some q"
    by (auto split: option.splits)
  have "pool_reach n r"
    using ok_reach [OF Suc.prems(1)] Suc.prems(2) r(1)
    by - (rule pool_reach.step [OF Suc.prems(1) pool_step.worker [of i]]; simp)
  with Suc.IH [of r] Suc.prems(2) r(2) show ?case by simp
qed simp

lemma reach_destroy: "pool_reach n p \<Longrightarrow> thpool_destroy p = Some q \<Longrightarrow> pool_reach n q"
  by (rule pool_reach.step [OF _ pool_step.destroy])

lemma reach_add: "pool_reach n p \<Longrightarrow> lock p = None \<Longrightarrow> destroyer p \<noteq> D_done \<Longrightarrow> pool_reach n (add_worker w p)"
  by (rule pool_reach.step [OF _ pool_step.add])

text \<open>
  C8. Over all interleavings of adding threads, workers, signals (lost ones and wakeups without
  one included) and the shutdown: no assertion of the pool fails; at most one worker is between
  taking and releasing the lock; until the nodes are freed the jobs that were added are those
  taken so far, in the order they were added, followed by the queue, whose length is
  \<open>curr_queue_size\<close>; every job taken is run by exactly one worker, so that those taken are the
  finished ones and the running ones; and when \<open>thpool_destroy\<close> is past its joins every worker
  has exited.
\<close>

theorem pool_fifo:
  assumes "pool_reach n p"
  shows "\<not> failed p
    \<and> (\<forall>i < n. \<forall>j < n. holds_lock (pc p i) \<and> holds_lock (pc p j) \<longrightarrow> i = j)
    \<and> (destroyer p \<noteq> D_done \<longrightarrow> added p = started p @ queue p \<and> curr_queue_size p = length (queue p))
    \<and> mset (started p) = mset (finished p) + running p
    \<and> (destroyer p = D_free \<or> destroyer p = D_done \<longrightarrow> (\<forall>i < n. pc p i = W_exit))"
proof -
  from ok_reach [OF assms] have ok: "pool_ok p" and n: "max_thread_num p = n" by auto
  have "i = j" if "i < n" "j < n" "holds_lock (pc p i)" "holds_lock (pc p j)" for i j
  proof -
    have "lock p = Some i" "lock p = Some j" using ok n that by (auto simp: pool_ok_def)
    then show ?thesis by simp
  qed
  moreover have "\<forall>i < n. pc p i = W_exit" if "destroyer p = D_free \<or> destroyer p = D_done"
    using ok n that by (auto simp: pool_ok_def joined_def)
  ultimately show ?thesis using ok unfolding pool_ok_def by blast
qed

definition demo_pool :: thread_pool where
  "demo_pool = the (work_on 0 4 (add_worker 8 (add_worker 7 (thpool_init 2))))"

lemmas pool_run_simps = thread_routine_def acquire_def goto_def add_worker_def thpool_init_def thpool_destroy_def
  wake_all_def append_worker_eq eval_nat_numeral

lemma demo_pool_eq: "work_on 0 4 (add_worker 8 (add_worker 7 (thpool_init 2))) = Some demo_pool"
  by (simp add: demo_pool_def pool_run_simps)

text \<open>Two jobs added, the first running: the second is still queued.\<close>

lemma pool_fifo_witness:
  "pc demo_pool 0 = W_run 7 \<and> queue demo_pool = [8] \<and> started demo_pool = [7] \<and> running demo_pool = {#7#}"
proof -
  have "pool_reach 2 (add_worker 8 (add_worker 7 (thpool_init 2)))"
    by (intro reach_add pool_reach.start) (simp_all add: add_worker_def thpool_init_def)
  then have "pool_reach 2 demo_pool" by (rule reach_work_on [OF _ _ demo_pool_eq]) simp
  from pool_fifo [OF this] show ?thesis by (simp add: demo_pool_def pool_run_simps)
qed

text \<open>
  A shutdown that is lost: \<open>thpool_destroy\<close> sets its flag and broadcasts without the lock, so
  both can fall between a worker's test of the flag and its wait. With one worker a state is
  reached in which the flag is set and no signal is pending, yet the worker sleeps and
  \<open>thpool_destroy\<close> waits for it: nothing goes on except another job being added and a wakeup
  without a signal.
\<close>

theorem pool_lost_shutdown:
  "\<exists>p. pool_reach 1 p \<and> is_shutdown p \<and> sigs p = 0 \<and> pc p 0 = W_asleep \<and> destroyer p = D_join 0
     \<and> {p'. pool_step p p'} = insert (goto 0 W_woken p) (range (\<lambda>w. add_worker w p))"
proof -
  define a where "a = the (work_on 0 2 (thpool_init 1))"
  define b where "b = the (thpool_destroy a)"
  define c where "c = the (thpool_destroy b)"
  define d where "d = the (work_on 0 1 c)"
  note defs = d_def c_def b_def a_def pool_run_simps
  have "work_on 0 2 (thpool_init 1) = Some a" by (simp add: defs)
  from reach_work_on [OF pool_reach.start _ this] have "pool_reach 1 a" by simp
  moreover have "thpool_destroy a = Some b" by (simp add: defs)
  ultimately have "pool_reach 1 b" by (rule reach_destroy)
  moreover have "thpool_destroy b = Some c" by (simp add: defs)
  ultimately have "pool_reach 1 c" by (rule reach_destroy)
  then have r: "pool_reach 1 d" by (rule reach_work_on [of _ _ 0 1]) (simp_all add: defs)
  have s: "is_shutdown d" "sigs d = 0" "pc d 0 = W_asleep" "destroyer d = D_join 0" "lock d = None" "max_thread_num d = 1"
    by (simp_all add: defs)
  have "pool_step d q \<longleftrightarrow> q = goto 0 W_woken d \<or> (\<exists>w. q = add_worker w d)" for q
  proof
    assume "pool_step d q"
    then show "q = goto 0 W_woken d \<or> (\<exists>w. q = add_worker w d)"
      by cases (use s in \<open>auto simp: thread_routine_def thpool_destroy_def\<close>)
  qed (use s in \<open>auto intro: pool_step.add pool_step.spurious\<close>)
  then show ?thesis using r s by (intro exI [of _ d]) auto
qed

end
