(* ===== verification/Job_Queue.thy ===== *)
theory Job_Queue
  imports Links
begin

text \<open>
  \<open>thconcurrent_frame/src/thread_pool_test_unstable/thread.c\<close>: another thread pool. Its jobs
  form a doubly linked list in the heap, added at the head and taken from the tail, and a
  semaphore counts them. First the list, whose operations are the same pointer assignments as in
  the source; then the pool, whose threads are program counters.
\<close>

section \<open>The queue\<close>

text \<open>
  A job is its address: \<open>j_func\<close> is its function with the argument, \<open>None\<close> when nothing is
  allocated there.
\<close>

record job_queue =
  j_next :: "nat \<Rightarrow> nat option"
  j_prev :: "nat \<Rightarrow> nat option"
  j_func :: "nat \<Rightarrow> nat option"
  j_head :: "nat option"
  j_tail :: "nat option"
  jobN :: nat

definition jobqueue_init :: job_queue where
  "jobqueue_init = \<lparr>j_next = (\<lambda>_. None), j_prev = (\<lambda>_. None), j_func = (\<lambda>_. None), j_head = None,
     j_tail = None, jobN = 0\<rparr>"

definition jobqueue_peek :: "job_queue \<Rightarrow> nat option" where
  "jobqueue_peek q = j_tail q"

definition jobqueue_removelast :: "job_queue \<Rightarrow> fault + int \<times> job_queue" where
  "jobqueue_removelast q =
     (let theLastJob = j_tail q in
      if jobN q = 0 then Inr (-1, q)
      else if jobN q = 1 then Inr (0, q\<lparr>j_head := None, j_tail := None, jobN := jobN q - 1\<rparr>)
      else case theLastJob of
             None \<Rightarrow> Inl Null_Deref
           | Some t \<Rightarrow> (case j_prev q t of
               None \<Rightarrow> Inl Null_Deref
             | Some p \<Rightarrow> Inr (0, q\<lparr>j_next := (j_next q)(p := None), j_tail := j_prev q t, jobN := jobN q - 1\<rparr>)))"

text \<open>\<open>a\<close> is the new job, which \<open>thpool_add_work\<close> has filled with \<open>f\<close>.\<close>

definition jobqueue_add :: "nat \<Rightarrow> job_queue \<Rightarrow> fault + job_queue" where
  "jobqueue_add a q =
     (let q1 = q\<lparr>j_next := (j_next q)(a := None), j_prev := (j_prev q)(a := None)\<rparr>;
          oldFirstJob = j_head q1
      in if jobN q1 = 0 then Inr (q1\<lparr>j_head := Some a, j_tail := Some a, jobN := jobN q1 + 1\<rparr>)
         else case oldFirstJob of
                None \<Rightarrow> Inl Null_Deref
              | Some h \<Rightarrow> Inr (q1\<lparr>j_prev := (j_prev q1)(h := Some a), j_next := (j_next q1)(a := Some h),
                                j_head := Some a, jobN := jobN q1 + 1\<rparr>))"

definition new_job :: "nat \<Rightarrow> nat \<Rightarrow> job_queue \<Rightarrow> job_queue" where
  "new_job a f q = q\<lparr>j_func := (j_func q)(a := Some f)\<rparr>"

definition free_job :: "nat \<Rightarrow> job_queue \<Rightarrow> job_queue" where
  "free_job a q = q\<lparr>j_func := (j_func q)(a := None)\<rparr>"

text \<open>The loop of \<open>thpool_jobqueue_empty\<close>: \<open>n\<close> is \<open>jobN\<close>, \<open>cur\<close> is \<open>curjob\<close>.\<close>

fun empty_jobs :: "nat \<Rightarrow> nat option \<Rightarrow> job_queue \<Rightarrow> fault + job_queue" where
  "empty_jobs 0 cur q = Inr q"
| "empty_jobs (Suc n) cur q = (case cur of
      None \<Rightarrow> Inl Null_Deref
    | Some c \<Rightarrow> let q1 = free_job c (q\<lparr>j_tail := j_prev q c\<rparr>)
                in empty_jobs n (j_tail q1) (q1\<lparr>jobN := jobN q1 - 1\<rparr>))"

definition jobqueue_empty :: "job_queue \<Rightarrow> fault + job_queue" where
  "jobqueue_empty q = bindE (empty_jobs (jobN q) (j_tail q) q) (\<lambda>q1. Inr (q1\<lparr>j_head := None, j_tail := None\<rparr>))"

section \<open>The queue as a list\<close>

text \<open>\<open>xs\<close> are the jobs from the newest to the oldest.\<close>

definition jq_ok :: "job_queue \<Rightarrow> nat list \<Rightarrow> bool" where
  "jq_ok q xs \<longleftrightarrow> nexts (j_next q) (j_head q) xs \<and> prevs (j_prev q) None xs \<and> distinct xs
     \<and> j_tail q = (if xs = [] then None else Some (last xs)) \<and> jobN q = length xs
     \<and> (\<forall>x \<in> set xs. j_func q x \<noteq> None)"

lemma jq_init: "jq_ok jobqueue_init []"
  by (simp add: jq_ok_def jobqueue_init_def)

lemma jq_peek: "jq_ok q xs \<Longrightarrow> jobqueue_peek q = (if xs = [] then None else Some (last xs))"
  by (simp add: jobqueue_peek_def jq_ok_def)

lemma jq_add:
  assumes ok: "jq_ok q xs" and a: "a \<notin> set xs" "j_func q a \<noteq> None"
  shows "\<exists>q'. jobqueue_add a q = Inr q' \<and> jq_ok q' (a # xs) \<and> j_func q' = j_func q"
proof (cases xs)
  case Nil
  with ok a show ?thesis by (simp add: jobqueue_add_def jq_ok_def Let_def)
next
  case (Cons h ys)
  with ok a show ?thesis by (auto simp: jobqueue_add_def jq_ok_def Let_def)
qed

lemma jq_remove_empty: "jq_ok q [] \<Longrightarrow> jobqueue_removelast q = Inr (-1, q)"
  by (simp add: jobqueue_removelast_def jq_ok_def)

lemma jq_remove:
  assumes ok: "jq_ok q (xs @ [y])"
  shows "\<exists>q'. jobqueue_removelast q = Inr (0, q') \<and> jq_ok q' xs \<and> j_func q' = j_func q"
proof (cases "xs = []")
  case True
  with ok show ?thesis by (simp add: jobqueue_removelast_def jq_ok_def)
next
  case False
  have "j_prev q y = Some (last xs)" using ok False prevs_last [of "j_prev q" None xs y] by (simp add: jq_ok_def)
  moreover have "nexts ((j_next q)(last xs := None)) (j_head q) xs"
    using ok False by (intro nexts_butlast [of _ _ _ y]) (auto simp: jq_ok_def)
  ultimately show ?thesis
    using ok False by (simp add: jobqueue_removelast_def jq_ok_def prevs_append)
qed

lemma jq_new: "jq_ok q xs \<Longrightarrow> jq_ok (new_job a f q) xs"
  by (auto simp: jq_ok_def new_job_def)

lemma jq_free: "jq_ok q xs \<Longrightarrow> a \<notin> set xs \<Longrightarrow> jq_ok (free_job a q) xs"
  by (auto simp: jq_ok_def free_job_def)

text \<open>What emptying needs of the queue: the way back from the tail.\<close>

lemma empty_jobs_frees:
  "prevs (j_prev q) None xs \<Longrightarrow> cur = (if xs = [] then None else Some (last xs)) \<Longrightarrow> jobN q = length xs \<Longrightarrow>
     \<exists>q'. empty_jobs (length xs) cur q = Inr q' \<and> jobN q' = 0
       \<and> j_func q' = (\<lambda>a. if a \<in> set xs then None else j_func q a)"
proof (induction xs arbitrary: cur q rule: rev_induct)
  case Nil
  then show ?case by simp
next
  case (snoc y xs)
  let ?q = "free_job y (q\<lparr>j_tail := j_prev q y\<rparr>)"
  have 1: "prevs (j_prev (?q\<lparr>jobN := jobN ?q - 1\<rparr>)) None xs"
    using snoc.prems(1) by (simp add: free_job_def prevs_append)
  have 2: "j_tail ?q = (if xs = [] then None else Some (last xs))"
    using snoc.prems(1) by (auto simp: free_job_def prevs_append)
  have 3: "jobN (?q\<lparr>jobN := jobN ?q - 1\<rparr>) = length xs"
    using snoc.prems(3) by (simp add: free_job_def)
  from snoc.IH [OF 1 2 3] obtain q' where
    "empty_jobs (length xs) (j_tail ?q) (?q\<lparr>jobN := jobN ?q - 1\<rparr>) = Inr q'" "jobN q' = 0"
    "j_func q' = (\<lambda>a. if a \<in> set xs then None else j_func (?q\<lparr>jobN := jobN ?q - 1\<rparr>) a)" by auto
  then show ?case
    using snoc.prems(2) by (auto simp: Let_def free_job_def fun_eq_iff)
qed

lemma jq_empty:
  assumes ok: "jq_ok q xs"
  shows "\<exists>q'. jobqueue_empty q = Inr q' \<and> jobN q' = 0 \<and> j_head q' = None \<and> j_tail q' = None
    \<and> j_func q' = (\<lambda>a. if a \<in> set xs then None else j_func q a)"
  using empty_jobs_frees [of q xs "j_tail q"] ok by (auto simp: jq_ok_def jobqueue_empty_def)

end
