(* ===== verification/Job_Pool.thy ===== *)
theory Job_Pool
  imports Job_Queue
begin

text \<open>
  The pool of \<open>thread_pool_test_unstable/thread.c\<close> over \<open>Job_Queue\<close>: the semaphore that starts at
  1, the workers, and the shutdown. A step is what a thread does between two calls that block or
  write shared state; the first fault ends the process.
\<close>

section \<open>State\<close>

text \<open>
  The points of \<open>thpool_thread_do\<close>: the test of the loop, \<open>sem_wait\<close>, the second test, the lock,
  the section under the lock, running a job, returned.
\<close>

datatype jpc = J_top | J_sem | J_check | J_lock | J_section | J_run nat | J_exit

text \<open>The points of \<open>thpool_destroy\<close>: posting (\<open>k\<close> posts to go), joining, emptying, done.\<close>

datatype jdpc = K_none | K_post nat | K_join nat | K_empty | K_done

text \<open>\<open>tp_added\<close> and \<open>tp_taken\<close>, the functions of the jobs in order, are kept for the
  specification.\<close>

record tpool =
  jobqueue :: job_queue
  queueSem :: nat
  tp_mutex :: "nat option"
  thpool_keepalive :: bool
  tp_pc :: "nat \<Rightarrow> jpc"
  threadsN :: nat
  tp_destroyer :: jdpc
  tp_added :: "nat list"
  tp_taken :: "nat list"

definition tp_init :: "int \<Rightarrow> tpool" where
  "tp_init n = \<lparr>jobqueue = jobqueue_init, queueSem = 1, tp_mutex = None, thpool_keepalive = True,
     tp_pc = (\<lambda>_. J_top), threadsN = nat (if n < 1 then 1 else n), tp_destroyer = K_none, tp_added = [], tp_taken = []\<rparr>"

definition jgoto :: "nat \<Rightarrow> jpc \<Rightarrow> tpool \<Rightarrow> tpool" where
  "jgoto i x p = p\<lparr>tp_pc := (tp_pc p)(i := x)\<rparr>"

section \<open>Operations\<close>

text \<open>\<open>a\<close> is the address that \<open>malloc\<close> returns. Between the lock and the unlock.\<close>

definition tp_add_work :: "nat \<Rightarrow> nat \<Rightarrow> tpool \<Rightarrow> fault + tpool" where
  "tp_add_work a f p = bindE (jobqueue_add a (new_job a f (jobqueue p))) (\<lambda>q.
     Inr (p\<lparr>jobqueue := q, queueSem := queueSem p + 1, tp_added := tp_added p @ [f]\<rparr>))"

text \<open>
  The section under the lock. \<open>job_p->function\<close> is read before it is known that there is a job;
  when \<open>removelast\<close> fails the thread returns with the lock held.
\<close>

definition take_job :: "nat \<Rightarrow> tpool \<Rightarrow> fault + tpool" where
  "take_job i p = (case jobqueue_peek (jobqueue p) of
      None \<Rightarrow> Inl Null_Deref
    | Some a \<Rightarrow> (case j_func (jobqueue p) a of
        None \<Rightarrow> Inl Bad_Index
      | Some f \<Rightarrow> bindE (jobqueue_removelast (jobqueue p)) (\<lambda>(ret, q).
          let p1 = p\<lparr>jobqueue := q\<rparr> in
          if ret \<noteq> 0 then Inr (jgoto i J_exit p1)
          else Inr (jgoto i (J_run a) (p1\<lparr>tp_mutex := None, tp_taken := tp_taken p1 @ [f]\<rparr>)))))"

text \<open>One step of a worker; \<open>None\<close> when it blocks or has returned.\<close>

definition tp_thread_do :: "nat \<Rightarrow> tpool \<Rightarrow> (fault + tpool) option" where
  "tp_thread_do i p = (case tp_pc p i of
      J_top \<Rightarrow> Some (Inr (jgoto i (if thpool_keepalive p then J_sem else J_exit) p))
    | J_sem \<Rightarrow> if queueSem p > 0 then Some (Inr (jgoto i J_check (p\<lparr>queueSem := queueSem p - 1\<rparr>))) else None
    | J_check \<Rightarrow> Some (Inr (jgoto i (if thpool_keepalive p then J_lock else J_exit) p))
    | J_lock \<Rightarrow> if tp_mutex p = None then Some (Inr (jgoto i J_section (p\<lparr>tp_mutex := Some i\<rparr>))) else None
    | J_section \<Rightarrow> Some (take_job i p)
    | J_run a \<Rightarrow> Some (Inr (jgoto i J_top (p\<lparr>jobqueue := free_job a (jobqueue p)\<rparr>)))
    | J_exit \<Rightarrow> None)"

definition tp_destroy :: "tpool \<Rightarrow> (fault + tpool) option" where
  "tp_destroy p = (case tp_destroyer p of
      K_none \<Rightarrow> Some (Inr (p\<lparr>thpool_keepalive := False, tp_destroyer := K_post (threadsN p + 1)\<rparr>))
    | K_post 0 \<Rightarrow> Some (Inr (p\<lparr>tp_destroyer := K_join 0\<rparr>))
    | K_post (Suc k) \<Rightarrow> Some (Inr (p\<lparr>queueSem := queueSem p + 1, tp_destroyer := K_post k\<rparr>))
    | K_join i \<Rightarrow> if i < threadsN p
                  then if tp_pc p i = J_exit then Some (Inr (p\<lparr>tp_destroyer := K_join (Suc i)\<rparr>)) else None
                  else Some (Inr (p\<lparr>tp_destroyer := K_empty\<rparr>))
    | K_empty \<Rightarrow> Some (bindE (jobqueue_empty (jobqueue p)) (\<lambda>q. Inr (p\<lparr>jobqueue := q, tp_destroyer := K_done\<rparr>)))
    | K_done \<Rightarrow> None)"

section \<open>Interleavings\<close>

text \<open>Work is added by the thread that owns the pool, so before it destroys it.\<close>

inductive tp_step :: "tpool \<Rightarrow> fault + tpool \<Rightarrow> bool" where
  add: "tp_mutex p = None \<Longrightarrow> tp_destroyer p = K_none \<Longrightarrow> j_func (jobqueue p) a = None \<Longrightarrow> tp_step p (tp_add_work a f p)"
| worker: "i < threadsN p \<Longrightarrow> tp_thread_do i p = Some r \<Longrightarrow> tp_step p r"
| destroy: "tp_destroy p = Some r \<Longrightarrow> tp_step p r"

inductive tp_reach :: "int \<Rightarrow> tpool \<Rightarrow> bool" for n where
  start: "tp_reach n (tp_init n)"
| step: "tp_reach n p \<Longrightarrow> tp_step p (Inr p') \<Longrightarrow> tp_reach n p'"

section \<open>The invariant\<close>

text \<open>Past the semaphore and not yet done with it: these workers own one of its counts each.\<close>

definition past_sem :: "jpc \<Rightarrow> bool" where
  "past_sem x \<longleftrightarrow> x \<in> {J_check, J_lock, J_section}"

definition count_pc :: "(jpc \<Rightarrow> bool) \<Rightarrow> tpool \<Rightarrow> nat" where
  "count_pc P p = (\<Sum>i < threadsN p. if P (tp_pc p i) then 1 else 0)"

definition posts_left :: "tpool \<Rightarrow> nat" where
  "posts_left p = (case tp_destroyer p of K_post k \<Rightarrow> k | _ \<Rightarrow> 0)"

text \<open>
  The queue is the jobs \<open>xs\<close>, newest first; those taken are the oldest; the lock is held by who
  is in the section; the jobs that run are none of the queue and none of another worker; as long
  as the pool is alive the semaphore counts one more than the queue, and after that it lets all
  pass who wait.
\<close>

definition tp_ok :: "tpool \<Rightarrow> nat list \<Rightarrow> bool" where
  "tp_ok p xs \<longleftrightarrow> jq_ok (jobqueue p) xs
     \<and> (tp_destroyer p \<noteq> K_done \<longrightarrow>
          map Some (tp_added p) = map Some (tp_taken p) @ map (j_func (jobqueue p)) (rev xs))
     \<and> (\<forall>i < threadsN p. tp_mutex p = Some i \<longleftrightarrow> tp_pc p i = J_section)
     \<and> (\<forall>i. tp_mutex p = Some i \<longrightarrow> i < threadsN p)
     \<and> (\<forall>i < threadsN p. \<forall>a. tp_pc p i = J_run a \<longrightarrow> a \<notin> set xs \<and> j_func (jobqueue p) a \<noteq> None)
     \<and> (\<forall>i < threadsN p. \<forall>j < threadsN p. \<forall>a. tp_pc p i = J_run a \<and> tp_pc p j = J_run a \<longrightarrow> i = j)
     \<and> (thpool_keepalive p \<longleftrightarrow> tp_destroyer p = K_none)
     \<and> (thpool_keepalive p \<longrightarrow> queueSem p + count_pc past_sem p = jobN (jobqueue p) + 1)
     \<and> (\<not> thpool_keepalive p \<longrightarrow> count_pc (\<lambda>x. x = J_sem) p \<le> queueSem p + posts_left p)"

end
