(* ===== verification/Job_Pool_Props.thy ===== *)
theory Job_Pool_Props
  imports Job_Pool
begin

text \<open>
  The pool of \<open>thread_pool_test_unstable\<close>: what its list does, that it dies whenever it is out of
  jobs, and that its shutdown does not hang.
\<close>

section \<open>Counting\<close>

lemma jgoto_sel [simp]:
  "jobqueue (jgoto i x p) = jobqueue p" "queueSem (jgoto i x p) = queueSem p" "tp_mutex (jgoto i x p) = tp_mutex p"
  "thpool_keepalive (jgoto i x p) = thpool_keepalive p" "threadsN (jgoto i x p) = threadsN p"
  "tp_destroyer (jgoto i x p) = tp_destroyer p" "tp_added (jgoto i x p) = tp_added p"
  "tp_taken (jgoto i x p) = tp_taken p" "tp_pc (jgoto i x p) = (tp_pc p)(i := x)"
  by (simp_all add: jgoto_def)

lemma count_cong: "tp_pc p = tp_pc q \<Longrightarrow> threadsN p = threadsN q \<Longrightarrow> count_pc P p = count_pc P q"
  by (simp add: count_pc_def)

lemma count_goto:
  assumes "i < threadsN p"
  shows "count_pc P (jgoto i x p) + (if P (tp_pc p i) then 1 else 0) = count_pc P p + (if P x then 1 else 0)"
proof -
  let ?f = "\<lambda>pc i. if P (pc i) then 1 else (0::nat)"
  have "count_pc P (jgoto i x p) = (\<Sum>j \<in> {..<threadsN p} - {i}. ?f (tp_pc p) j) + (if P x then 1 else 0)"
    using assms by (simp add: count_pc_def sum.remove [of _ i])
  moreover have "count_pc P p = (\<Sum>j \<in> {..<threadsN p} - {i}. ?f (tp_pc p) j) + ?f (tp_pc p) i"
    using assms by (simp add: count_pc_def sum.remove [of _ i])
  ultimately show ?thesis by simp
qed

lemma count_upd [simp]:
  "count_pc P (p\<lparr>jobqueue := q\<rparr>) = count_pc P p" "count_pc P (p\<lparr>queueSem := s\<rparr>) = count_pc P p"
  "count_pc P (p\<lparr>tp_mutex := l\<rparr>) = count_pc P p" "count_pc P (p\<lparr>tp_destroyer := d\<rparr>) = count_pc P p"
  "count_pc P (p\<lparr>jobqueue := q, queueSem := s, tp_added := a\<rparr>) = count_pc P p"
  "count_pc P (p\<lparr>jobqueue := q, tp_mutex := l, tp_taken := a\<rparr>) = count_pc P p"
  "count_pc P (p\<lparr>thpool_keepalive := k, tp_destroyer := d\<rparr>) = count_pc P p"
  "count_pc P (p\<lparr>thpool_keepalive := k\<rparr>) = count_pc P p"
  "count_pc P (p\<lparr>queueSem := s, tp_destroyer := d\<rparr>) = count_pc P p"
  "count_pc P (p\<lparr>jobqueue := q, tp_destroyer := d\<rparr>) = count_pc P p"
  by (rule count_cong; simp)+

lemma count_le: "count_pc P p \<le> threadsN p"
  using sum_bounded_above [of "{..<threadsN p}" "\<lambda>i. if P (tp_pc p i) then 1 else (0::nat)" 1]
  by (simp add: count_pc_def)

lemma count_pos: "i < threadsN p \<Longrightarrow> P (tp_pc p i) \<Longrightarrow> count_pc P p > 0"
  using member_le_sum [of i "{..<threadsN p}" "\<lambda>i. if P (tp_pc p i) then 1 else (0::nat)"]
  by (simp add: count_pc_def)

lemma count_none: "\<forall>i < threadsN p. \<not> P (tp_pc p i) \<Longrightarrow> count_pc P p = 0"
  by (simp add: count_pc_def)

lemma past_sem_simps [simp]:
  "past_sem J_check" "past_sem J_lock" "past_sem J_section"
  "\<not> past_sem J_top" "\<not> past_sem J_sem" "\<not> past_sem (J_run a)" "\<not> past_sem J_exit"
  by (simp_all add: past_sem_def)

section \<open>The invariant is kept\<close>

lemma tp_okI:
  assumes "jq_ok (jobqueue p) xs"
    and "tp_destroyer p \<noteq> K_done \<Longrightarrow>
      map Some (tp_added p) = map Some (tp_taken p) @ map (j_func (jobqueue p)) (rev xs)"
    and "\<And>i. i < threadsN p \<Longrightarrow> tp_mutex p = Some i \<longleftrightarrow> tp_pc p i = J_section"
    and "\<And>i. tp_mutex p = Some i \<Longrightarrow> i < threadsN p"
    and "\<And>i a. i < threadsN p \<Longrightarrow> tp_pc p i = J_run a \<Longrightarrow> a \<notin> set xs \<and> j_func (jobqueue p) a \<noteq> None"
    and "\<And>i j a. i < threadsN p \<Longrightarrow> j < threadsN p \<Longrightarrow> tp_pc p i = J_run a \<Longrightarrow> tp_pc p j = J_run a \<Longrightarrow> i = j"
    and "thpool_keepalive p \<longleftrightarrow> tp_destroyer p = K_none"
    and "thpool_keepalive p \<Longrightarrow> queueSem p + count_pc past_sem p = jobN (jobqueue p) + 1"
    and "\<not> thpool_keepalive p \<Longrightarrow> count_pc (\<lambda>x. x = J_sem) p \<le> queueSem p + posts_left p"
  shows "tp_ok p xs"
  unfolding tp_ok_def by (intro conjI allI impI) (use assms in blast)+

lemma tp_okD:
  assumes "tp_ok p xs"
  shows "jq_ok (jobqueue p) xs"
    and "tp_destroyer p \<noteq> K_done \<Longrightarrow>
      map Some (tp_added p) = map Some (tp_taken p) @ map (j_func (jobqueue p)) (rev xs)"
    and "i < threadsN p \<Longrightarrow> tp_mutex p = Some i \<longleftrightarrow> tp_pc p i = J_section"
    and "tp_mutex p = Some i \<Longrightarrow> i < threadsN p"
    and "i < threadsN p \<Longrightarrow> tp_pc p i = J_run a \<Longrightarrow> a \<notin> set xs \<and> j_func (jobqueue p) a \<noteq> None"
    and "i < threadsN p \<Longrightarrow> j < threadsN p \<Longrightarrow> tp_pc p i = J_run a \<Longrightarrow> tp_pc p j = J_run a \<Longrightarrow> i = j"
    and "thpool_keepalive p \<longleftrightarrow> tp_destroyer p = K_none"
    and "thpool_keepalive p \<Longrightarrow> queueSem p + count_pc past_sem p = jobN (jobqueue p) + 1"
    and "\<not> thpool_keepalive p \<Longrightarrow> count_pc (\<lambda>x. x = J_sem) p \<le> queueSem p + posts_left p"
  using assms unfolding tp_ok_def by blast+

lemma tok_init: "tp_ok (tp_init n) []"
  by (simp add: tp_ok_def tp_init_def jq_init count_pc_def) (simp add: jobqueue_init_def)

text \<open>Going from point to point without touching the queue.\<close>

lemma tok_move:
  assumes ok: "tp_ok p xs" and i: "i < threadsN p" and r: "\<forall>a. x \<noteq> J_run a"
    and m: "m = (if x = J_section then Some i else if tp_pc p i = J_section then None else tp_mutex p)"
    and free: "x = J_section \<Longrightarrow> tp_mutex p = None"
    and alive: "thpool_keepalive p \<Longrightarrow> s + (if past_sem x then 1 else 0) = queueSem p + (if past_sem (tp_pc p i) then 1 else 0)"
    and dead: "\<not> thpool_keepalive p \<Longrightarrow> queueSem p + (if x = J_sem then 1 else 0) \<le> s + (if tp_pc p i = J_sem then 1 else 0)"
  shows "tp_ok (jgoto i x (p\<lparr>queueSem := s, tp_mutex := m\<rparr>)) xs" (is "tp_ok ?q xs")
proof -
  have own: "tp_mutex p = Some j \<longleftrightarrow> tp_pc p j = J_section" if "j < threadsN p" for j
    using ok that by (simp add: tp_ok_def)
  have own': "m = Some j \<longleftrightarrow> tp_pc ?q j = J_section" if "j < threadsN p" for j
    using own [OF that] own [OF i] m free by (cases "j = i") auto
  have bd: "j < threadsN p" if "m = Some j" for j
    using ok i m that by (auto simp: tp_ok_def split: if_splits)
  have c: "count_pc P ?q + (if P (tp_pc p i) then 1 else 0) = count_pc P p + (if P x then 1 else 0)" for P
    using count_goto [of i "p\<lparr>queueSem := s, tp_mutex := m\<rparr>" P x] count_cong [of "p\<lparr>queueSem := s, tp_mutex := m\<rparr>" p P] i
    by simp
  show ?thesis
  proof (rule tp_okI)
    show "queueSem ?q + count_pc past_sem ?q = jobN (jobqueue ?q) + 1" if "thpool_keepalive ?q"
      using tp_okD(8) [OF ok] alive c [of past_sem] that by (simp split: if_splits)
    show "count_pc (\<lambda>x. x = J_sem) ?q \<le> queueSem ?q + posts_left ?q" if "\<not> thpool_keepalive ?q"
      using tp_okD(9) [OF ok] dead c [of "\<lambda>x. x = J_sem"] that by (simp add: posts_left_def split: if_splits)
    show "a \<notin> set xs \<and> j_func (jobqueue ?q) a \<noteq> None" if "j < threadsN ?q" "tp_pc ?q j = J_run a" for j a
      using tp_okD(5) [OF ok, of j a] r that by (simp split: if_splits)
    show "j = k" if "j < threadsN ?q" "k < threadsN ?q" "tp_pc ?q j = J_run a" "tp_pc ?q k = J_run a" for j k a
      using tp_okD(6) [OF ok, of j k a] r that by (simp split: if_splits)
    show "tp_mutex ?q = Some j \<longleftrightarrow> tp_pc ?q j = J_section" if "j < threadsN ?q" for j
      using own' [of j] that by simp
    show "j < threadsN ?q" if "tp_mutex ?q = Some j" for j
      using bd [of j] that by simp
  qed (use tp_okD(1,2,7) [OF ok] in simp_all)
qed

lemma tok_free:
  assumes ok: "tp_ok p xs" and a: "a \<notin> set xs" and n: "\<And>j. j < threadsN p \<Longrightarrow> tp_pc p j \<noteq> J_run a"
  shows "tp_ok (p\<lparr>jobqueue := free_job a (jobqueue p)\<rparr>) xs" (is "tp_ok ?q xs")
proof (rule tp_okI)
  show "jq_ok (jobqueue ?q) xs" using jq_free [OF tp_okD(1) [OF ok] a] by simp
  have "map (j_func (free_job a (jobqueue p))) (rev xs) = map (j_func (jobqueue p)) (rev xs)"
    using a by (auto simp: free_job_def)
  then show "map Some (tp_added ?q) = map Some (tp_taken ?q) @ map (j_func (jobqueue ?q)) (rev xs)"
    if "tp_destroyer ?q \<noteq> K_done" using tp_okD(2) [OF ok] that by simp
  show "b \<notin> set xs \<and> j_func (jobqueue ?q) b \<noteq> None" if "j < threadsN ?q" "tp_pc ?q j = J_run b" for j b
    using tp_okD(5) [OF ok, of j b] n [of j] that by (auto simp: free_job_def)
  show "j = k" if "j < threadsN ?q" "k < threadsN ?q" "tp_pc ?q j = J_run b" "tp_pc ?q k = J_run b" for j k b
    using tp_okD(6) [OF ok, of j k b] that by simp
  show "tp_mutex ?q = Some j \<longleftrightarrow> tp_pc ?q j = J_section" if "j < threadsN ?q" for j
    using tp_okD(3) [OF ok, of j] that by simp
  show "j < threadsN ?q" if "tp_mutex ?q = Some j" for j
    using tp_okD(4) [OF ok, of j] that by simp
qed (use tp_okD(7-9) [OF ok] in \<open>simp_all add: posts_left_def free_job_def\<close>)

lemma tok_add:
  assumes ok: "tp_ok p xs" and a: "j_func (jobqueue p) a = None" and d: "tp_destroyer p = K_none"
  shows "\<exists>q. tp_add_work a f p = Inr q \<and> threadsN q = threadsN p \<and> tp_ok q (a # xs)"
proof -
  let ?j = "new_job a f (jobqueue p)"
  have n: "a \<notin> set xs" using tp_okD(1) [OF ok] a by (auto simp: jq_ok_def)
  obtain j where j: "jobqueue_add a ?j = Inr j" "jq_ok j (a # xs)" "j_func j = j_func ?j"
    using jq_add [OF jq_new [OF tp_okD(1) [OF ok]] n, of a f] by (auto simp: new_job_def)
  let ?q = "p\<lparr>jobqueue := j, queueSem := queueSem p + 1, tp_added := tp_added p @ [f]\<rparr>"
  have "tp_ok ?q (a # xs)"
  proof (rule tp_okI)
    show "jq_ok (jobqueue ?q) (a # xs)" using j(2) by simp
    have "map (j_func j) (rev (a # xs)) = map (j_func (jobqueue p)) (rev xs) @ [Some f]"
      using n by (auto simp: j(3) new_job_def)
    then show "map Some (tp_added ?q) = map Some (tp_taken ?q) @ map (j_func (jobqueue ?q)) (rev (a # xs))"
      using tp_okD(2) [OF ok] d by simp
    show "b \<notin> set (a # xs) \<and> j_func (jobqueue ?q) b \<noteq> None" if "k < threadsN ?q" "tp_pc ?q k = J_run b" for k b
      using tp_okD(5) [OF ok, of k b] a that by (auto simp: j(3) new_job_def)
    show "k = l" if "k < threadsN ?q" "l < threadsN ?q" "tp_pc ?q k = J_run b" "tp_pc ?q l = J_run b" for k l b
      using tp_okD(6) [OF ok, of k l b] that by simp
    show "tp_mutex ?q = Some k \<longleftrightarrow> tp_pc ?q k = J_section" if "k < threadsN ?q" for k
      using tp_okD(3) [OF ok, of k] that by simp
    show "k < threadsN ?q" if "tp_mutex ?q = Some k" for k
      using tp_okD(4) [OF ok, of k] that by simp
    show "thpool_keepalive ?q \<longleftrightarrow> tp_destroyer ?q = K_none" using tp_okD(7) [OF ok] by simp
    show "queueSem ?q + count_pc past_sem ?q = jobN (jobqueue ?q) + 1" if "thpool_keepalive ?q"
      using tp_okD(1,8) [OF ok] j(2) that by (simp add: jq_ok_def)
    show "count_pc (\<lambda>x. x = J_sem) ?q \<le> queueSem ?q + posts_left ?q" if "\<not> thpool_keepalive ?q"
      using tp_okD(9) [OF ok] that by (simp add: posts_left_def)
  qed
  with j(1) show ?thesis by (simp add: tp_add_work_def)
qed

text \<open>The section under the lock: with a job it takes the oldest, without one it faults.\<close>

lemma tok_take:
  assumes ok: "tp_ok p (xs @ [y])" and i: "i < threadsN p" and s: "tp_pc p i = J_section"
  shows "\<exists>q. take_job i p = Inr q \<and> threadsN q = threadsN p \<and> tp_ok q xs"
proof -
  note jq = tp_okD(1) [OF ok]
  obtain j where j: "jobqueue_removelast (jobqueue p) = Inr (0, j)" "jq_ok j xs" "j_func j = j_func (jobqueue p)"
    using jq_remove [OF jq] by auto
  obtain f where f: "j_func (jobqueue p) y = Some f" using jq by (auto simp: jq_ok_def)
  have y: "y \<notin> set xs" using jq by (simp add: jq_ok_def)
  have m: "tp_mutex p = Some i" using tp_okD(3) [OF ok i] s by simp
  let ?r = "p\<lparr>jobqueue := j, tp_mutex := None, tp_taken := tp_taken p @ [f]\<rparr>" and ?q = "jgoto i (J_run y) (p\<lparr>jobqueue := j, tp_mutex := None, tp_taken := tp_taken p @ [f]\<rparr>)"
  have c: "count_pc P ?q + (if P J_section then 1 else 0) = count_pc P p + (if P (J_run y) then 1 else 0)" for P
    using count_goto [of i ?r P "J_run y"] i s by simp
  have "tp_ok ?q xs"
  proof (rule tp_okI)
    show "jq_ok (jobqueue ?q) xs" using j(2) by simp
    show "map Some (tp_added ?q) = map Some (tp_taken ?q) @ map (j_func (jobqueue ?q)) (rev xs)"
      if "tp_destroyer ?q \<noteq> K_done"
      using tp_okD(2) [OF ok] that by (simp add: j(3) f)
    show "tp_mutex ?q = Some k \<longleftrightarrow> tp_pc ?q k = J_section" if "k < threadsN ?q" for k
      using tp_okD(3) [OF ok, of k] m that by auto
    show "b \<notin> set xs \<and> j_func (jobqueue ?q) b \<noteq> None" if "k < threadsN ?q" "tp_pc ?q k = J_run b" for k b
      using tp_okD(5) [OF ok, of k b] y f that by (auto simp: j(3) split: if_splits)
    show "k = l" if "k < threadsN ?q" "l < threadsN ?q" "tp_pc ?q k = J_run b" "tp_pc ?q l = J_run b" for k l b
    proof -
      have "tp_pc p k \<noteq> J_run y" "tp_pc p l \<noteq> J_run y" using tp_okD(5) [OF ok, of _ y] that(1,2) by auto
      then show ?thesis using tp_okD(6) [OF ok, of k l b] that by (auto split: if_splits)
    qed
    show "queueSem ?q + count_pc past_sem ?q = jobN (jobqueue ?q) + 1" if "thpool_keepalive ?q"
      using tp_okD(8) [OF ok] c [of past_sem] jq j(2) that by (simp add: jq_ok_def)
    show "count_pc (\<lambda>x. x = J_sem) ?q \<le> queueSem ?q + posts_left ?q" if "\<not> thpool_keepalive ?q"
      using tp_okD(9) [OF ok] c [of "\<lambda>x. x = J_sem"] that by (simp add: posts_left_def)
  qed (use tp_okD(7) [OF ok] in simp_all)
  moreover have "take_job i p = Inr ?q"
    using jq_peek [OF jq] f j(1) by (simp add: take_job_def)
  ultimately show ?thesis by auto
qed

lemma take_empty: "tp_ok p [] \<Longrightarrow> take_job i p = Inl Null_Deref"
  using jq_peek [OF tp_okD(1)] by (simp add: take_job_def)

lemma tok_worker:
  assumes ok: "tp_ok p xs" and i: "i < threadsN p" and st: "tp_thread_do i p = Some (Inr q)"
  shows "\<exists>ys. tp_ok q ys \<and> threadsN q = threadsN p"
proof (cases "tp_pc p i")
  case J_top
  let ?x = "if thpool_keepalive p then J_sem else J_exit"
  have "tp_ok (jgoto i ?x (p\<lparr>queueSem := queueSem p, tp_mutex := tp_mutex p\<rparr>)) xs"
    by (rule tok_move [OF ok i]) (use J_top in \<open>auto split: if_splits\<close>)
  with J_top st show ?thesis by (auto simp: tp_thread_do_def)
next
  case J_sem
  then have s: "queueSem p > 0" "q = jgoto i J_check (p\<lparr>queueSem := queueSem p - 1, tp_mutex := tp_mutex p\<rparr>)"
    using st by (auto simp: tp_thread_do_def split: if_splits)
  have "tp_ok q xs" unfolding s(2) by (rule tok_move [OF ok i]) (use J_sem s(1) in auto)
  with s(2) show ?thesis by auto
next
  case J_check
  let ?x = "if thpool_keepalive p then J_lock else J_exit"
  have "tp_ok (jgoto i ?x (p\<lparr>queueSem := queueSem p, tp_mutex := tp_mutex p\<rparr>)) xs"
    by (rule tok_move [OF ok i]) (use J_check in \<open>auto split: if_splits\<close>)
  with J_check st show ?thesis by (auto simp: tp_thread_do_def)
next
  case J_lock
  then have s: "tp_mutex p = None" "q = jgoto i J_section (p\<lparr>queueSem := queueSem p, tp_mutex := Some i\<rparr>)"
    using st by (auto simp: tp_thread_do_def split: if_splits)
  have "tp_ok q xs" unfolding s(2) by (rule tok_move [OF ok i]) (use J_lock s(1) in auto)
  with s(2) show ?thesis by auto
next
  case J_section
  then have t: "take_job i p = Inr q" using st by (simp add: tp_thread_do_def)
  then have "xs \<noteq> []" using take_empty [of p i] ok by auto
  then obtain ys y where xs: "xs = ys @ [y]" using rev_exhaust by blast
  with tok_take [OF ok [unfolded xs] i J_section] t show ?thesis by auto
next
  case (J_run a)
  have r: "tp_ok (jgoto i J_top (p\<lparr>queueSem := queueSem p, tp_mutex := tp_mutex p\<rparr>)) xs" (is "tp_ok ?r xs")
    by (rule tok_move [OF ok i]) (use J_run in auto)
  have "tp_ok (?r\<lparr>jobqueue := free_job a (jobqueue ?r)\<rparr>) xs"
  proof (rule tok_free [OF r])
    show "a \<notin> set xs" using tp_okD(5) [OF ok i J_run] by simp
    show "tp_pc ?r j \<noteq> J_run a" if "j < threadsN ?r" for j
      using tp_okD(6) [OF ok i, of j a] J_run that by auto
  qed
  moreover have "q = ?r\<lparr>jobqueue := free_job a (jobqueue ?r)\<rparr>"
    using st J_run by (cases p) (simp add: tp_thread_do_def jgoto_def)
  ultimately show ?thesis by auto
next
  case J_exit
  with st show ?thesis by (simp add: tp_thread_do_def)
qed

lemma tok_destroyer:
  assumes ok: "tp_ok p xs" and k: "tp_destroyer p \<noteq> K_none" and d: "d \<noteq> K_none" "d \<noteq> K_done" "tp_destroyer p \<noteq> K_done"
    and c: "queueSem p + posts_left p \<le> s + posts_left (p\<lparr>tp_destroyer := d\<rparr>)"
  shows "tp_ok (p\<lparr>queueSem := s, tp_destroyer := d\<rparr>) xs"
proof (rule tp_okI)
  let ?q = "p\<lparr>queueSem := s, tp_destroyer := d\<rparr>"
  have nk: "\<not> thpool_keepalive p" using tp_okD(7) [OF ok] k by simp
  then show "thpool_keepalive ?q \<longleftrightarrow> tp_destroyer ?q = K_none" using d by simp
  show "queueSem ?q + count_pc past_sem ?q = jobN (jobqueue ?q) + 1" if "thpool_keepalive ?q"
    using nk that by simp
  show "count_pc (\<lambda>x. x = J_sem) ?q \<le> queueSem ?q + posts_left ?q"
    using tp_okD(9) [OF ok nk] c by (simp add: posts_left_def)
  show "b \<notin> set xs \<and> j_func (jobqueue ?q) b \<noteq> None" if "j < threadsN ?q" "tp_pc ?q j = J_run b" for j b
    using tp_okD(5) [OF ok, of j b] that by simp
  show "j = k" if "j < threadsN ?q" "k < threadsN ?q" "tp_pc ?q j = J_run b" "tp_pc ?q k = J_run b" for j k b
    using tp_okD(6) [OF ok, of j k b] that by simp
  show "tp_mutex ?q = Some j \<longleftrightarrow> tp_pc ?q j = J_section" if "j < threadsN ?q" for j
    using tp_okD(3) [OF ok, of j] that by simp
  show "j < threadsN ?q" if "tp_mutex ?q = Some j" for j
    using tp_okD(4) [OF ok, of j] that by simp
qed (use tp_okD(1,2) [OF ok] d in simp_all)

lemma tok_destroy:
  assumes ok: "tp_ok p xs" and st: "tp_destroy p = Some (Inr q)"
  shows "\<exists>ys. tp_ok q ys \<and> threadsN q = threadsN p"
proof (cases "tp_destroyer p")
  case K_none
  let ?q = "p\<lparr>thpool_keepalive := False, tp_destroyer := K_post (threadsN p + 1)\<rparr>"
  have "tp_ok ?q xs"
  proof (rule tp_okI)
    show "count_pc (\<lambda>x. x = J_sem) ?q \<le> queueSem ?q + posts_left ?q"
      using count_le [of "\<lambda>x. x = J_sem" p] by (simp add: posts_left_def)
    show "b \<notin> set xs \<and> j_func (jobqueue ?q) b \<noteq> None" if "j < threadsN ?q" "tp_pc ?q j = J_run b" for j b
      using tp_okD(5) [OF ok, of j b] that by simp
    show "j = k" if "j < threadsN ?q" "k < threadsN ?q" "tp_pc ?q j = J_run b" "tp_pc ?q k = J_run b" for j k b
      using tp_okD(6) [OF ok, of j k b] that by simp
    show "tp_mutex ?q = Some j \<longleftrightarrow> tp_pc ?q j = J_section" if "j < threadsN ?q" for j
      using tp_okD(3) [OF ok, of j] that by simp
    show "j < threadsN ?q" if "tp_mutex ?q = Some j" for j
      using tp_okD(4) [OF ok, of j] that by simp
  qed (use tp_okD(1,2) [OF ok] K_none in simp_all)
  with st K_none show ?thesis by (auto simp: tp_destroy_def)
next
  case (K_post k)
  show ?thesis
  proof (cases k)
    case 0
    have "tp_ok (p\<lparr>queueSem := queueSem p, tp_destroyer := K_join 0\<rparr>) xs"
      by (rule tok_destroyer [OF ok]) (use K_post 0 in \<open>simp_all add: posts_left_def\<close>)
    with st K_post 0 show ?thesis by (auto simp: tp_destroy_def)
  next
    case (Suc j)
    have "tp_ok (p\<lparr>queueSem := queueSem p + 1, tp_destroyer := K_post j\<rparr>) xs"
      by (rule tok_destroyer [OF ok]) (use K_post Suc in \<open>simp_all add: posts_left_def\<close>)
    with st K_post Suc show ?thesis by (auto simp: tp_destroy_def)
  qed
next
  case (K_join k)
  let ?d = "if k < threadsN p then K_join (Suc k) else K_empty"
  have "tp_ok (p\<lparr>queueSem := queueSem p, tp_destroyer := ?d\<rparr>) xs"
    by (rule tok_destroyer [OF ok]) (use K_join in \<open>simp_all add: posts_left_def\<close>)
  moreover have "q = p\<lparr>queueSem := queueSem p, tp_destroyer := ?d\<rparr>"
    using st K_join by (auto simp: tp_destroy_def split: if_splits)
  ultimately show ?thesis by auto
next
  case K_empty
  obtain j where j: "jobqueue_empty (jobqueue p) = Inr j" "jobN j = 0" "j_head j = None" "j_tail j = None"
      "j_func j = (\<lambda>a. if a \<in> set xs then None else j_func (jobqueue p) a)"
    using jq_empty [OF tp_okD(1) [OF ok]] by auto
  let ?q = "p\<lparr>jobqueue := j, tp_destroyer := K_done\<rparr>"
  have nk: "\<not> thpool_keepalive p" using tp_okD(7) [OF ok] K_empty by simp
  have "tp_ok ?q []"
  proof (rule tp_okI)
    show "jq_ok (jobqueue ?q) []" using j by (simp add: jq_ok_def)
    show "b \<notin> set [] \<and> j_func (jobqueue ?q) b \<noteq> None" if "k < threadsN ?q" "tp_pc ?q k = J_run b" for k b
      using tp_okD(5) [OF ok, of k b] that by (simp add: j(5))
    show "k = l" if "k < threadsN ?q" "l < threadsN ?q" "tp_pc ?q k = J_run b" "tp_pc ?q l = J_run b" for k l b
      using tp_okD(6) [OF ok, of k l b] that by simp
    show "tp_mutex ?q = Some k \<longleftrightarrow> tp_pc ?q k = J_section" if "k < threadsN ?q" for k
      using tp_okD(3) [OF ok, of k] that by simp
    show "k < threadsN ?q" if "tp_mutex ?q = Some k" for k
      using tp_okD(4) [OF ok, of k] that by simp
    show "count_pc (\<lambda>x. x = J_sem) ?q \<le> queueSem ?q + posts_left ?q"
      using tp_okD(9) [OF ok nk] K_empty by (simp add: posts_left_def)
  qed (use nk in simp_all)
  with st K_empty j(1) show ?thesis by (auto simp: tp_destroy_def)
next
  case K_done
  with st show ?thesis by (simp add: tp_destroy_def)
qed

lemma tok_step:
  assumes "tp_step p (Inr q)" "tp_ok p xs"
  shows "\<exists>ys. tp_ok q ys \<and> threadsN q = threadsN p"
  using assms(1)
proof cases
  case (add a f)
  then show ?thesis using tok_add [OF assms(2), of a f] by auto
next
  case (worker i)
  then show ?thesis using tok_worker [OF assms(2)] by blast
next
  case destroy
  then show ?thesis using tok_destroy [OF assms(2)] by blast
qed

lemma tok_reach: "tp_reach n p \<Longrightarrow> (\<exists>xs. tp_ok p xs) \<and> threadsN p = nat (if n < 1 then 1 else n)"
proof (induction rule: tp_reach.induct)
  case start
  show ?case using tok_init [of n] by (intro conjI exI) (simp_all add: tp_init_def)
next
  case (step p q)
  then show ?case using tok_step by fastforce
qed

section \<open>Properties\<close>

text \<open>
  C9. The job queue of the unstable pool is a first-in first-out queue on its pointers: for a
  well-formed doubly linked list \<open>xs\<close> of jobs (newest first), adding a new job puts it in front;
  \<open>peek\<close> is the oldest; removing takes the oldest off, and gives -1 on the empty queue;
  emptying frees every job of the queue and nothing else. No operation follows a null pointer,
  and none but emptying frees anything.
\<close>

theorem job_queue_refines:
  assumes "jq_ok q xs"
  shows "(\<forall>a f. a \<notin> set xs \<longrightarrow> (\<exists>q'. jobqueue_add a (new_job a f q) = Inr q' \<and> jq_ok q' (a # xs)
            \<and> j_func q' = (j_func q)(a := Some f)))
    \<and> jobqueue_peek q = (if xs = [] then None else Some (last xs))
    \<and> (if xs = [] then jobqueue_removelast q = Inr (-1, q)
       else \<exists>q'. jobqueue_removelast q = Inr (0, q') \<and> jq_ok q' (butlast xs) \<and> j_func q' = j_func q)
    \<and> (\<exists>q'. jobqueue_empty q = Inr q' \<and> jq_ok q' [] \<and> (\<forall>a. j_func q' a = (if a \<in> set xs then None else j_func q a)))"
proof (intro conjI allI impI)
  fix a f
  assume "a \<notin> set xs"
  then show "\<exists>q'. jobqueue_add a (new_job a f q) = Inr q' \<and> jq_ok q' (a # xs) \<and> j_func q' = (j_func q)(a := Some f)"
    using jq_add [OF jq_new [OF assms], of a a f] by (auto simp: new_job_def)
next
  show "jobqueue_peek q = (if xs = [] then None else Some (last xs))" by (rule jq_peek [OF assms])
next
  show "if xs = [] then jobqueue_removelast q = Inr (-1, q)
    else \<exists>q'. jobqueue_removelast q = Inr (0, q') \<and> jq_ok q' (butlast xs) \<and> j_func q' = j_func q"
  proof (cases xs rule: rev_cases)
    case Nil
    then show ?thesis using jq_remove_empty [of q] assms by simp
  next
    case (snoc ys y)
    then show ?thesis using jq_remove [of q ys y] assms by simp
  qed
next
  show "\<exists>q'. jobqueue_empty q = Inr q' \<and> jq_ok q' [] \<and> (\<forall>a. j_func q' a = (if a \<in> set xs then None else j_func q a))"
    using jq_empty [OF assms] by (auto simp: jq_ok_def)
qed

text \<open>Two jobs, the first added at 5 and the second at 9.\<close>

definition demo_jobs :: job_queue where
  "demo_jobs = \<lparr>j_next = (\<lambda>_. None)(9 := Some 5), j_prev = (\<lambda>_. None)(5 := Some 9), j_func = (\<lambda>_. None)(5 := Some 1, 9 := Some 2),
     j_head = Some 9, j_tail = Some 5, jobN = 2\<rparr>"

lemma job_queue_refines_witness: "jobqueue_peek demo_jobs = Some 5 \<and> (\<exists>q'. jobqueue_removelast demo_jobs = Inr (0, q') \<and> jq_ok q' [9])"
proof -
  have "jq_ok demo_jobs [9, 5]" by (simp add: jq_ok_def demo_jobs_def)
  from job_queue_refines [OF this] show ?thesis by auto
qed

text \<open>
  C10. Over all interleavings, while the pool lives: the semaphore, with the workers that passed it
  and have not yet taken their job, counts one more than the jobs in the queue; one worker at
  most is under the lock; the jobs taken are the oldest, in the order they were added; no two
  workers run, and later free, the same job.
\<close>

theorem tp_accounting:
  assumes "tp_reach n p"
  shows "(thpool_keepalive p \<longrightarrow> queueSem p + count_pc past_sem p = jobN (jobqueue p) + 1)
    \<and> (\<forall>i < threadsN p. \<forall>j < threadsN p. tp_pc p i = J_section \<and> tp_pc p j = J_section \<longrightarrow> i = j)
    \<and> (tp_destroyer p \<noteq> K_done \<longrightarrow> (\<exists>fs. tp_added p = tp_taken p @ fs \<and> length fs = jobN (jobqueue p)))
    \<and> (\<forall>i < threadsN p. \<forall>j < threadsN p. \<forall>a. tp_pc p i = J_run a \<and> tp_pc p j = J_run a \<longrightarrow> i = j)"
proof -
  from tok_reach [OF assms] obtain xs where ok: "tp_ok p xs" by blast
  have "\<exists>fs. tp_added p = tp_taken p @ fs \<and> length fs = jobN (jobqueue p)" if "tp_destroyer p \<noteq> K_done"
  proof -
    note e = tp_okD(2) [OF ok that]
    let ?n = "length (tp_taken p)"
    have "map Some (take ?n (tp_added p)) = map Some (tp_taken p)" using arg_cong [OF e, of "take ?n"] by (simp add: take_map)
    then have "take ?n (tp_added p) = tp_taken p" by (rule map_injective) simp
    then have "tp_added p = tp_taken p @ drop ?n (tp_added p)" by (metis append_take_drop_id)
    moreover have "length (tp_added p) = ?n + jobN (jobqueue p)"
      using arg_cong [OF e, of length] tp_okD(1) [OF ok] by (simp add: jq_ok_def)
    ultimately show ?thesis by (metis length_drop diff_add_inverse)
  qed
  moreover have "i = j" if "i < threadsN p" "j < threadsN p" "tp_pc p i = J_section \<and> tp_pc p j = J_section" for i j
    using tp_okD(3) [OF ok, of i] tp_okD(3) [OF ok, of j] that by simp
  ultimately show ?thesis using tp_okD(6,8) [OF ok] by blast
qed

text \<open>A worker going on for \<open>k\<close> steps.\<close>

fun tp_work_on :: "nat \<Rightarrow> nat \<Rightarrow> tpool \<Rightarrow> (fault + tpool) option" where
  "tp_work_on i 0 p = Some (Inr p)"
| "tp_work_on i (Suc k) p = (case tp_thread_do i p of
      Some (Inr q) \<Rightarrow> tp_work_on i k q | r \<Rightarrow> r)"

lemma reach_tp_work_on:
  "tp_reach n p \<Longrightarrow> i < threadsN p \<Longrightarrow> tp_work_on i k p = Some (Inr q) \<Longrightarrow> tp_reach n q"
proof (induction k arbitrary: p)
  case (Suc k)
  then obtain r where r: "tp_thread_do i p = Some (Inr r)" "tp_work_on i k r = Some (Inr q)"
    by (auto split: option.splits sum.splits)
  have r2: "tp_reach n r"
    by (rule tp_reach.step [OF Suc.prems(1)], rule tp_step.worker [of i], fact, simp add: r(1))
  have "threadsN r = threadsN p" using tok_reach [OF r2] tok_reach [OF Suc.prems(1)] by simp
  with Suc.IH [OF r2] Suc.prems(2) r(2) show ?case by simp
qed simp

text \<open>
  C11. The pool does not survive running out of jobs. Whenever it is alive, its queue is empty and
  every worker is before the semaphore or running a job, a worker that waits passes the
  semaphore, which stands at 1, and in the section under the lock reads the function of a job
  that is not there.
\<close>

theorem idle_pool_crashes:
  assumes "tp_reach n p" and "thpool_keepalive p" and "jobN (jobqueue p) = 0"
    and "\<forall>j < threadsN p. \<not> past_sem (tp_pc p j)" and "i < threadsN p" and "tp_pc p i = J_sem"
  shows "queueSem p = 1 \<and> tp_work_on i 4 p = Some (Inl Null_Deref)"
proof -
  from tok_reach [OF assms(1)] obtain xs where ok: "tp_ok p xs" by blast
  have xs: "xs = []" using tp_okD(1) [OF ok] assms(3) by (simp add: jq_ok_def)
  have "count_pc past_sem p = 0" using assms(4) by (rule count_none)
  then have s: "queueSem p = 1" using tp_okD(8) [OF ok] assms(2,3) by simp
  have m: "tp_mutex p = None"
    using tp_okD(3,4) [OF ok] assms(4) by (cases "tp_mutex p") (auto, metis past_sem_simps(3))
  let ?q = "p\<lparr>queueSem := 0, tp_pc := (tp_pc p)(i := J_section), tp_mutex := Some i\<rparr>"
  have "jobqueue_peek (jobqueue p) = None" using jq_peek [OF tp_okD(1) [OF ok]] xs by simp
  then have "tp_work_on i 4 p = Some (Inl Null_Deref)"
    using assms(2,6) s m by (simp add: eval_nat_numeral tp_thread_do_def take_job_def)
  with s show ?thesis by simp
qed

text \<open>A new pool of three, before any job is added.\<close>

lemma idle_pool_crashes_witness:
  "tp_work_on 1 4 (jgoto 1 J_sem (tp_init 3)) = Some (Inl Null_Deref)"
proof -
  have "tp_reach 3 (jgoto 1 J_sem (tp_init 3))"
    by (rule reach_tp_work_on [OF tp_reach.start, of 1 _ 1]) (simp_all add: tp_thread_do_def tp_init_def jgoto_def)
  from idle_pool_crashes [OF this, of 1] show ?thesis by (simp add: tp_init_def jobqueue_init_def)
qed

lemma tp_accounting_witness:
  "queueSem (jgoto 1 J_sem (tp_init 3)) + count_pc past_sem (jgoto 1 J_sem (tp_init 3)) = 1"
proof -
  have "tp_reach 3 (jgoto 1 J_sem (tp_init 3))"
    by (rule reach_tp_work_on [OF tp_reach.start, of 1 _ 1]) (simp_all add: tp_thread_do_def tp_init_def jgoto_def)
  from tp_accounting [OF this] show ?thesis by (simp add: tp_init_def jobqueue_init_def)
qed

text \<open>
  The shutdown of the unstable pool cannot hang: while \<open>thpool_destroy\<close> joins its workers,
  all of them have returned or one of them can go on; no waiting worker finds the semaphore at 0.
\<close>

theorem tp_shutdown_progress:
  assumes "tp_reach n p" and "tp_destroyer p = K_join k"
  shows "(\<forall>i < threadsN p. tp_pc p i = J_exit) \<or> (\<exists>i < threadsN p. tp_thread_do i p \<noteq> None)"
proof (rule ccontr)
  from tok_reach [OF assms(1)] obtain xs where ok: "tp_ok p xs" by blast
  assume "\<not> ?thesis"
  then obtain i where i: "i < threadsN p" "tp_pc p i \<noteq> J_exit"
    and stuck: "\<And>j. j < threadsN p \<Longrightarrow> tp_thread_do j p = None" by auto
  have "\<not> thpool_keepalive p" using tp_okD(7) [OF ok] assms(2) by simp
  then have c: "count_pc (\<lambda>x. x = J_sem) p \<le> queueSem p"
    using tp_okD(9) [OF ok] assms(2) by (simp add: posts_left_def)
  from stuck [OF i(1)] i(2) consider (s) "tp_pc p i = J_sem" "queueSem p = 0" | (l) "tp_pc p i = J_lock" "tp_mutex p \<noteq> None"
    by (auto simp: tp_thread_do_def split: jpc.splits if_splits)
  then show False
  proof cases
    case s
    with count_pos [OF i(1), of "\<lambda>x. x = J_sem"] c show False by simp
  next
    case l
    then obtain j where j: "tp_mutex p = Some j" by auto
    then have "j < threadsN p" "tp_pc p j = J_section" using tp_okD(3,4) [OF ok, of j] by auto
    with stuck [of j] show False by (simp add: tp_thread_do_def)
  qed
qed

text \<open>A pool of one is destroyed while its worker is before the loop.\<close>

fun tp_destroy_on :: "nat \<Rightarrow> tpool \<Rightarrow> (fault + tpool) option" where
  "tp_destroy_on 0 p = Some (Inr p)"
| "tp_destroy_on (Suc k) p = (case tp_destroy p of Some (Inr q) \<Rightarrow> tp_destroy_on k q | r \<Rightarrow> r)"

lemma reach_tp_destroy_on:
  "tp_reach n p \<Longrightarrow> tp_destroy_on k p = Some (Inr q) \<Longrightarrow> tp_reach n q"
proof (induction k arbitrary: p)
  case (Suc k)
  then obtain r where r: "tp_destroy p = Some (Inr r)" "tp_destroy_on k r = Some (Inr q)"
    by (auto split: option.splits sum.splits)
  have "tp_reach n r" by (rule tp_reach.step [OF Suc.prems(1)], rule tp_step.destroy, simp add: r(1))
  with Suc.IH r(2) show ?case by blast
qed simp

lemma tp_shutdown_progress_witness:
  "\<exists>p. tp_destroyer p = K_join 0 \<and> queueSem p = 3 \<and> tp_thread_do 0 p \<noteq> None"
proof -
  define p where "p = tp_init 1\<lparr>thpool_keepalive := False, queueSem := 3, tp_destroyer := K_join 0\<rparr>"
  have "tp_destroy_on 4 (tp_init 1) = Some (Inr p)"
    by (simp add: p_def eval_nat_numeral tp_destroy_def tp_init_def)
  with tp_reach.start have r: "tp_reach 1 p" by (rule reach_tp_destroy_on)
  have d: "tp_destroyer p = K_join 0" "queueSem p = 3" "threadsN p = 1" "tp_pc p 0 = J_top"
    by (simp_all add: p_def tp_init_def)
  with tp_shutdown_progress [OF r d(1)] have "tp_thread_do 0 p \<noteq> None" by auto
  with d show ?thesis by blast
qed

end
