(* ===== verification/Proactor.thy ===== *)
theory Proactor
  imports Reactor
begin

text \<open>
  \<open>io/async/proactor.ipp\<close> and \<open>io/object/object_base.cc\<close> under \<open>deviceagent/2deviceagent/\<close>: the
  front of the library. The proactor owns the service, and the service the reactor (\<open>poller_\<close>);
  the proactor keeps a second pointer to the reactor, which \<open>init\<close> fetches. The state is the
  reactor's with the service inside; a call through the second pointer is a fault when it was
  never set or its target is gone.
\<close>

section \<open>The proactor\<close>

record proactor =
  st :: "tio epl"
  pr_reactor :: bool

text \<open>The service is new with the hint 0; \<open>self_addr\<close> and \<open>task_addr\<close> are its addresses.\<close>

definition proactor_new :: "nat \<Rightarrow> nat \<Rightarrow> proactor" where
  "proactor_new self_addr task_addr =
     \<lparr>st = ep_init (-1) (\<lambda>_. 0) (tio_init self_addr task_addr 0), pr_reactor = False\<rparr>"

text \<open>\<open>rd\<close> is the interrupter's descriptor of the new reactor, \<open>errs\<close> what the kernel refuses.\<close>

definition proactor_init :: "int \<Rightarrow> (int \<Rightarrow> int) \<Rightarrow> proactor \<Rightarrow> proactor" where
  "proactor_init rd errs p =
     (let serv = io (st p); serv1 = init_task serv;
          s1 = (if \<not> shutdown serv \<and> \<not> poller serv then ep_init rd errs serv1 else upd_io (\<lambda>_. serv1) (st p))
      in \<lparr>st = s1, pr_reactor = poller serv1\<rparr>)"

definition via_reactor :: "(tio epl \<Rightarrow> 'a \<times> tio epl) \<Rightarrow> proactor \<Rightarrow> fault + 'a \<times> proactor" where
  "via_reactor f p =
     (if pr_reactor p \<and> poller (io (st p)) then (let (r, s1) = f (st p) in Inr (r, p\<lparr>st := s1\<rparr>)) else Inl Null_Deref)"

definition proactor_attach :: "nat \<Rightarrow> int \<Rightarrow> proactor \<Rightarrow> fault + (int \<times> nat) \<times> proactor" where
  "proactor_attach fresh fd p =
     via_reactor (\<lambda>s. let (result, x, s1) = register_descriptor fresh fd s in ((result, x), s1)) p"

definition proactor_detach :: "cstack \<Rightarrow> int \<Rightarrow> nat option \<Rightarrow> bool \<Rightarrow> proactor \<Rightarrow> fault + nat option \<times> proactor" where
  "proactor_detach cs fd set_p closing p = via_reactor (deregister_descriptor (tio_ops cs) fd set_p closing) p"

definition proactor_start ::
  "cstack \<Rightarrow> (nat \<Rightarrow> bool) \<Rightarrow> nat \<Rightarrow> int \<Rightarrow> nat option \<Rightarrow> nat \<Rightarrow> bool \<Rightarrow> proactor \<Rightarrow> fault + unit \<times> proactor" where
  "proactor_start cs w kind fd set_p op is_nonblocking p =
     via_reactor (\<lambda>s. ((), start_op (tio_ops cs) w kind fd set_p op is_nonblocking s)) p"

definition proactor_start_write_op where
  "proactor_start_write_op cs w fd set_p op is_nonblocking p = proactor_start cs w op_write fd set_p op is_nonblocking p"

definition proactor_start_read_op where
  "proactor_start_read_op cs w fd set_p op is_nonblocking p = proactor_start cs w op_read fd set_p op is_nonblocking p"

definition proactor_start_connect_op where
  "proactor_start_connect_op cs w fd set_p op is_nonblocking p = proactor_start cs w op_connect fd set_p op is_nonblocking p"

definition proactor_cancel_ops :: "cstack \<Rightarrow> nat option \<Rightarrow> proactor \<Rightarrow> fault + unit \<times> proactor" where
  "proactor_cancel_ops cs set_p p = via_reactor (\<lambda>s. ((), Epoll.cancel_ops (tio_ops cs) set_p s)) p"

definition proactor_post_immediate :: "cstack \<Rightarrow> nat \<Rightarrow> proactor \<Rightarrow> proactor" where
  "proactor_post_immediate cs op p = p\<lparr>st := upd_io (post_immediate_completion cs op) (st p)\<rparr>"

definition proactor_post :: "cstack \<Rightarrow> nat \<Rightarrow> proactor \<Rightarrow> proactor" where
  "proactor_post cs op p = p\<lparr>st := upd_io (post_handler cs op) (st p)\<rparr>"

definition proactor_stop :: "proactor \<Rightarrow> proactor" where
  "proactor_stop p = p\<lparr>st := upd_io stop_all_threads (st p)\<rparr>"

definition proactor_reset :: "proactor \<Rightarrow> proactor" where
  "proactor_reset p = p\<lparr>st := upd_io reset_svc (st p)\<rparr>"

text \<open>The service deletes the reactor; the pointer \<open>pr_reactor\<close> stays as it is.\<close>

definition proactor_shutdown_service :: "proactor \<Rightarrow> proactor" where
  "proactor_shutdown_service p = p\<lparr>st := upd_io shutdown_service (st p)\<rparr>"

section \<open>The one proactor of the program\<close>

text \<open>The global pointer \<open>object_base::proactor_\<close>. \<open>task_join\<close> gives the operations that were destroyed.\<close>

definition task_create :: "nat \<Rightarrow> nat \<Rightarrow> int \<Rightarrow> (int \<Rightarrow> int) \<Rightarrow> proactor option \<Rightarrow> proactor option" where
  "task_create self_addr task_addr rd errs g =
     (case g of None \<Rightarrow> Some (proactor_init rd errs (proactor_new self_addr task_addr)) | Some p \<Rightarrow> Some p)"

definition task_join :: "proactor option \<Rightarrow> nat list \<times> proactor option" where
  "task_join g = (case g of None \<Rightarrow> ([], None)
     | Some p \<Rightarrow> (destroyed (io (st (proactor_shutdown_service (proactor_stop p)))), None))"

definition task_start :: "proactor option \<Rightarrow> fault + proactor option" where
  "task_start g = (case g of None \<Rightarrow> Inl Null_Deref | Some p \<Rightarrow> Inr (Some (proactor_reset p)))"

definition task_stop :: "proactor option \<Rightarrow> fault + proactor option" where
  "task_stop g = (case g of None \<Rightarrow> Inl Null_Deref | Some p \<Rightarrow> Inr (Some (proactor_stop p)))"

section \<open>What happens between create and join\<close>

text \<open>
  The calls of a program, with the live and the free descriptor sets, the operations that were
  started and those that were completed. \<open>event\<close> is a descriptor that became ready and whose
  first finished operation is completed (the turn of the set itself in the queue is not
  followed); \<open>handle\<close> completes the operation at the head of the queue.
\<close>

inductive pr_run :: "nat \<Rightarrow> proactor \<Rightarrow> nat list \<Rightarrow> nat list \<Rightarrow> nat multiset \<Rightarrow> nat multiset \<Rightarrow> bool" for task where
  create: "task_create self_addr task rd errs None = Some p \<Longrightarrow> pr_run task p [] [] {#} {#}"
| attach: "pr_run task p ls fs S C \<Longrightarrow> fresh \<notin> set ls \<union> set fs \<Longrightarrow>
    proactor_attach fresh fd p = Inr ((r, x), p') \<Longrightarrow> pr_run task p' (x # ls) (tl fs) S C"
| detach: "pr_run task p ls fs S C \<Longrightarrow> x \<in> set ls \<Longrightarrow>
    proactor_detach cs fd (Some x) closing p = Inr (q, p') \<Longrightarrow> pr_run task p' (remove1 x ls) (x # fs) S C"
| start: "pr_run task p ls fs S C \<Longrightarrow> x \<in> set ls \<Longrightarrow> kind < op_max \<Longrightarrow> op \<noteq> task \<Longrightarrow>
    proactor_start cs w kind fd (Some x) op nb p = Inr (u, p') \<Longrightarrow> pr_run task p' ls fs (add_mset op S) C"
| cancel: "pr_run task p ls fs S C \<Longrightarrow> x \<in> set ls \<Longrightarrow>
    proactor_cancel_ops cs (Some x) p = Inr (u, p') \<Longrightarrow> pr_run task p' ls fs S C"
| post: "pr_run task p ls fs S C \<Longrightarrow> op \<noteq> task \<Longrightarrow> pr_run task (proactor_post cs op p) ls fs (add_mset op S) C"
| immediate: "pr_run task p ls fs S C \<Longrightarrow> op \<noteq> task \<Longrightarrow>
    pr_run task (proactor_post_immediate cs op p) ls fs (add_mset op S) C"
| event: "pr_run task p ls fs S C \<Longrightarrow> x \<in> set ls \<Longrightarrow> perform_io (tio_ops cs) w events x (st p) = (first, s') \<Longrightarrow>
    pr_run task (p\<lparr>st := s'\<rparr>) ls fs S (C + (case first of None \<Rightarrow> {#} | Some op \<Rightarrow> {#op#}))"
| handle: "pr_run task p ls fs S C \<Longrightarrow> op_que (io (st p)) = op # q \<Longrightarrow> op \<noteq> task \<Longrightarrow>
    pr_run task (p\<lparr>st := upd_io (\<lambda>s. s\<lparr>op_que := q\<rparr>) (st p)\<rparr>) ls fs S (add_mset op C)"
| stop: "pr_run task p ls fs S C \<Longrightarrow> pr_run task (proactor_stop p) ls fs S C"
| reset: "pr_run task p ls fs S C \<Longrightarrow> pr_run task (proactor_reset p) ls fs S C"

end
