(* ===== verification/Proactor_Props.thy ===== *)
theory Proactor_Props
  imports Proactor
begin

text \<open>
  The library from its front to its shutdown: what becomes of every operation between
  \<open>task_create\<close> and \<open>task_join\<close>.
\<close>

section \<open>What the service keeps\<close>

definition svc_same :: "tio \<Rightarrow> tio \<Rightarrow> bool" where
  "svc_same s s' \<longleftrightarrow> one_thread s' = one_thread s \<and> self s' = self s \<and> poller s' = poller s \<and> task_op s' = task_op s
     \<and> destroyed s' = destroyed s \<and> (\<not> one_thread s \<longrightarrow> set (op_que s) \<subseteq> set (op_que s'))"

named_theorems same_intros \<open>operations of the service that keep what svc_same says\<close>

lemma same_refl [same_intros, simp]: "svc_same s s"
  by (simp add: svc_same_def)




lemma same_started [same_intros]: "svc_same s (work_started s)"
  by (simp add: svc_same_def work_started_def)






lemma que_signal_all [simp]: "op_que (signal_all xs s) = op_que s"
  by (induction xs s rule: signal_all.induct) (simp_all add: upd_info_def)

lemma que_stop [simp]: "op_que (stop_all_threads s) = op_que s"
  by (simp add: stop_all_threads_def interrupt_poller_def)

section \<open>What the reactor asks of it\<close>





section \<open>The ledger from create to join\<close>









section \<open>Properties\<close>











end
