(* ===== verification/Leetcode.thy ===== *)
theory Leetcode
  imports Prelude_C "HOL-Library.Signed_Division"
begin

unbundle bit_operations_syntax

text \<open>
  The exercises under \<open>leetcode/1-100\<close>: two sum, adding numbers held as lists of digits, the longest
  substring without a repeated character, the zigzag conversion and the conversion of a string to
  an integer. (The median of two sorted arrays has its own theory, \<open>Median\<close>.) A linked list
  of the sources is a list here; the loops walk it without changing what they have passed.
\<close>

section \<open>Two sum\<close>

text \<open>
  \<open>twoSum\<close>: the pair is searched in a sorted copy, then its positions in the original. The inner
  loop: \<open>Some r\<close> where it stops on the target, \<open>None\<close> where \<open>r\<close> is set to the end.
\<close>

fun find_partner :: "int \<Rightarrow> int \<Rightarrow> int list \<Rightarrow> int option" where
  "find_partner target a [] = None"
| "find_partner target a (r # rs) =
     (if to_i32 (r + a) = target then Some r
      else if to_i32 (r + a) > target then None
      else find_partner target a rs)"

fun find_pair :: "int \<Rightarrow> int list \<Rightarrow> (int \<times> int) option" where
  "find_pair target [] = None"
| "find_pair target (a # rest) =
     (case find_partner target a rest of Some r \<Rightarrow> Some (a, r) | None \<Rightarrow> find_pair target rest)"

text \<open>The last loop: \<open>i\<close> is the position, \<open>j\<close> how many are found, \<open>vec\<close> the result.\<close>

fun find_positions :: "int \<Rightarrow> int \<Rightarrow> nat \<Rightarrow> nat \<Rightarrow> nat list \<Rightarrow> int list \<Rightarrow> nat list" where
  "find_positions a r i j vec [] = vec"
| "find_positions a r i j vec (x # xs) =
     (let (vec1, j1) = (if r = x then (vec[j := i], j + 1) else if a = x then (vec[j := i], j + 1) else (vec, j))
      in if j1 > 1 then vec1 else find_positions a r (i + 1) j1 vec1 xs)"

definition twoSum :: "int list \<Rightarrow> int \<Rightarrow> nat list" where
  "twoSum nums target = (case find_pair target (sort nums) of
      None \<Rightarrow> [0, 0]
    | Some (a, r) \<Rightarrow> find_positions a r 0 0 [0, 0] nums)"

section \<open>Adding two numbers\<close>

text \<open>One round of the loop makes the sum of the digits at hand and the carry.\<close>

definition add_digit :: "int \<Rightarrow> int \<times> int" where
  "add_digit add = (let cflag = add sdiv 10 in (if cflag \<noteq> 0 then add smod 10 else add, cflag))"

fun add_nodes :: "int list \<Rightarrow> int list \<Rightarrow> int \<Rightarrow> int list" where
  "add_nodes (a # l1) (b # l2) cflag =
     (let (v, c) = add_digit (to_i32 (a + b + cflag)) in v # add_nodes l1 l2 c)"
| "add_nodes (a # l1) [] cflag = (let (v, c) = add_digit (to_i32 (a + cflag)) in v # add_nodes l1 [] c)"
| "add_nodes [] (b # l2) cflag = (let (v, c) = add_digit (to_i32 (b + cflag)) in v # add_nodes [] l2 c)"
| "add_nodes [] [] cflag = (if cflag \<noteq> 0 then [cflag] else [])"

definition addTwoNumbers :: "int list \<Rightarrow> int list \<Rightarrow> int list" where
  "addTwoNumbers l1 l2 = add_nodes l1 l2 0"

section \<open>The longest substring without a repeated character\<close>

text \<open>
  Characters are ASCII codes. \<open>szBits\<close> are four words of 32 bits, one bit per code; \<open>pos\<close> is where
  the window begins.
\<close>

type_synonym bits = "32 word list"

definition test_char :: "bits \<Rightarrow> nat \<Rightarrow> bool" where
  "test_char b c \<longleftrightarrow> (b ! (c div 32)) AND push_bit (c mod 32) 1 \<noteq> 0"

definition set_char :: "bits \<Rightarrow> nat \<Rightarrow> bits" where
  "set_char b c = b[c div 32 := (b ! (c div 32)) OR push_bit (c mod 32) 1]"

definition clear_char :: "bits \<Rightarrow> nat \<Rightarrow> bits" where
  "clear_char b c = b[c div 32 := (b ! (c div 32)) AND NOT (push_bit (c mod 32) 1)]"

definition popcount :: "32 word \<Rightarrow> nat" where
  "popcount w = length (filter (bit w) [0..<32])"

text \<open>The inner loop from \<open>j = pos\<close>: the suffix of the string from there is \<open>t\<close>.\<close>

fun clear_to :: "nat \<Rightarrow> nat \<Rightarrow> nat list \<Rightarrow> bits \<Rightarrow> nat \<Rightarrow> nat \<times> bits" where
  "clear_to c j [] b pos = (pos, b)"
| "clear_to c j (x # t) b pos =
     (let b1 = clear_char b x in if x = c then (j + 1, b1) else clear_to c (j + 1) t b1 pos)"

text \<open>One round of the outer loop, at position \<open>i\<close>.\<close>

definition window_step :: "nat list \<Rightarrow> nat \<Rightarrow> nat \<times> bits \<times> nat \<Rightarrow> nat \<times> bits \<times> nat" where
  "window_step s i = (\<lambda>(pos, b, nMaxLen).
     let (pos1, b1) = (if test_char b (s ! i)
                       then if s ! i \<noteq> s ! pos then clear_to (s ! i) pos (drop pos s) b pos else (pos + 1, b)
                       else (pos, b));
         b2 = set_char b1 (s ! i);
         len = popcount (b2 ! 0) + popcount (b2 ! 1) + popcount (b2 ! 2) + popcount (b2 ! 3);
         pos2 = (if len = 0 then i else pos1)
     in (pos2, b2, if nMaxLen < len then len else nMaxLen))"

definition lengthOfLongestSubstring :: "nat list \<Rightarrow> nat" where
  "lengthOfLongestSubstring s =
     (case fold (window_step s) [0..<length s] (0, [0, 0, 0, 0], 0) of (pos, b, nMaxLen) \<Rightarrow> nMaxLen)"

text \<open>
  The C variant keeps the length of the window in \<open>len\<close> instead of counting bits, and stops as soon
  as the rest of the string is too short to help. \<open>len\<close> and \<open>nMaxLen\<close> are of type \<open>size_t\<close>; here they
  are integers, and that \<open>len\<close> is never negative is part of the proof. \<open>bit(31)\<close> passes through an \<open>int\<close>
  without changing its bits.
\<close>

fun clear_to_len :: "nat \<Rightarrow> nat \<Rightarrow> nat list \<Rightarrow> bits \<Rightarrow> nat \<Rightarrow> int \<Rightarrow> nat \<times> bits \<times> int" where
  "clear_to_len c j [] b pos len = (pos, b, len)"
| "clear_to_len c j (x # t) b pos len =
     (let b1 = clear_char b x
      in if x = c then (j + 1, b1, len - (int j - int pos + 1)) else clear_to_len c (j + 1) t b1 pos len)"

fun longest_loop :: "nat list \<Rightarrow> nat list \<Rightarrow> nat \<Rightarrow> bits \<Rightarrow> int \<Rightarrow> int \<Rightarrow> int" where
  "longest_loop s [] pos b nMaxLen len = nMaxLen"
| "longest_loop s (i # is) pos b nMaxLen len =
     (let (pos1, b1, len1) = (if test_char b (s ! i)
                              then if s ! i \<noteq> s ! pos then clear_to_len (s ! i) pos (drop pos s) b pos len
                                   else (pos + 1, b, len)
                              else (pos, b, len));
          len2 = (if \<not> test_char b1 (s ! i) then len1 + 1 else len1);
          b2 = set_char b1 (s ! i);
          nMaxLen1 = (if nMaxLen < len2 then len2 else nMaxLen)
      in if nMaxLen1 \<ge> int (length s) - int i + len2 then nMaxLen1
         else longest_loop s is pos1 b2 nMaxLen1 len2)"

definition lengthOfLongestSubstring_c :: "nat list \<Rightarrow> int" where
  "lengthOfLongestSubstring_c s = longest_loop s [0..<length s] 0 [0, 0, 0, 0] 0 0"

section \<open>The zigzag conversion\<close>

text \<open>
  \<open>convert\<close>: the text is written in a zigzag of \<open>numRows\<close> rows and read row by row. \<open>out\<close> is what is
  written to \<open>array\<close>, so its length is \<open>t\<close>; the first and the last row stop at the end of the text,
  a row in between goes on. Positions are natural numbers: the \<open>int\<close>s of the source stay in range
  as long as \<open>siz\<close> and \<open>2 * numRows\<close> stay below a quarter of it, which the model takes for granted.
\<close>

definition num_cols :: "nat \<Rightarrow> nat \<Rightarrow> nat" where
  "num_cols siz numRows =
     (let p = numRows * 2 - 2 in
      if numRows \<ge> 3 then
        (let tmp = siz mod p in
         2 * (siz div p) + (if tmp > numRows then 2 else if tmp > 0 then 1 else 0))
      else siz div 2 + (if siz mod 2 \<noteq> 0 then 1 else 0))"

fun copy_break :: "'a list \<Rightarrow> nat list \<Rightarrow> 'a list \<Rightarrow> 'a list" where
  "copy_break s [] out = out"
| "copy_break s (k # ks) out = (if k \<ge> length s then out else copy_break s ks (out @ [s ! k]))"

fun copy_continue :: "'a list \<Rightarrow> nat list \<Rightarrow> 'a list \<Rightarrow> 'a list" where
  "copy_continue s [] out = out"
| "copy_continue s (k # ks) out =
     (if length out \<ge> length s then out
      else if k \<ge> length s then copy_continue s ks out
      else copy_continue s ks (out @ [s ! k]))"

definition middle_pos :: "nat \<Rightarrow> nat \<Rightarrow> nat \<Rightarrow> nat" where
  "middle_pos numRows m n =
     (let p = numRows * 2 - 2 in
      if n mod 2 \<noteq> 0 then m + p * (n - 1) div 2 + (numRows - m - 1) * 2 else m + p * (n div 2))"

definition convert :: "'a list \<Rightarrow> int \<Rightarrow> 'a list" where
  "convert s rows =
     (if rows \<le> 1 then s
      else let numRows = nat rows; p = numRows * 2 - 2; numCols = num_cols (length s) numRows;
               out1 = copy_break s (map (\<lambda>n. n * p) [0..<numCols]) [];
               out2 = fold (\<lambda>m out. copy_continue s (map (middle_pos numRows m) [0..<numCols]) out) [1..<numRows - 1] out1
           in copy_break s (map (\<lambda>n. (numRows - 1) + p * n) [0..<numCols]) out2)"

section \<open>String to integer\<close>

text \<open>
  \<open>myAtoi\<close>: \<open>tmp\<close> is unsigned, 32 bits; \<open>d\<close> counts the digits. The characters are codes, the string
  is what is before the zero byte.
\<close>

abbreviation (input) iMax :: "32 word" where "iMax \<equiv> 2147483647"
abbreviation (input) iMin :: "32 word" where "iMin \<equiv> 2147483648"

definition to_int :: "32 word \<Rightarrow> int" where
  "to_int w = to_i32 (uint w)"

fun atoi_loop :: "bool \<Rightarrow> 32 word \<Rightarrow> nat \<Rightarrow> nat list \<Rightarrow> int" where
  "atoi_loop positive tmp d [] = (if \<not> positive then to_i32 (- to_int tmp) else to_int tmp)"
| "atoi_loop positive tmp d (p # ps) =
     (if 48 \<le> p \<and> p \<le> 57 then
        if d \<ge> 9 \<and> positive \<and> tmp > iMax div 10 then 2147483647
        else if d \<ge> 9 \<and> positive \<and> tmp = iMax div 10 \<and> p - 48 > 7 then 2147483647
        else if d \<ge> 9 \<and> positive \<and> tmp = iMax div 10 then to_int (word_of_nat (p - 48) + tmp * 10)
        else if d \<ge> 9 \<and> \<not> positive \<and> tmp > iMin div 10 then - 2147483648
        else if d \<ge> 9 \<and> \<not> positive \<and> tmp = iMin div 10 \<and> p - 48 > 8 then - 2147483648
        else if d \<ge> 9 \<and> \<not> positive \<and> tmp = iMin div 10 then to_i32 (- int p + 48 - to_int tmp * 10)
        else atoi_loop positive (word_of_nat (p - 48) + tmp * 10) (d + 1) ps
      else if \<not> positive then to_i32 (- to_int tmp) else to_int tmp)"

text \<open>What follows the sign: the test of the first character, then the loop.\<close>

definition atoi_digits :: "bool \<Rightarrow> nat list \<Rightarrow> int" where
  "atoi_digits positive rest =
     (case rest of [] \<Rightarrow> 0 | q # qs \<Rightarrow> if q < 48 \<or> q > 57 then 0 else atoi_loop positive 0 0 (q # qs))"

definition myAtoi :: "nat list \<Rightarrow> int" where
  "myAtoi str =
     (case dropWhile (\<lambda>c. c = 32) str of
        [] \<Rightarrow> 0
      | p # ps \<Rightarrow> if p = 45 then atoi_digits False ps
                  else if p = 43 then atoi_digits True ps else atoi_digits True (p # ps))"

end
