(* ===== verification/Leetcode_Props.thy ===== *)
theory Leetcode_Props
  imports Leetcode "HOL-Library.Multiset"
begin

text \<open>
  The exercises against what they are to compute.
\<close>

section \<open>String to integer\<close>

definition dig :: "nat \<Rightarrow> bool" where
  "dig c \<longleftrightarrow> 48 \<le> c \<and> c \<le> 57"

text \<open>The number a prefix of digits stands for, and the nearest \<open>int\<close>.\<close>

fun dec_val :: "nat \<Rightarrow> nat list \<Rightarrow> nat" where
  "dec_val v [] = v"
| "dec_val v (c # cs) = (if dig c then dec_val (10 * v + (c - 48)) cs else v)"

definition clamp_int :: "int \<Rightarrow> int" where
  "clamp_int x = max (- 2147483648) (min 2147483647 x)"

lemma dec_val_mono: "v \<le> dec_val v cs"
proof (induction cs arbitrary: v)
  case (Cons c cs)
  have "10 * v + (c - 48) \<le> dec_val (10 * v + (c - 48)) cs" by (rule Cons.IH)
  then show ?case by simp
qed simp

lemma dec_val_more: "dig c \<Longrightarrow> 10 * v \<le> dec_val v (c # cs)"
  using dec_val_mono [of "10 * v + (c - 48)" cs] by simp

lemma iMax_div: "(iMax div 10) = (214748364 :: 32 word)" and iMin_div: "(iMin div 10) = (214748364 :: 32 word)"
  by simp_all

lemma word_cmp:
  assumes "v < 2147483648"
  shows "(word_of_nat v :: 32 word) > 214748364 \<longleftrightarrow> v > 214748364"
    and "(word_of_nat v :: 32 word) = 214748364 \<longleftrightarrow> v = 214748364"
proof -
  have u: "unat (word_of_nat v :: 32 word) = v" using assms by (simp add: unat_of_nat)
  show "(word_of_nat v :: 32 word) > 214748364 \<longleftrightarrow> v > 214748364"
    by (simp add: word_less_nat_alt u)
  show "(word_of_nat v :: 32 word) = 214748364 \<longleftrightarrow> v = 214748364"
    by (simp add: word_unat_eq_iff u)
qed

lemma to_int_nat: "v < 2147483648 \<Longrightarrow> to_int (word_of_nat v) = int v"
  by (simp add: to_int_def to_i32_nonneg uint_nat unat_of_nat)

lemma to_i32_neg_nat: "v \<le> 2147483648 \<Longrightarrow> to_i32 (- int v) = - int v"
  by (simp add: to_i32_def)

lemma clamp_int_id: "- 2147483648 \<le> x \<Longrightarrow> x \<le> 2147483647 \<Longrightarrow> clamp_int x = x"
  by (simp add: clamp_int_def)

definition signed :: "bool \<Rightarrow> nat \<Rightarrow> int" where
  "signed positive v = (if positive then int v else - int v)"

lemma atoi_loop_step:
  assumes "48 \<le> p" "p \<le> 57" "v \<le> 2147483639" "d < 9 \<or> v < 214748364"
  shows "atoi_loop positive (word_of_nat v) d (p # cs) = atoi_loop positive (word_of_nat (10 * v + (p - 48))) (d + 1) cs"
proof -
  have w: "(word_of_nat (p - 48) :: 32 word) + word_of_nat v * 10 = word_of_nat (10 * v + (p - 48))"
    by (simp only: of_nat_add of_nat_mult of_nat_numeral ac_simps)
  have c: "\<not> (word_of_nat v :: 32 word) > 214748364 \<and> (word_of_nat v :: 32 word) \<noteq> 214748364 \<or> d < 9"
    using word_cmp [of v] assms(3,4) by auto
  show ?thesis
    unfolding atoi_loop.simps w iMax_div iMin_div using assms(1,2) c by (cases "d < 9") simp_all
qed

lemma clamp_big:
  assumes "2147483650 \<le> v"
  shows "clamp_int (signed True v) = 2147483647" and "clamp_int (signed False v) = - 2147483648"
  using assms by (simp_all add: clamp_int_def signed_def)

lemma atoi_loop_val:
  "v \<le> 2147483639 \<Longrightarrow> (d < 9 \<Longrightarrow> v < 10 ^ d) \<Longrightarrow> dec_val v cs < 10 ^ 10 \<Longrightarrow>
     atoi_loop positive (word_of_nat v) d cs = clamp_int (signed positive (dec_val v cs))"
proof (induction cs arbitrary: v d)
  case Nil
  then show ?case by (simp add: to_int_nat to_i32_neg_nat signed_def clamp_int_id)
next
  case (Cons p cs)
  note cmp = word_cmp [of v]
  show ?case
  proof (cases "dig p")
    case False
    then show ?thesis
      using Cons.prems by (auto simp: dig_def to_int_nat to_i32_neg_nat signed_def clamp_int_id)
  next
    case True
    let ?v = "10 * v + (p - 48)"
    have p: "48 \<le> p" "p \<le> 57" using True by (simp_all add: dig_def)
    have val: "dec_val v (p # cs) = dec_val ?v cs" using True by simp
    have ge: "?v \<le> dec_val ?v cs" by (rule dec_val_mono)
    consider (step) "d < 9 \<or> v < 214748364" | (big) "9 \<le> d" "214748364 < v" | (edge) "9 \<le> d" "v = 214748364"
      by linarith
    then show ?thesis
    proof cases
      case step
      have "?v \<le> 2147483639 \<and> (d + 1 < 9 \<longrightarrow> ?v < 10 ^ (d + 1))"
      proof (cases "d < 9")
        case True
        then have "v < 10 ^ d" using Cons.prems(2) by simp
        then have "?v < 10 ^ (d + 1)" using p by simp
        moreover have "(10::nat) ^ (d + 1) \<le> 10 ^ 9" using True by (intro power_increasing) auto
        ultimately show ?thesis by simp
      next
        case False
        with step p show ?thesis by simp
      qed
      then have "atoi_loop positive (word_of_nat ?v) (d + 1) cs = clamp_int (signed positive (dec_val ?v cs))"
        using Cons.IH [of ?v "d + 1"] Cons.prems(3) val by simp
      then show ?thesis
        unfolding val using atoi_loop_step [OF p Cons.prems(1) step] by simp
    next
      case big
      then have "2147483650 \<le> dec_val ?v cs" using ge by simp
      with big p cmp Cons.prems(1) val show ?thesis
        by (cases positive) (simp_all add: iMax_div iMin_div clamp_big)
    next
      case edge
      have stop: "dec_val ?v cs = ?v"
      proof (cases cs)
        case (Cons q qs)
        show ?thesis
        proof (cases "dig q")
          case True
          then have "10 * ?v \<le> dec_val ?v cs" unfolding Cons by (rule dec_val_more)
          with \<open>dec_val v (p # cs) < 10 ^ 10\<close> val edge show ?thesis by simp
        qed (simp add: Cons)
      qed simp
      show ?thesis
      proof (cases positive)
        case True
        have w: "(word_of_nat (p - 48) :: 32 word) + word_of_nat v * 10 = word_of_nat ?v"
          by (simp only: of_nat_add of_nat_mult of_nat_numeral ac_simps)
        have "p - 48 \<le> 7 \<or> p - 48 > 7" by linarith
        then show ?thesis
          unfolding val stop atoi_loop.simps w iMax_div iMin_div
          using True edge p cmp to_int_nat [of ?v] by (auto simp: signed_def clamp_int_def)
      next
        case False
        have "- int p + 48 - to_int (word_of_nat v) * 10 = - int ?v"
          using p edge(2) to_int_nat [of v] by simp
        moreover have "p - 48 \<le> 8 \<or> p - 48 > 8" by linarith
        ultimately show ?thesis
          unfolding val stop atoi_loop.simps iMax_div iMin_div
          using False edge p cmp to_i32_neg_nat [of ?v] by (auto simp: signed_def clamp_int_def)
      qed
    qed
  qed
qed

text \<open>What \<open>myAtoi\<close> is to compute: spaces are skipped, a sign is read, then the digits.\<close>

definition atoi_rest :: "nat list \<Rightarrow> nat list" where
  "atoi_rest str = (case dropWhile (\<lambda>c. c = 32) str of [] \<Rightarrow> [] | p # ps \<Rightarrow> if p = 45 \<or> p = 43 then ps else p # ps)"

definition atoi_neg :: "nat list \<Rightarrow> bool" where
  "atoi_neg str \<longleftrightarrow> (case dropWhile (\<lambda>c. c = 32) str of [] \<Rightarrow> False | p # ps \<Rightarrow> p = 45)"

lemma atoi_digits_val:
  assumes "dec_val 0 t < 10 ^ 10"
  shows "atoi_digits positive t = clamp_int (signed positive (dec_val 0 t))"
proof (cases t)
  case Nil
  then show ?thesis by (simp add: atoi_digits_def signed_def clamp_int_def)
next
  case (Cons q qs)
  then show ?thesis
    using atoi_loop_val [of 0 0 t positive] assms
    by (cases "dig q") (auto simp: atoi_digits_def dig_def signed_def clamp_int_def simp del: atoi_loop.simps)
qed

lemma myAtoi_digits:
  assumes "dec_val 0 (atoi_rest str) < 10 ^ 10"
  shows "myAtoi str = clamp_int (signed (\<not> atoi_neg str) (dec_val 0 (atoi_rest str)))"
proof (cases "dropWhile (\<lambda>c. c = 32) str")
  case Nil
  show ?thesis unfolding myAtoi_def atoi_rest_def Nil by (simp add: signed_def clamp_int_def)
next
  case (Cons p ps)
  show ?thesis
    using assms Cons atoi_digits_val
    by (auto simp: myAtoi_def atoi_rest_def atoi_neg_def simp del: dec_val.simps split: if_splits)
qed

text \<open>
  C38. \<open>myAtoi\<close> gives the number that follows the spaces and the sign, clamped to the range of
  \<open>int\<close>, whenever its digits stand for less than \<open>10 ^ 10\<close> (leading zeros included). With more
  digits it may stop too early: at a tenth digit that still fits it returns without looking at the
  eleventh, so that \<open>"21474836460"\<close> gives 2147483646 and not the largest \<open>int\<close>.
\<close>

theorem myAtoi_clamps:
  assumes "dec_val 0 (atoi_rest str) < 10 ^ 10"
  shows "myAtoi str = clamp_int (signed (\<not> atoi_neg str) (dec_val 0 (atoi_rest str)))
    \<and> myAtoi [50, 49, 52, 55, 52, 56, 51, 54, 52, 54, 48] = 2147483646"
proof
  show "myAtoi str = clamp_int (signed (\<not> atoi_neg str) (dec_val 0 (atoi_rest str)))"
    by (rule myAtoi_digits [OF assms])
  show "myAtoi [50, 49, 52, 55, 52, 56, 51, 54, 52, 54, 48] = 2147483646" by code_simp
qed

text \<open>\<open>"  -2147483649x"\<close>\<close>

lemma myAtoi_clamps_witness:
  "myAtoi [32, 32, 45, 50, 49, 52, 55, 52, 56, 51, 54, 52, 57, 120] = - 2147483648"
  using myAtoi_clamps [of "[32, 32, 45, 50, 49, 52, 55, 52, 56, 51, 54, 52, 57, 120]"]
  by (simp add: atoi_rest_def atoi_neg_def dig_def signed_def clamp_int_def)

section \<open>Adding two numbers\<close>

text \<open>The number that a list of digits stands for, the lowest digit first.\<close>

fun num_val :: "int list \<Rightarrow> int" where
  "num_val [] = 0"
| "num_val (d # ds) = d + 10 * num_val ds"

abbreviation digits :: "int list \<Rightarrow> bool" where
  "digits ds \<equiv> \<forall>d \<in> set ds. 0 \<le> d \<and> d \<le> 9"

lemma add_digit_spec:
  assumes "0 \<le> x" "x \<le> 19"
  shows "add_digit x = (x mod 10, x div 10)"
proof (cases "x = 0")
  case False
  then have "x sdiv 10 = x div 10" "x smod 10 = x mod 10"
    using assms by (simp_all add: signed_divide_int_eq_divide_int signed_modulo_int_eq_modulo_int)
  then show ?thesis using assms by (auto simp: add_digit_def Let_def)
qed (simp add: add_digit_def)

definition adds_to :: "int list \<Rightarrow> int \<Rightarrow> nat \<Rightarrow> bool" where
  "adds_to r v n \<longleftrightarrow> digits r \<and> num_val r = v \<and> length r \<le> n + 1"

lemma adds_to_Cons:
  assumes "adds_to r (v + x div 10) n"
  shows "adds_to (x mod 10 # r) (x + 10 * v) (n + 1)"
  using assms by (auto simp: adds_to_def)

lemma add_step:
  assumes "0 \<le> x" "x \<le> 19"
  shows "add_digit (to_i32 x) = (x mod 10, x div 10)"
  using add_digit_spec [OF assms] assms by (simp add: to_i32_nonneg)

lemma add_nodes_one:
  assumes "digits l" "0 \<le> c" "c \<le> 1"
  shows "adds_to (add_nodes l [] c) (num_val l + c) (length l) \<and> adds_to (add_nodes [] l c) (num_val l + c) (length l)"
  using assms
proof (induction l arbitrary: c)
  case Nil
  then show ?case by (auto simp: adds_to_def)
next
  case (Cons a l)
  have x: "0 \<le> a + c" "a + c \<le> 19" using Cons.prems by auto
  have d: "0 \<le> (a + c) div 10" "(a + c) div 10 \<le> 1" using x by auto
  have "adds_to (add_nodes l [] ((a + c) div 10)) (num_val l + (a + c) div 10) (length l)"
    "adds_to (add_nodes [] l ((a + c) div 10)) (num_val l + (a + c) div 10) (length l)"
    using Cons.IH [OF _ d] Cons.prems by simp_all
  note this [THEN adds_to_Cons]
  then show ?case by (simp add: add_step [OF x] ac_simps)
qed

lemma add_nodes_val:
  assumes "digits l1" "digits l2" "0 \<le> c" "c \<le> 1"
  shows "adds_to (add_nodes l1 l2 c) (num_val l1 + num_val l2 + c) (max (length l1) (length l2))"
  using assms
proof (induction l1 arbitrary: l2 c)
  case Nil
  then show ?case using add_nodes_one [of l2 c] by simp
next
  case (Cons a l1)
  show ?case
  proof (cases l2)
    case Nil
    then show ?thesis using add_nodes_one [of "a # l1" c] Cons.prems by (simp del: add_nodes.simps)
  next
    case l2: (Cons b l2')
    have x: "0 \<le> a + b + c" "a + b + c \<le> 19" using Cons.prems by (auto simp: l2)
    have d: "0 \<le> (a + b + c) div 10" "(a + b + c) div 10 \<le> 1" using x by auto
    have "adds_to (add_nodes l1 l2' ((a + b + c) div 10)) (num_val l1 + num_val l2' + (a + b + c) div 10)
        (max (length l1) (length l2'))"
      using Cons.IH [OF _ _ d] Cons.prems by (simp add: l2)
    note adds_to_Cons [OF this]
    moreover have "add_nodes (a # l1) l2 c = (a + b + c) mod 10 # add_nodes l1 l2' ((a + b + c) div 10)"
      by (simp add: l2 add_step [OF x])
    moreover have "num_val (a # l1) + num_val l2 + c = (a + b + c) + 10 * (num_val l1 + num_val l2')"
      by (simp add: l2)
    ultimately show ?thesis by (simp only: l2 list.size max_Suc_Suc Suc_eq_plus1 max_add_distrib_left add_0)
  qed
qed

text \<open>
  \<open>addTwoNumbers\<close> adds: for two lists of decimal digits, lowest first, the result is a list of
  decimal digits that stands for the sum, at most one longer than the longer of the two; no
  number is too long for it.
\<close>

theorem addTwoNumbers_adds:
  assumes "digits l1" and "digits l2"
  shows "digits (addTwoNumbers l1 l2) \<and> num_val (addTwoNumbers l1 l2) = num_val l1 + num_val l2
    \<and> length (addTwoNumbers l1 l2) \<le> max (length l1) (length l2) + 1"
  using add_nodes_val [OF assms, of 0] by (simp add: addTwoNumbers_def adds_to_def)

lemma addTwoNumbers_adds_witness:
  "addTwoNumbers [2, 4, 3] [5, 6, 4] = [7, 0, 8] \<and> num_val (addTwoNumbers [2, 4, 3] [5, 6, 4]) = 342 + 465"
proof -
  have "addTwoNumbers [2, 4, 3] [5, 6, 4] = [7, 0, 8]" by code_simp
  with addTwoNumbers_adds [of "[2, 4, 3]" "[5, 6, 4]"] show ?thesis by simp
qed

section \<open>Two sum\<close>

definition sums_fit :: "int list \<Rightarrow> bool" where
  "sums_fit xs \<longleftrightarrow> (\<forall>a \<in> set xs. \<forall>b \<in> set xs. in_i32 (a + b))"

lemma find_partner_spec:
  assumes "sorted rs" and "\<And>r. r \<in> set rs \<Longrightarrow> in_i32 (r + a)"
  shows "find_partner t a rs = (if t - a \<in> set rs then Some (t - a) else None)"
  using assms
proof (induction rs)
  case (Cons r rs)
  have e: "to_i32 (r + a) = r + a" using Cons.prems(2) [of r] by (simp add: to_i32_id)
  have IH: "find_partner t a rs = (if t - a \<in> set rs then Some (t - a) else None)"
    using Cons by simp
  have "t - a \<notin> set (r # rs)" if "r + a > t"
    using that Cons.prems(1) by force
  then show ?case using IH e by auto
qed simp

lemma find_pair_spec:
  assumes "sorted xs" "sums_fit xs"
  shows "find_pair t xs = Some (a, r) \<Longrightarrow> a + r = t \<and> {#a, r#} \<subseteq># mset xs"
    and "find_pair t xs = None \<Longrightarrow> i < j \<Longrightarrow> j < length xs \<Longrightarrow> xs ! i + xs ! j \<noteq> t"
proof -
  have "(find_pair t xs = Some (a, r) \<longrightarrow> a + r = t \<and> {#a, r#} \<subseteq># mset xs)
    \<and> (find_pair t xs = None \<longrightarrow> (\<forall>i j. i < j \<and> j < length xs \<longrightarrow> xs ! i + xs ! j \<noteq> t))"
    if "sorted xs" "sums_fit xs" for xs
    using that
  proof (induction xs)
    case (Cons x xs)
    have f: "sums_fit xs" using Cons.prems(2) by (auto simp: sums_fit_def)
    have p: "find_partner t x xs = (if t - x \<in> set xs then Some (t - x) else None)"
      using Cons.prems by (intro find_partner_spec) (auto simp: sums_fit_def)
    show ?case
    proof (cases "t - x \<in> set xs")
      case True
      then show ?thesis using p by auto
    next
      case False
      have "(x # xs) ! i + (x # xs) ! j \<noteq> t" if "\<forall>i j. i < j \<and> j < length xs \<longrightarrow> xs ! i + xs ! j \<noteq> t"
        "i < j" "j < length (x # xs)" for i j
      proof (cases i)
        case 0
        with that have "(x # xs) ! j \<in> set xs" by (cases j) auto
        with False 0 show ?thesis by (metis add.commute add_diff_cancel_right' nth_Cons_0)
      next
        case (Suc k)
        with that show ?thesis by (cases j) auto
      qed
      then show ?thesis using Cons.IH Cons.prems f p False
        by (auto intro: subset_mset.order_trans)
    qed
  qed simp
  from this [OF assms] show "find_pair t xs = Some (a, r) \<Longrightarrow> a + r = t \<and> {#a, r#} \<subseteq># mset xs"
    and "find_pair t xs = None \<Longrightarrow> i < j \<Longrightarrow> j < length xs \<Longrightarrow> xs ! i + xs ! j \<noteq> t" by blast+
qed

text \<open>The positions of the two values.\<close>

fun hits :: "int \<Rightarrow> int \<Rightarrow> nat \<Rightarrow> int list \<Rightarrow> nat list" where
  "hits a r i [] = []"
| "hits a r i (x # xs) = (if x = r \<or> x = a then i # hits a r (i + 1) xs else hits a r (i + 1) xs)"

lemma hits_set: "set (hits a r i xs) = {k. i \<le> k \<and> k < i + length xs \<and> (xs ! (k - i) = r \<or> xs ! (k - i) = a)}"
proof (induction xs arbitrary: i)
  case (Cons x xs)
  have "k \<in> set (hits a r i (x # xs)) \<longleftrightarrow> i \<le> k \<and> k < i + length (x # xs) \<and> ((x # xs) ! (k - i) = r \<or> (x # xs) ! (k - i) = a)" for k
    by (cases "k = i") (auto simp: Cons.IH nth_Cons' Suc_diff_le)
  then show ?case by blast
qed simp

lemma hits_sorted: "sorted (hits a r i xs) \<and> distinct (hits a r i xs)"
proof (induction xs arbitrary: i)
  case (Cons x xs)
  have "\<forall>k \<in> set (hits a r (i + 1) xs). i < k" by (auto simp: hits_set)
  then show ?case using Cons.IH [of "i + 1"] by (auto intro: less_imp_le)
qed simp

lemma positions_second: "hits a r i xs = q # ks \<Longrightarrow> find_positions a r i 1 [p, 0] xs = [p, q]"
  by (induction xs arbitrary: i) (auto simp: Let_def split: if_splits)

lemma positions_first: "hits a r i xs = p # q # ks \<Longrightarrow> find_positions a r i 0 [0, 0] xs = [p, q]"
proof (induction xs arbitrary: i)
  case (Cons x xs)
  then show ?case
    using positions_second [of a r "i + 1" xs q ks p] by (auto simp: Let_def split: if_splits)
qed simp

lemma mset_pair:
  "{#a, b#} \<subseteq># mset xs \<longleftrightarrow> (\<exists>i j. i \<noteq> j \<and> i < length xs \<and> j < length xs \<and> xs ! i = a \<and> xs ! j = b)"
proof
  assume s: "{#a, b#} \<subseteq># mset xs"
  then have "a \<in> set xs" by (metis insert_subset_eq_iff set_mset_mset)
  then obtain us vs where xs: "xs = us @ a # vs" by (meson split_list)
  have "{#b#} \<subseteq># mset (us @ vs)" using s by (simp add: xs insert_subset_eq_iff)
  then have "b \<in> set us \<union> set vs" by simp
  then consider (l) j where "j < length us" "us ! j = b" | (r) j where "j < length vs" "vs ! j = b"
    by (auto simp: in_set_conv_nth)
  then show "\<exists>i j. i \<noteq> j \<and> i < length xs \<and> j < length xs \<and> xs ! i = a \<and> xs ! j = b"
  proof cases
    case l
    then show ?thesis
      by (intro exI [of _ "length us"] exI [of _ j]) (simp add: xs nth_append)
  next
    case r
    then show ?thesis
      by (intro exI [of _ "length us"] exI [of _ "length us + j + 1"]) (simp add: xs nth_append)
  qed
next
  assume "\<exists>i j. i \<noteq> j \<and> i < length xs \<and> j < length xs \<and> xs ! i = a \<and> xs ! j = b"
  then obtain i j where ij: "i \<noteq> j" "i < length xs" "j < length xs" "xs ! i = a" "xs ! j = b" by blast
  have xs: "xs = take i xs @ a # drop (Suc i) xs" using id_take_nth_drop [OF ij(2)] ij(4) by simp
  have "b \<in> set (take i xs) \<union> set (drop (Suc i) xs)"
  proof (cases "j < i")
    case True
    with ij have "take i xs ! j = b" "j < length (take i xs)" by simp_all
    then show ?thesis by (metis UnI1 nth_mem)
  next
    case False
    with ij have "drop (Suc i) xs ! (j - Suc i) = b" "j - Suc i < length (drop (Suc i) xs)" by auto
    then show ?thesis by (metis UnI2 nth_mem)
  qed
  then have "{#b#} \<subseteq># mset (take i xs) + mset (drop (Suc i) xs)" by simp
  moreover have "mset xs = add_mset a (mset (take i xs) + mset (drop (Suc i) xs))"
    using arg_cong [OF xs, of mset] by simp
  ultimately show "{#a, b#} \<subseteq># mset xs" by (simp add: insert_subset_eq_iff)
qed

definition pair_at :: "int list \<Rightarrow> int \<Rightarrow> nat \<Rightarrow> nat \<Rightarrow> bool" where
  "pair_at nums t i j \<longleftrightarrow> i < j \<and> j < length nums \<and> nums ! i + nums ! j = t"

lemma pair_at_any:
  "i \<noteq> j \<Longrightarrow> i < length nums \<Longrightarrow> j < length nums \<Longrightarrow> nums ! i + nums ! j = t \<Longrightarrow> pair_at nums t (min i j) (max i j)"
  by (cases i j rule: linorder_cases) (auto simp: pair_at_def add.commute)

lemma twoSum_some:
  assumes f: "sums_fit nums" and p: "pair_at nums t i j"
    and u: "\<And>k l. pair_at nums t k l \<Longrightarrow> k = i \<and> l = j"
  shows "twoSum nums t = [i, j]"
proof -
  have f': "sums_fit (sort nums)" using f by (simp add: sums_fit_def)
  note sp = find_pair_spec [OF sorted_sort f']
  have "find_pair t (sort nums) \<noteq> None"
  proof
    assume n: "find_pair t (sort nums) = None"
    have "{#nums ! i, nums ! j#} \<subseteq># mset (sort nums)"
    proof -
      have "i \<noteq> j" "i < length nums" "j < length nums" using p by (auto simp: pair_at_def)
      then show ?thesis unfolding mset_sort mset_pair by blast
    qed
    then obtain k l where kl: "k \<noteq> l" "k < length (sort nums)" "l < length (sort nums)"
        "sort nums ! k = nums ! i" "sort nums ! l = nums ! j"
      unfolding mset_pair by blast
    then have "sort nums ! k + sort nums ! l = t" using p by (simp add: pair_at_def)
    then show False using sp(2) [OF n, of k l] sp(2) [OF n, of l k] kl by (cases k l rule: linorder_cases) (simp_all add: add.commute)
  qed
  then obtain a r where ar: "find_pair t (sort nums) = Some (a, r)" by auto
  with sp(1) have s: "a + r = t" "{#a, r#} \<subseteq># mset nums" by auto
  then obtain k l where kl: "k \<noteq> l" "k < length nums" "l < length nums" "nums ! k = a" "nums ! l = r"
    unfolding mset_pair by blast
  have kl': "{k, l} = {i, j}"
    using u [OF pair_at_any [OF kl(1-3)]] kl s(1) by (auto simp: min_def max_def split: if_splits)
  have "n \<in> {i, j}" if "n < length nums" "nums ! n = r \<or> nums ! n = a" for n
  proof (rule ccontr)
    assume "n \<notin> {i, j}"
    then have n: "n \<noteq> k" "n \<noteq> l" using kl' by auto
    have "pair_at nums t (min n l) (max n l) \<or> pair_at nums t (min n k) (max n k)"
      using that kl s(1) n pair_at_any [of n l nums t] pair_at_any [of n k nums t] by (auto simp: add.commute)
    then have "n \<in> {i, j}" using u by (auto simp: min_def max_def split: if_splits)
    with \<open>n \<notin> {i, j}\<close> show False by simp
  qed
  moreover have "i < length nums" "j < length nums" "i < j" using p by (auto simp: pair_at_def)
  moreover have "nums ! n = r \<or> nums ! n = a" if "n \<in> {i, j}" for n using that kl kl' by auto
  ultimately have "set (hits a r 0 nums) = set [i, j]" by (auto simp: hits_set)
  then have "hits a r 0 nums = [i, j]"
    using hits_sorted [of a r 0 nums] \<open>i < j\<close> by (intro sorted_distinct_set_unique) auto
  then show ?thesis using positions_first [of a r 0 nums i j "[]"] by (simp add: twoSum_def ar)
qed

lemma twoSum_none:
  assumes f: "sums_fit nums" and n: "\<And>k l. \<not> pair_at nums t k l"
  shows "twoSum nums t = [0, 0]"
proof (cases "find_pair t (sort nums)")
  case None
  then show ?thesis by (simp add: twoSum_def)
next
  case (Some ar)
  have f': "sums_fit (sort nums)" using f by (simp add: sums_fit_def)
  have s: "fst ar + snd ar = t" "{#fst ar, snd ar#} \<subseteq># mset nums"
    using find_pair_spec(1) [OF sorted_sort f', of t "fst ar" "snd ar"] Some by auto
  from s(2) obtain k l where "k \<noteq> l" "k < length nums" "l < length nums" "nums ! k = fst ar" "nums ! l = snd ar"
    unfolding mset_pair by blast
  with pair_at_any [of k l nums t] s(1) n show ?thesis by simp
qed

text \<open>
  \<open>twoSum\<close>: if no sum of two elements leaves the range of \<open>int\<close> and at most one pair of
  positions adds up to the target, the result is that pair, the smaller position first, and
  \<open>[0, 0]\<close> when there is none; sorting a copy and looking the values up again loses nothing, equal
  values included.
\<close>

theorem twoSum_finds:
  assumes "sums_fit nums"
    and "\<And>k l k' l'. pair_at nums t k l \<Longrightarrow> pair_at nums t k' l' \<Longrightarrow> k = k' \<and> l = l'"
  shows "(\<forall>i j. pair_at nums t i j \<longrightarrow> twoSum nums t = [i, j])
    \<and> ((\<forall>i j. \<not> pair_at nums t i j) \<longrightarrow> twoSum nums t = [0, 0])"
  using twoSum_some [OF assms(1)] twoSum_none [OF assms(1)] assms(2) by blast

lemma twoSum_finds_witness: "twoSum [3, 2, 40, 3] 6 = [0, 3]"
proof -
  have p: "pair_at [3, 2, 40, 3] 6 k l \<longleftrightarrow> k = 0 \<and> l = 3" for k l
    by (auto simp: pair_at_def less_Suc_eq numeral_eq_Suc nth_Cons' split: if_splits)
  have "sums_fit [3, 2, 40, 3]" by (simp add: sums_fit_def in_i32_def)
  from twoSum_finds [OF this, of 6] p show ?thesis by auto
qed

end
