(* ===== verification/Longest_Substring.thy ===== *)
theory Longest_Substring
  imports Leetcode "HOL-Library.Sublist"
begin

text \<open>
  \<open>lengthOfLongestSubstring\<close> against its definition: the invariant of the sliding window and of
  the four words that hold the characters of the window.
\<close>

section \<open>Sets of characters\<close>

definition chars :: "bits \<Rightarrow> nat set" where
  "chars b = {c. c < 128 \<and> test_char b c}"

lemma test_char_bit: "test_char b c \<longleftrightarrow> bit (b ! (c div 32)) (c mod 32)"
  by (simp add: test_char_def bit_iff_and_push_bit_not_eq_0)

lemma test_set_char:
  assumes "length b = 4" "c < 128" "d < 128"
  shows "test_char (set_char b c) d \<longleftrightarrow> d = c \<or> test_char b d"
proof -
  have "c div 32 < 4" using assms(2) by (simp add: less_mult_imp_div_less)
  moreover have "d = c \<longleftrightarrow> d div 32 = c div 32 \<and> d mod 32 = c mod 32" by (metis div_mult_mod_eq)
  moreover have "d mod 32 < 32" "c mod 32 < 32" by simp_all
  ultimately show ?thesis
    using assms(1) by (auto simp: test_char_bit set_char_def nth_list_update bit_or_iff bit_exp_iff)
qed

lemma test_clear_char:
  assumes "length b = 4" "c < 128" "d < 128"
  shows "test_char (clear_char b c) d \<longleftrightarrow> d \<noteq> c \<and> test_char b d"
proof -
  have "c div 32 < 4" using assms(2) by (simp add: less_mult_imp_div_less)
  moreover have "d = c \<longleftrightarrow> d div 32 = c div 32 \<and> d mod 32 = c mod 32" by (metis div_mult_mod_eq)
  moreover have "d mod 32 < 32" "c mod 32 < 32" by simp_all
  ultimately show ?thesis
    using assms(1)
    by (auto simp: test_char_bit clear_char_def nth_list_update bit_and_iff bit_not_iff bit_exp_iff)
qed

lemma chars_set [simp]: "length b = 4 \<Longrightarrow> c < 128 \<Longrightarrow> chars (set_char b c) = insert c (chars b)"
  by (auto simp: chars_def test_set_char)

lemma chars_clear [simp]: "length b = 4 \<Longrightarrow> c < 128 \<Longrightarrow> chars (clear_char b c) = chars b - {c}"
  by (auto simp: chars_def test_clear_char)

lemma length_chars_upd [simp]: "length (set_char b c) = length b" "length (clear_char b c) = length b"
  by (simp_all add: set_char_def clear_char_def)

lemma finite_chars: "finite (chars b)"
  by (simp add: chars_def)

lemma popcount_block:
  assumes "k < 4"
  shows "length (filter (test_char b) [32 * k..<32 * k + 32]) = popcount (b ! k)"
proof -
  have "[32 * k..<32 * k + 32] = map (\<lambda>n. n + 32 * k) [0..<32]" by (simp add: map_add_upt add.commute)
  moreover have "filter (\<lambda>n. test_char b (n + 32 * k)) [0..<32] = filter (bit (b ! k)) [0..<32]"
    by (rule filter_cong) (auto simp: test_char_bit)
  ultimately show ?thesis by (simp add: filter_map comp_def popcount_def)
qed

lemma popcount_chars: "popcount (b ! 0) + popcount (b ! 1) + popcount (b ! 2) + popcount (b ! 3) = card (chars b)"
proof -
  have u: "[0..<128] = [32 * 0..<32 * 0 + 32] @ [32 * 1..<32 * 1 + 32] @ [32 * 2..<32 * 2 + 32] @ [32 * 3..<32 * 3 + (32::nat)]"
    by code_simp
  have "length (filter (test_char b) [0..<128]) = card (chars b)"
    by (simp add: distinct_length_filter chars_def Int_def conj_commute)
  moreover have "length (filter (test_char b) [0..<128])
      = popcount (b ! 0) + popcount (b ! 1) + popcount (b ! 2) + popcount (b ! 3)"
    unfolding u filter_append length_append
    using popcount_block [of 0 b] popcount_block [of 1 b] popcount_block [of 2 b] popcount_block [of 3 b] by simp
  ultimately show ?thesis by simp
qed

section \<open>The window\<close>

text \<open>
  After \<open>i\<close> characters the window begins at \<open>pos\<close>, has no repeated character, cannot be longer, and
  the words hold its characters.
\<close>

definition window :: "nat list \<Rightarrow> nat \<Rightarrow> nat \<Rightarrow> nat list" where
  "window s i pos = drop pos (take i s)"

definition window_ok :: "nat list \<Rightarrow> nat \<Rightarrow> nat \<Rightarrow> bits \<Rightarrow> bool" where
  "window_ok s i pos b \<longleftrightarrow> pos \<le> i \<and> length b = 4 \<and> distinct (window s i pos) \<and> chars b = set (window s i pos)
     \<and> (pos = 0 \<or> s ! (pos - 1) \<in> set (window s i pos))"

lemma window_snoc: "pos \<le> i \<Longrightarrow> i < length s \<Longrightarrow> window s (Suc i) pos = window s i pos @ [s ! i]"
  by (simp add: window_def take_Suc_conv_app_nth)

lemma window_split: "pos \<le> k \<Longrightarrow> k \<le> i \<Longrightarrow> i \<le> length s \<Longrightarrow> window s i pos = take (k - pos) (drop pos s) @ window s i k"
proof -
  assume a: "pos \<le> k" "k \<le> i" "i \<le> length s"
  have "window s i pos = take (k - pos) (window s i pos) @ drop (k - pos) (window s i pos)" by simp
  moreover have "drop (k - pos) (window s i pos) = window s i k" using a by (simp add: window_def)
  moreover have "take (k - pos) (window s i pos) = take (k - pos) (drop pos s)"
    using a by (simp add: window_def drop_take take_take min_def)
  ultimately show ?thesis by simp
qed

text \<open>The clearing loop stops right after the first \<open>c\<close> and takes off what it passed.\<close>

lemma clear_to_spec:
  assumes "c \<notin> set us" "length b = 4" "\<forall>x \<in> set us. x < 128" "c < 128"
  shows "clear_to c j (us @ c # vs) b pos = (j + length us + 1, snd (clear_to c j (us @ c # vs) b pos))
    \<and> length (snd (clear_to c j (us @ c # vs) b pos)) = 4
    \<and> chars (snd (clear_to c j (us @ c # vs) b pos)) = chars b - set (us @ [c])"
  using assms
proof (induction us arbitrary: j b)
  case Nil
  then show ?case by (simp add: Let_def)
next
  case (Cons x us)
  have "x < 128" "x \<noteq> c" using Cons.prems by auto
  with Cons.IH [of "clear_char b x" "Suc j"] Cons.prems show ?case
    by (auto simp: Let_def)
qed

lemma window_step_ok:
  assumes ok: "window_ok s i pos b" and i: "i < length s" and ascii: "\<forall>c \<in> set s. c < 128"
  shows "\<exists>pos' b'. window_step s i (pos, b, m) = (pos', b', max m (length (window s (Suc i) pos')))
    \<and> window_ok s (Suc i) pos' b' \<and> pos \<le> pos'"
proof -
  let ?c = "s ! i" and ?w = "window s i pos"
  have pi: "pos \<le> i" and lb: "length b = 4" and dw: "distinct ?w" and cb: "chars b = set ?w"
    and left: "pos = 0 \<or> s ! (pos - 1) \<in> set ?w" using ok by (auto simp: window_ok_def)
  have c: "?c < 128" using ascii i by simp
  have test: "test_char b ?c \<longleftrightarrow> ?c \<in> set ?w" using cb c by (auto simp: chars_def)
  define r where "r = (if test_char b ?c then if ?c \<noteq> s ! pos then clear_to ?c pos (drop pos s) b pos else (pos + 1, b) else (pos, b))"
  have "\<exists>pos1 b1. r = (pos1, b1) \<and> pos \<le> pos1 \<and> window_ok s (Suc i) pos1 (set_char b1 ?c)"
  proof (cases "?c \<in> set ?w")
    case False
    then have "r = (pos, b)" by (simp add: r_def test)
    moreover have "window_ok s (Suc i) pos (set_char b ?c)"
      using False ok i c by (auto simp: window_ok_def window_snoc)
    ultimately show ?thesis by (intro exI [of _ pos] exI [of _ b]) simp
  next
    case in_w: True
    then have ne: "pos < i" using pi by (cases "pos = i") (auto simp: window_def)
    have w: "?w = s ! pos # window s i (Suc pos)"
      using window_split [of pos "Suc pos" i s] ne i by (simp add: take_Suc_conv_app_nth take_Suc hd_drop_conv_nth)
    show ?thesis
    proof (cases "?c = s ! pos")
      case True
      then have "r = (Suc pos, b)" using in_w test by (simp add: r_def)
      moreover have "window_ok s (Suc i) (Suc pos) (set_char b ?c)"
        using dw ne i c lb cb by (auto simp: window_ok_def window_snoc w True)
      ultimately show ?thesis by (intro exI [of _ "Suc pos"] exI [of _ b]) simp
    next
      case False
      obtain us vs where sp: "?w = us @ ?c # vs" "?c \<notin> set us" using in_w by (meson split_list_first)
      let ?k = "pos + length us"
      have "length ?w = i - pos" using i by (simp add: window_def)
      then have k: "Suc ?k \<le> i" using sp(1) ne by simp
      have "drop pos s = ?w @ drop i s" using pi by (simp add: window_def drop_take) (metis append_take_drop_id drop_drop le_add_diff_inverse2)
      then have d: "drop pos s = us @ ?c # (vs @ drop i s)" using sp(1) by simp
      have us: "\<forall>x \<in> set us. x < 128" using ascii d set_drop_subset [of pos s] by auto
      note cl = clear_to_spec [OF sp(2) lb us c, of pos "vs @ drop i s" pos, folded d]
      have wk: "window s i (Suc ?k) = vs"
        using window_split [of pos "Suc ?k" i s] k i sp(1) d by simp
      have sk: "s ! ?k = ?c"
      proof -
        have "drop pos s ! length us = ?c" by (simp add: d nth_append)
        then show ?thesis using ne i by simp
      qed
      have "r = (Suc ?k, snd (clear_to ?c pos (drop pos s) b pos))"
        using cl in_w False by (simp add: r_def test)
      moreover have "window_ok s (Suc i) (Suc ?k) (set_char (snd (clear_to ?c pos (drop pos s) b pos)) ?c)"
        using cl k i c dw cb sk by (auto simp: window_ok_def window_snoc wk sp(1))
      moreover have "pos \<le> Suc ?k" by simp
      ultimately show ?thesis by blast
    qed
  qed
  then obtain pos1 b1 where r: "r = (pos1, b1)" and le: "pos \<le> pos1" and ok1: "window_ok s (Suc i) pos1 (set_char b1 ?c)" by blast
  have len: "card (chars (set_char b1 ?c)) = length (window s (Suc i) pos1)"
    using ok1 by (simp add: window_ok_def distinct_card)
  have "?c \<in> set (window s (Suc i) pos1)"
  proof -
    have "length b1 = 4" using ok1 by (simp add: window_ok_def)
    then have "chars (set_char b1 ?c) = insert ?c (chars b1)" using c by simp
    then show ?thesis using ok1 by (auto simp: window_ok_def)
  qed
  then have "length (window s (Suc i) pos1) \<noteq> 0" by auto
  then have "window_step s i (pos, b, m) = (pos1, set_char b1 ?c, max m (length (window s (Suc i) pos1)))"
    unfolding window_step_def split_conv r_def [symmetric] r Let_def popcount_chars len by (simp add: max_def)
  with ok1 le show ?thesis by blast
qed

section \<open>The longest one\<close>

lemma suffix_window:
  assumes ok: "window_ok s i pos b" and i: "i \<le> length s" and v: "suffix v (take i s)" "distinct v"
  shows "length v \<le> length (window s i pos)"
proof (rule ccontr)
  assume "\<not> ?thesis"
  then have l: "length v > length (window s i pos)" by simp
  obtain us where us: "take i s = us @ v" using v(1) by (auto simp: suffix_def)
  have pi: "pos \<le> i" using ok by (simp add: window_ok_def)
  have lw: "length (window s i pos) = i - pos" using i by (simp add: window_def)
  have lu: "length us + length v = i" using arg_cong [OF us, of length] i by simp
  with l lw have up: "length us < pos" by linarith
  then have p: "s ! (pos - 1) \<in> set (window s i pos)" using ok by (auto simp: window_ok_def)
  have v_eq: "v = drop (length us) (take i s)" by (simp add: us)
  have "v = window s i (length us)" by (simp add: v_eq window_def)
  also have "\<dots> = take (pos - 1 - length us) (drop (length us) s) @ window s i (pos - 1)"
    using window_split [of "length us" "pos - 1" i s] up pi i by simp
  also have "window s i (pos - 1) = s ! (pos - 1) # window s i pos"
    using window_split [of "pos - 1" pos i s] up pi i by (simp add: take_Suc hd_drop_conv_nth)
  finally have "\<not> distinct v" using p by simp
  with v(2) show False by simp
qed

definition is_longest :: "nat list \<Rightarrow> nat \<Rightarrow> bool" where
  "is_longest s m \<longleftrightarrow> (\<exists>v. sublist v s \<and> distinct v \<and> length v = m) \<and> (\<forall>v. sublist v s \<and> distinct v \<longrightarrow> length v \<le> m)"

lemma longest_step:
  assumes "is_longest (take i s) m" and i: "i < length s" and ok: "window_ok s (Suc i) pos b"
  shows "is_longest (take (Suc i) s) (max m (length (window s (Suc i) pos)))"
proof -
  let ?w = "window s (Suc i) pos"
  have t: "take (Suc i) s = take i s @ [s ! i]" using i by (rule take_Suc_conv_app_nth)
  have w: "sublist ?w (take (Suc i) s)" "distinct ?w" using ok by (simp_all add: window_def window_ok_def)
  obtain v where v: "sublist v (take i s)" "distinct v" "length v = m" using assms(1) by (auto simp: is_longest_def)
  have "sublist v (take (Suc i) s)" using v(1) by (simp add: t sublist_snoc)
  moreover have "length u \<le> max m (length ?w)" if "sublist u (take (Suc i) s)" "distinct u" for u
  proof (cases "sublist u (take i s)")
    case True
    then show ?thesis using assms(1) that(2) by (auto simp: is_longest_def le_max_iff_disj)
  next
    case False
    then have "suffix u (take (Suc i) s)" using that(1) by (simp add: t sublist_snoc)
    then show ?thesis using suffix_window [OF ok _ _ that(2)] i by (simp add: le_max_iff_disj)
  qed
  ultimately show ?thesis unfolding is_longest_def
    using v(2,3) w by (cases "m \<le> length ?w") (auto simp: max_def)
qed

lemma windows_ok:
  assumes ascii: "\<forall>c \<in> set s. c < 128" and "i \<le> length s"
  shows "\<exists>pos b m. fold (window_step s) [0..<i] (0, [0, 0, 0, 0], 0) = (pos, b, m)
    \<and> window_ok s i pos b \<and> is_longest (take i s) m"
  using assms(2)
proof (induction i)
  case 0
  have "window_ok s 0 0 [0, 0, 0, 0]"
  proof -
    have "([0, 0, 0, 0] :: bits) ! k = 0" if "k < 4" for k
      using that by (auto simp: less_Suc_eq numeral_eq_Suc)
    then have "\<not> test_char [0, 0, 0, 0] c" if "c < 128" for c
      using that by (simp add: test_char_bit less_mult_imp_div_less)
    then show ?thesis by (auto simp: window_ok_def window_def chars_def)
  qed
  then show ?case by (simp add: is_longest_def)
next
  case (Suc i)
  then obtain pos b m where IH: "fold (window_step s) [0..<i] (0, [0, 0, 0, 0], 0) = (pos, b, m)"
      "window_ok s i pos b" "is_longest (take i s) m" by auto
  from window_step_ok [OF IH(2) _ ascii, of m] Suc.prems obtain pos' b' where
      st: "window_step s i (pos, b, m) = (pos', b', max m (length (window s (Suc i) pos')))" "window_ok s (Suc i) pos' b'"
    by auto
  have "is_longest (take (Suc i) s) (max m (length (window s (Suc i) pos')))"
    using longest_step [OF IH(3) _ st(2)] Suc.prems by simp
  with IH(1) st show ?case by simp
qed

section \<open>The C variant\<close>

lemma window_length: "i \<le> length s \<Longrightarrow> length (window s i pos) = i - pos"
  by (simp add: window_def)

lemma clear_to_len_spec:
  "clear_to_len c j t b pos len
    = (fst (clear_to c j t b pos), snd (clear_to c j t b pos), len - (int (fst (clear_to c j t b pos)) - int pos))"
  by (induction t arbitrary: j b) (simp_all add: Let_def)

lemma cleared:
  assumes "c \<in> set t" "length b = 4" "\<forall>x \<in> set t. x < 128"
  shows "\<not> test_char (snd (clear_to c j t b pos)) c"
proof -
  obtain us vs where t: "t = us @ c # vs" "c \<notin> set us" using assms(1) by (meson split_list_first)
  have c: "c < 128" and us: "\<forall>x \<in> set us. x < 128" using assms(3) t(1) by auto
  from clear_to_spec [OF t(2) assms(2) us c, of j vs pos] have "c \<notin> chars (snd (clear_to c j t b pos))" by (simp add: t(1))
  then show ?thesis using c by (simp add: chars_def)
qed

lemma clear_to_length: "length (snd (clear_to c j t b pos)) = length b"
  by (induction t arbitrary: j b) (simp_all add: Let_def)

text \<open>One round of the C loop makes the step of the C++ loop, and \<open>len\<close> is the width of the window.\<close>

lemma longest_loop_step:
  assumes ok: "window_ok s i pos b" and i: "i < length s" and ascii: "\<forall>c \<in> set s. c < 128"
    and st: "window_step s i (pos, b, m) = (pos', b', m')" and ok': "window_ok s (Suc i) pos' b'"
  shows "longest_loop s (i # is) pos b (int m) (int i - int pos)
    = (if m' \<ge> length s - i + (Suc i - pos') then int m' else longest_loop s is pos' b' (int m') (int (Suc i) - int pos'))"
proof -
  let ?c = "s ! i"
  have pi: "pos \<le> i" and lb: "length b = 4" using ok by (auto simp: window_ok_def)
  have pi': "pos' \<le> Suc i" using ok' by (simp add: window_ok_def)
  define r where "r = (if test_char b ?c then if ?c \<noteq> s ! pos then clear_to ?c pos (drop pos s) b pos else (pos + 1, b) else (pos, b))"
  define l where "l = (if test_char b ?c then if ?c \<noteq> s ! pos then int i - int (fst r) else int i - int pos else int i - int pos)"
  have rl: "(if test_char b ?c then if ?c \<noteq> s ! pos then clear_to_len ?c pos (drop pos s) b pos (int i - int pos)
      else (pos + 1, b, int i - int pos) else (pos, b, int i - int pos)) = (fst r, snd r, l)"
    by (simp add: r_def l_def clear_to_len_spec)
  have "?c \<in> set (drop pos s)"
  proof -
    have "drop pos s ! (i - pos) = ?c" and "i - pos < length (drop pos s)" using pi i by auto
    then show ?thesis by (metis nth_mem)
  qed
  then have nt: "\<not> test_char (snd (clear_to ?c pos (drop pos s) b pos)) ?c"
    using cleared [OF _ lb] ascii in_set_dropD by metis
  have ne: "card (chars (set_char (snd r) ?c)) \<noteq> 0 \<and> pos' = fst r \<and> b' = set_char (snd r) ?c \<and> m' = max m (Suc i - pos')"
  proof -
    have "length (snd r) = 4" using lb by (simp add: r_def clear_to_length)
    moreover have "?c < 128" using ascii i by simp
    ultimately have "card (chars (set_char (snd r) ?c)) \<noteq> 0" using finite_chars by simp
    moreover from this have w: "pos' = fst r" "b' = set_char (snd r) ?c" "m' = max m (card (chars (set_char (snd r) ?c)))"
      using st unfolding window_step_def split_conv r_def [symmetric] Let_def popcount_chars
      by (auto simp: max_def split: prod.splits if_splits)
    moreover have "card (chars b') = Suc i - pos'"
      using ok' i by (simp add: window_ok_def distinct_card window_length)
    ultimately show ?thesis by simp
  qed
  have "l + (if \<not> test_char (snd r) ?c then 1 else 0) = int (Suc i) - int pos'"
    using ne nt by (auto simp: l_def r_def)
  then have l2: "(if \<not> test_char (snd r) ?c then l + 1 else l) = int (Suc i) - int pos'" by (auto split: if_splits)
  have mm: "(if int m < int (Suc i) - int pos' then int (Suc i) - int pos' else int m) = int m'"
    using ne pi' by (auto simp: max_def)
  show ?thesis
    unfolding longest_loop.simps rl Let_def split_conv l2 mm using ne i pi' by auto
qed

text \<open>What is left is too short: the remaining rounds change nothing.\<close>

lemma rest_too_short:
  assumes "window_ok s i pos b" "i \<le> length s" "length s \<le> pos + m" and ascii: "\<forall>c \<in> set s. c < 128"
  shows "snd (snd (fold (window_step s) [i..<length s] (pos, b, m))) = m"
  using assms(1-3)
proof (induction "length s - i" arbitrary: i pos b)
  case (Suc d)
  then have i: "i < length s" by simp
  from window_step_ok [OF Suc.prems(1) i ascii, of m] obtain pos' b' where
      st: "window_step s i (pos, b, m) = (pos', b', max m (length (window s (Suc i) pos')))"
      "window_ok s (Suc i) pos' b'" "pos \<le> pos'" by blast
  have "max m (length (window s (Suc i) pos')) = m" using Suc.prems(3) st(3) i by (simp add: window_length)
  then show ?case using Suc.hyps(1) [of "Suc i" pos' b'] Suc.hyps(2) Suc.prems(3) st i
    by (simp add: upt_conv_Cons)
qed simp

lemma longest_loop_fold:
  assumes "window_ok s i pos b" "i \<le> length s" and ascii: "\<forall>c \<in> set s. c < 128"
  shows "longest_loop s [i..<length s] pos b (int m) (int i - int pos)
    = int (snd (snd (fold (window_step s) [i..<length s] (pos, b, m))))"
  using assms(1,2)
proof (induction "length s - i" arbitrary: i pos b m)
  case (Suc d)
  then have i: "i < length s" by simp
  from window_step_ok [OF Suc.prems(1) i ascii, of m] obtain pos' b' where
      st: "window_step s i (pos, b, m) = (pos', b', max m (length (window s (Suc i) pos')))"
      "window_ok s (Suc i) pos' b'" by blast
  let ?m = "max m (length (window s (Suc i) pos'))"
  have u: "[i..<length s] = i # [Suc i..<length s]" using i by (simp add: upt_conv_Cons)
  note step = longest_loop_step [OF Suc.prems(1) i ascii st, of "[Suc i..<length s]"]
  show ?case
  proof (cases "?m \<ge> length s - i + (Suc i - pos')")
    case True
    have "snd (snd (fold (window_step s) [Suc i..<length s] (pos', b', ?m))) = ?m"
      by (rule rest_too_short [OF st(2) _ _ ascii]) (use True i in auto)
    then show ?thesis using True step by (simp add: u st(1))
  next
    case False
    then show ?thesis using Suc.hyps(1) [of "Suc i" pos' b' ?m] Suc.hyps(2) st i step by (simp add: u)
  qed
qed simp

lemma c_variant:
  assumes ascii: "\<forall>c \<in> set s. c < 128"
  shows "lengthOfLongestSubstring_c s = int (lengthOfLongestSubstring s)"
proof -
  have "window_ok s 0 0 [0, 0, 0, 0]" using windows_ok [OF ascii, of 0] by simp
  from longest_loop_fold [OF this _ ascii, of 0] show ?thesis
    by (simp add: lengthOfLongestSubstring_c_def lengthOfLongestSubstring_def case_prod_unfold)
qed

text \<open>
  C39. \<open>lengthOfLongestSubstring\<close> is right on every string of ASCII characters: there is a
  contiguous part of the string without a repeated character of that length, and none is longer. The
  C variant, which keeps a length instead of counting bits and stops early, gives the same number.
\<close>

theorem lengthOfLongestSubstring_longest:
  assumes "\<forall>c \<in> set s. c < 128"
  shows "(\<exists>v. sublist v s \<and> distinct v \<and> length v = lengthOfLongestSubstring s)
    \<and> (\<forall>v. sublist v s \<and> distinct v \<longrightarrow> length v \<le> lengthOfLongestSubstring s)
    \<and> lengthOfLongestSubstring_c s = int (lengthOfLongestSubstring s)"
  using windows_ok [OF assms, of "length s"] c_variant [OF assms]
  by (auto simp: lengthOfLongestSubstring_def is_longest_def)

text \<open>\<open>"pwwkew"\<close>\<close>

lemma lengthOfLongestSubstring_longest_witness:
  "(\<exists>v. sublist v [112, 119, 119, 107, 101, 119 :: nat] \<and> distinct v \<and> length v = 3)
    \<and> lengthOfLongestSubstring_c [112, 119, 119, 107, 101, 119] = 3"
proof -
  have "lengthOfLongestSubstring [112, 119, 119, 107, 101, 119] = 3" by code_simp
  with lengthOfLongestSubstring_longest [of "[112, 119, 119, 107, 101, 119]"] show ?thesis by simp
qed

end
