(* ===== verification/Zigzag.thy ===== *)
theory Zigzag
  imports Leetcode
begin

text \<open>
  \<open>convert\<close> against the zigzag itself: the row in which a position of the text lies.
\<close>

section \<open>Copying\<close>



section \<open>The zigzag\<close>












section \<open>The rows between\<close>






section \<open>All rows\<close>









end
