(* ===== verification/Monitor.thy ===== *)
theory Monitor
  imports Prelude_C
begin

text \<open>
  \<open>deviceagent/2deviceagent/utils\<close>: \<open>mutex.hpp\<close> (\<open>posix_mutex\<close>, \<open>scoped_lock\<close>) and \<open>event.hpp\<close>
  (\<open>posix_event\<close>), which the service uses to put its threads to sleep. Any number of threads share
  one mutex and one event; each has at most one \<open>scoped_lock\<close> on the mutex. The threads
  library is modelled as documented: waiting on a condition releases the mutex and blocks in one step, a
  signal wakes one of the waiting threads if there is one, a waiting thread may wake without a signal, and one that is
  woken must take the mutex again before it goes on.
\<close>

section \<open>State\<close>

text \<open>
  Where a thread is: without a \<open>scoped_lock\<close>, with one and in none of the functions below, blocked in
  \<open>pthread_cond_wait\<close>, woken and waiting for the mutex, back from it and about to test
  \<open>signalled_\<close>, or in \<open>signal_and_unlock\<close> before its last line.
\<close>

datatype mpc = Free | Active | Waiting | Woken | Testing | Signalling

record mon =
  owner :: "nat option"
  locked :: "nat \<Rightarrow> bool"
  signalled_flag :: bool
  mpc_of :: "nat \<Rightarrow> mpc"

definition mgoto :: "nat \<Rightarrow> mpc \<Rightarrow> mon \<Rightarrow> mon" where
  "mgoto t p s = s\<lparr>mpc_of := (mpc_of s)(t := p)\<rparr>"

section \<open>The mutex and the scoped lock\<close>

text \<open>\<open>None\<close>: the call blocks.\<close>

definition mutex_lock :: "nat \<Rightarrow> mon \<Rightarrow> mon option" where
  "mutex_lock t s = (if owner s = None then Some (s\<lparr>owner := Some t\<rparr>) else None)"

definition mutex_unlock :: "mon \<Rightarrow> mon" where
  "mutex_unlock s = s\<lparr>owner := None\<rparr>"

definition set_locked :: "nat \<Rightarrow> bool \<Rightarrow> mon \<Rightarrow> mon" where
  "set_locked t b s = s\<lparr>locked := (locked s)(t := b)\<rparr>"

definition sl_construct :: "nat \<Rightarrow> mon \<Rightarrow> mon option" where
  "sl_construct t s = map_option (set_locked t True) (mutex_lock t s)"

definition sl_destroy :: "nat \<Rightarrow> mon \<Rightarrow> mon" where
  "sl_destroy t s = (if locked s t then mutex_unlock s else s)"

definition sl_lock :: "nat \<Rightarrow> mon \<Rightarrow> mon option" where
  "sl_lock t s = (if \<not> locked s t then map_option (set_locked t True) (mutex_lock t s) else Some s)"

definition sl_unlock :: "nat \<Rightarrow> mon \<Rightarrow> mon" where
  "sl_unlock t s = (if locked s t then set_locked t False (mutex_unlock s) else s)"

section \<open>The event\<close>

text \<open>\<open>pthread_cond_signal\<close>: the states it can lead to.\<close>

inductive cond_signal :: "mon \<Rightarrow> mon \<Rightarrow> bool" where
  Wake: "mpc_of s u = Waiting \<Longrightarrow> cond_signal s (mgoto u Woken s)"
| Nobody: "\<forall>u. mpc_of s u \<noteq> Waiting \<Longrightarrow> cond_signal s s"

definition set_signalled :: "bool \<Rightarrow> mon \<Rightarrow> mon" where
  "set_signalled b s = s\<lparr>signalled_flag := b\<rparr>"

text \<open>\<open>signal_and_unlock\<close> up to its last line, which is the call of \<open>pthread_cond_signal\<close>.\<close>

definition signal_and_unlock_begin :: "nat \<Rightarrow> mon \<Rightarrow> mon" where
  "signal_and_unlock_begin t s = mgoto t Signalling (sl_unlock t (set_signalled True s))"

text \<open>
  The test of the loop of \<open>wait\<close>, on entry and after every wake-up: go on, or release the mutex and block.
\<close>

definition wait_test :: "nat \<Rightarrow> mon \<Rightarrow> mon" where
  "wait_test t s = (if signalled_flag s then mgoto t Active s else mgoto t Waiting (mutex_unlock s))"

section \<open>Threads\<close>

text \<open>
  The functions of the event are called with the mutex held: the sources call \<open>lock.locked()\<close> there but do not look at the
  answer, so this is a premise.
\<close>

inductive mon_step :: "mon \<Rightarrow> mon \<Rightarrow> bool" where
  Construct: "mpc_of s t = Free \<Longrightarrow> sl_construct t s = Some s' \<Longrightarrow> mon_step s (mgoto t Active s')"
| Destroy: "mpc_of s t = Active \<Longrightarrow> mon_step s (mgoto t Free (sl_destroy t s))"
| Lock: "mpc_of s t = Active \<Longrightarrow> sl_lock t s = Some s' \<Longrightarrow> mon_step s s'"
| Unlock: "mpc_of s t = Active \<Longrightarrow> mon_step s (sl_unlock t s)"
| Clear: "mpc_of s t = Active \<Longrightarrow> locked s t \<Longrightarrow> mon_step s (set_signalled False s)"
| Signal: "mpc_of s t = Active \<Longrightarrow> locked s t \<Longrightarrow> cond_signal (set_signalled True s) s' \<Longrightarrow> mon_step s s'"
| Signal_Unlock: "mpc_of s t = Active \<Longrightarrow> locked s t \<Longrightarrow> mon_step s (signal_and_unlock_begin t s)"
| Signal_After: "mpc_of s t = Signalling \<Longrightarrow> cond_signal s s' \<Longrightarrow> mon_step s (mgoto t Active s')"
| Wait: "mpc_of s t = Active \<Longrightarrow> locked s t \<Longrightarrow> mon_step s (wait_test t s)"
| Spurious: "mpc_of s t = Waiting \<Longrightarrow> mon_step s (mgoto t Woken s)"
| Reacquire: "mpc_of s t = Woken \<Longrightarrow> mutex_lock t s = Some s' \<Longrightarrow> mon_step s (mgoto t Testing s')"
| Test: "mpc_of s t = Testing \<Longrightarrow> mon_step s (wait_test t s)"

text \<open>The constructor of \<open>posix_event\<close> leaves \<open>signalled_\<close> as it is in memory.\<close>

definition mon_init :: "bool \<Rightarrow> mon" where
  "mon_init garbage = \<lparr>owner = None, locked = (\<lambda>_. False), signalled_flag = garbage, mpc_of = (\<lambda>_. Free)\<rparr>"

inductive mon_reach :: "mon \<Rightarrow> bool" where
  Init: "mon_reach (mon_init garbage)"
| Step: "mon_reach s \<Longrightarrow> mon_step s s' \<Longrightarrow> mon_reach s'"

end
