(* ===== verification/Monitor_Props.thy ===== *)
theory Monitor_Props
  imports Monitor
begin

text \<open>
  The mutex and the event of the threads library, spurious wake-ups and the gap in \<open>signal_and_unlock\<close>
  included, implement the abstract monitor that the model of the service takes for granted; a lone waiting
  thread is not forgotten.
\<close>

section \<open>The invariant\<close>

definition inside :: "mon \<Rightarrow> nat \<Rightarrow> bool" where
  "inside s t \<longleftrightarrow> mpc_of s t = Active \<and> locked s t"

definition in_wait :: "mon \<Rightarrow> nat \<Rightarrow> bool" where
  "in_wait s t \<longleftrightarrow> mpc_of s t \<in> {Waiting, Woken, Testing}"

definition mon_inv :: "mon \<Rightarrow> bool" where
  "mon_inv s \<longleftrightarrow> (\<forall>t. owner s = Some t \<longleftrightarrow> inside s t \<or> mpc_of s t = Testing)
     \<and> (\<forall>t. in_wait s t \<longrightarrow> locked s t) \<and> (\<forall>t. mpc_of s t = Signalling \<longrightarrow> \<not> locked s t)"

lemmas mon_ops = mgoto_def mutex_lock_def mutex_unlock_def set_locked_def sl_construct_def sl_destroy_def sl_lock_def
  sl_unlock_def set_signalled_def signal_and_unlock_begin_def wait_test_def

lemmas mon_defs = mon_inv_def inside_def in_wait_def

lemma cond_signal_inv: "cond_signal s s' \<Longrightarrow> mon_inv s \<Longrightarrow> mon_inv s'"
  by (induction rule: cond_signal.induct) (auto simp: mon_defs mgoto_def)

lemma cond_signal_other:
  "cond_signal s s' \<Longrightarrow> mpc_of s t \<noteq> Waiting \<Longrightarrow> mpc_of s' t = mpc_of s t"
  "cond_signal s s' \<Longrightarrow> locked s' = locked s \<and> owner s' = owner s \<and> signalled_flag s' = signalled_flag s"
  by (auto elim!: cond_signal.cases simp: mgoto_def)

lemma mon_step_inv: "mon_step s s' \<Longrightarrow> mon_inv s \<Longrightarrow> mon_inv s'"
proof (induction rule: mon_step.induct)
  case (Signal s t s')
  have "mon_inv (set_signalled True s)" using Signal(4) by (simp add: mon_defs set_signalled_def)
  then show ?case using Signal(3) cond_signal_inv by blast
next
  case (Signal_After s t s')
  have i: "mon_inv s'" using Signal_After(2,3) cond_signal_inv by blast
  have "mpc_of s' t = Signalling" using cond_signal_other(1) [OF Signal_After(2), of t] Signal_After(1) by simp
  with i show ?case by (auto simp: mon_defs mgoto_def)
qed (auto simp: mon_defs mon_ops split: if_splits, (metis option.inject mpc.distinct)+)

lemma mon_reach_inv: "mon_reach s \<Longrightarrow> mon_inv s"
proof (induction rule: mon_reach.induct)
  case (Init garbage)
  then show ?case by (simp add: mon_defs mon_init_def)
next
  case (Step s s')
  then show ?case using mon_step_inv by blast
qed

section \<open>The abstract monitor\<close>

text \<open>
  A thread is outside, inside, or waits for the flag; one that waits comes back inside only when the flag is
  set and nobody is inside.
\<close>

datatype apc = AOut | AIn | AWait

record amon =
  aflag :: bool
  apc_of :: "nat \<Rightarrow> apc"

definition free_mon :: "amon \<Rightarrow> bool" where
  "free_mon m \<longleftrightarrow> (\<forall>u. apc_of m u \<noteq> AIn)"

definition agoto :: "nat \<Rightarrow> apc \<Rightarrow> amon \<Rightarrow> amon" where
  "agoto t p m = m\<lparr>apc_of := (apc_of m)(t := p)\<rparr>"

inductive astep :: "amon \<Rightarrow> amon \<Rightarrow> bool" where
  Enter: "apc_of m t = AOut \<Longrightarrow> free_mon m \<Longrightarrow> astep m (agoto t AIn m)"
| Leave: "apc_of m t = AIn \<Longrightarrow> astep m (agoto t AOut m)"
| Set: "apc_of m t = AIn \<Longrightarrow> astep m (m\<lparr>aflag := b\<rparr>)"
| Set_Leave: "apc_of m t = AIn \<Longrightarrow> astep m (agoto t AOut (m\<lparr>aflag := True\<rparr>))"
| Block: "apc_of m t = AIn \<Longrightarrow> \<not> aflag m \<Longrightarrow> astep m (agoto t AWait m)"
| Resume: "apc_of m t = AWait \<Longrightarrow> aflag m \<Longrightarrow> free_mon m \<Longrightarrow> astep m (agoto t AIn m)"

definition mabs :: "mon \<Rightarrow> amon" where
  "mabs s = \<lparr>aflag = signalled_flag s, apc_of = (\<lambda>t. if inside s t then AIn else if in_wait s t then AWait else AOut)\<rparr>"

lemma amon_eqI: "aflag m = aflag m' \<Longrightarrow> (\<And>t. apc_of m t = apc_of m' t) \<Longrightarrow> m = (m' :: amon)"
  by (cases m; cases m') auto

lemma mabs_cond_signal: "cond_signal s s' \<Longrightarrow> mabs s' = mabs s"
  by (auto elim!: cond_signal.cases intro!: amon_eqI simp: mabs_def inside_def in_wait_def mgoto_def)

lemma free_when_unowned: "mon_inv s \<Longrightarrow> owner s = None \<Longrightarrow> free_mon (mabs s)"
  by (auto simp: mon_inv_def free_mon_def mabs_def)

lemma refine_one:
  assumes "mon_step s s'" "mon_inv s"
  shows "mabs s' = mabs s \<or> astep (mabs s) (mabs s')"
  using assms
proof (induction rule: mon_step.induct)
  case (Construct s t s')
  then have "owner s = None" and e: "mabs (mgoto t Active s') = agoto t AIn (mabs s)"
    by (auto intro!: amon_eqI simp: mabs_def agoto_def inside_def in_wait_def mon_ops split: if_splits)
  moreover have "apc_of (mabs s) t = AOut" using Construct(1) by (simp add: mabs_def inside_def in_wait_def)
  ultimately show ?case using astep.Enter [of "mabs s" t] free_when_unowned Construct(3) by simp
next
  case (Destroy s t)
  show ?case
  proof (cases "locked s t")
    case True
    then have "mabs (mgoto t Free (sl_destroy t s)) = agoto t AOut (mabs s)" and "apc_of (mabs s) t = AIn"
      using Destroy(1) by (auto intro!: amon_eqI simp: mabs_def agoto_def inside_def in_wait_def mon_ops)
    then show ?thesis using astep.Leave by metis
  next
    case False
    then have "mabs (mgoto t Free (sl_destroy t s)) = mabs s"
      using Destroy(1) by (auto intro!: amon_eqI simp: mabs_def inside_def in_wait_def mon_ops)
    then show ?thesis by simp
  qed
next
  case (Lock s t s')
  show ?case
  proof (cases "locked s t")
    case False
    then have "owner s = None" and e: "mabs s' = agoto t AIn (mabs s)" and "apc_of (mabs s) t = AOut"
      using Lock(1,2) by (auto intro!: amon_eqI simp: mabs_def agoto_def inside_def in_wait_def mon_ops split: if_splits)
    then show ?thesis using astep.Enter [of "mabs s" t] free_when_unowned Lock(3) by simp
  qed (use Lock in \<open>simp add: sl_lock_def\<close>)
next
  case (Unlock s t)
  show ?case
  proof (cases "locked s t")
    case True
    then have "mabs (sl_unlock t s) = agoto t AOut (mabs s)" and "apc_of (mabs s) t = AIn"
      using Unlock(1) by (auto intro!: amon_eqI simp: mabs_def agoto_def inside_def in_wait_def mon_ops)
    then show ?thesis using astep.Leave by metis
  qed (simp add: sl_unlock_def)
next
  case (Clear s t)
  then have "mabs (set_signalled False s) = (mabs s)\<lparr>aflag := False\<rparr>" and "apc_of (mabs s) t = AIn"
    by (auto intro!: amon_eqI simp: mabs_def inside_def in_wait_def mon_ops)
  then show ?case using astep.Set by metis
next
  case (Signal s t s')
  have "mabs s' = mabs (set_signalled True s)" using Signal(3) by (rule mabs_cond_signal)
  also have "\<dots> = (mabs s)\<lparr>aflag := True\<rparr>" by (auto intro!: amon_eqI simp: mabs_def inside_def in_wait_def mon_ops)
  finally have "mabs s' = (mabs s)\<lparr>aflag := True\<rparr>" .
  moreover have "apc_of (mabs s) t = AIn" using Signal(1,2) by (simp add: mabs_def inside_def)
  ultimately show ?case using astep.Set by metis
next
  case (Signal_Unlock s t)
  then have "mabs (signal_and_unlock_begin t s) = agoto t AOut ((mabs s)\<lparr>aflag := True\<rparr>)" and "apc_of (mabs s) t = AIn"
    by (auto intro!: amon_eqI simp: mabs_def agoto_def inside_def in_wait_def mon_ops)
  then show ?case using astep.Set_Leave by metis
next
  case (Signal_After s t s')
  have nl: "\<not> locked s' t" and w: "mpc_of s' t = Signalling"
    using Signal_After cond_signal_other [OF Signal_After(2)] by (auto simp: mon_inv_def)
  then have "mabs (mgoto t Active s') = mabs s'"
    by (auto intro!: amon_eqI simp: mabs_def inside_def in_wait_def mon_ops)
  then show ?case using mabs_cond_signal [OF Signal_After(2)] by simp
next
  case (Wait s t)
  show ?case
  proof (cases "signalled_flag s")
    case True
    then have "mabs (wait_test t s) = mabs s" using Wait by (auto intro!: amon_eqI simp: mabs_def inside_def in_wait_def mon_ops)
    then show ?thesis by simp
  next
    case False
    then have "mabs (wait_test t s) = agoto t AWait (mabs s)" and "apc_of (mabs s) t = AIn" and "\<not> aflag (mabs s)"
      using Wait by (auto intro!: amon_eqI simp: mabs_def agoto_def inside_def in_wait_def mon_ops)
    then show ?thesis using astep.Block by metis
  qed
next
  case (Spurious s t)
  then show ?case by (auto intro!: amon_eqI simp: mabs_def inside_def in_wait_def mon_ops)
next
  case (Reacquire s t s')
  then show ?case by (auto intro!: amon_eqI simp: mabs_def inside_def in_wait_def mon_ops split: if_splits)
next
  case (Test s t)
  show ?case
  proof (cases "signalled_flag s")
    case True
    have l: "locked s t" using Test by (simp add: mon_inv_def in_wait_def)
    have ow: "owner s = Some t" using Test by (simp add: mon_inv_def)
    have "free_mon (mabs s)"
    proof -
      have "\<not> inside s u" for u
      proof
        assume "inside s u"
        then have "owner s = Some u" and "mpc_of s u = Active" using Test(2) by (simp_all add: mon_inv_def inside_def)
        then show False using ow Test(1) by simp
      qed
      then show ?thesis by (simp add: free_mon_def mabs_def)
    qed
    moreover have "mabs (wait_test t s) = agoto t AIn (mabs s)"
      using True l by (auto intro!: amon_eqI simp: mabs_def agoto_def inside_def in_wait_def mon_ops)
    moreover have "apc_of (mabs s) t = AWait" "aflag (mabs s)" using Test(1) True by (simp_all add: mabs_def inside_def in_wait_def)
    ultimately show ?thesis using astep.Resume by metis
  next
    case False
    then have "mabs (wait_test t s) = mabs s"
      using Test(1) by (auto intro!: amon_eqI simp: mabs_def inside_def in_wait_def mon_ops)
    then show ?thesis by simp
  qed
qed

text \<open>
  C3. The mutex and the event as they are built on the threads library implement the abstract monitor: at most
  one thread is between a lock and its unlock, and every step (blocking and waking in two parts, a wake-up
  without a signal, the gap between the unlock and the signal in \<open>signal_and_unlock\<close>) is a step
  of the abstract monitor or none, so a thread comes back from \<open>wait\<close> only when the event is signalled
  and with the mutex held by it alone.
\<close>

theorem monitor_refines:
  assumes "mon_reach s" and "mon_step s s'"
  shows "(mabs s' = mabs s \<or> astep (mabs s) (mabs s'))
    \<and> (\<forall>t u. inside s t \<and> inside s u \<longrightarrow> t = u)"
proof
  have inv: "mon_inv s" using mon_reach_inv [OF assms(1)] .
  show "mabs s' = mabs s \<or> astep (mabs s) (mabs s')" using refine_one [OF assms(2) inv] .
  show "\<forall>t u. inside s t \<and> inside s u \<longrightarrow> t = u" using inv by (metis mon_inv_def option.inject)
qed

text \<open>Thread 7 has taken the lock and finds the event not signalled.\<close>

lemma construct_init: "mon_step (mon_init g) (mgoto 7 Active (set_locked 7 True ((mon_init g)\<lparr>owner := Some 7\<rparr>)))"
  by (intro mon_step.Construct) (simp_all add: mon_init_def sl_construct_def mutex_lock_def)

lemma monitor_refines_witness:
  "case mgoto 7 Active (set_locked 7 True ((mon_init False)\<lparr>owner := Some 7\<rparr>)) of s \<Rightarrow>
     mon_reach s \<and> inside s 7 \<and> mpc_of (wait_test 7 s) 7 = Waiting \<and> astep (mabs s) (mabs (wait_test 7 s))"
proof -
  let ?s = "mgoto 7 Active (set_locked 7 True ((mon_init False)\<lparr>owner := Some 7\<rparr>))"
  have r: "mon_reach ?s" using mon_reach.Step [OF mon_reach.Init construct_init] .
  have i: "inside ?s 7" by (simp add: inside_def mgoto_def set_locked_def)
  have w: "mpc_of (wait_test 7 ?s) 7 = Waiting" by (simp add: wait_test_def mgoto_def set_locked_def mon_init_def)
  have "mon_step ?s (wait_test 7 ?s)" by (intro mon_step.Wait) (simp_all add: mgoto_def set_locked_def)
  then have "mabs (wait_test 7 ?s) = mabs ?s \<or> astep (mabs ?s) (mabs (wait_test 7 ?s))" using monitor_refines [OF r] by blast
  moreover have "apc_of (mabs (wait_test 7 ?s)) 7 \<noteq> apc_of (mabs ?s) 7" using w i by (simp add: mabs_def inside_def)
  ultimately show ?thesis using r i w by auto
qed

section \<open>A lone waiting thread is not forgotten\<close>

text \<open>Runs in which at most one thread at a time waits for the event, as for the events of the service.\<close>

definition lone :: "mon \<Rightarrow> bool" where
  "lone s \<longleftrightarrow> (\<forall>t u. in_wait s t \<and> in_wait s u \<longrightarrow> t = u)"

inductive lone_reach :: "mon \<Rightarrow> bool" where
  Init: "lone_reach (mon_init garbage)"
| Step: "lone_reach s \<Longrightarrow> mon_step s s' \<Longrightarrow> lone s' \<Longrightarrow> lone_reach s'"

definition awaited :: "mon \<Rightarrow> bool" where
  "awaited s \<longleftrightarrow> (signalled_flag s \<longrightarrow> (\<forall>u. mpc_of s u = Waiting \<longrightarrow> (\<exists>t. mpc_of s t = Signalling)))"

lemma cond_signal_lone:
  assumes "cond_signal s s'" "lone s'" "mpc_of s' u = Waiting"
  shows False
  using assms(1)
proof cases
  case (Wake v)
  then have "v \<noteq> u" "in_wait s' v" "in_wait s' u" using assms(3) by (auto simp: in_wait_def mgoto_def)
  then show False using assms(2) by (auto simp: lone_def)
qed (use assms(3) in auto)

lemma awaited_mono:
  assumes "awaited s" "signalled_flag s' = signalled_flag s"
    and "\<And>u. mpc_of s' u = Waiting \<Longrightarrow> mpc_of s u = Waiting" "\<And>u. mpc_of s u = Signalling \<Longrightarrow> mpc_of s' u = Signalling"
  shows "awaited s'"
  using assms(1) unfolding awaited_def assms(2) using assms(3,4) by blast

lemma awaited_wait_test: "mpc_of s t \<noteq> Signalling \<Longrightarrow> awaited s \<Longrightarrow> awaited (wait_test t s)"
proof (cases "signalled_flag s")
  case True
  assume a: "mpc_of s t \<noteq> Signalling" "awaited s"
  show ?thesis by (rule awaited_mono [OF a(2)]) (use True a(1) in \<open>auto simp: wait_test_def mgoto_def split: if_splits\<close>)
qed (simp add: awaited_def wait_test_def mgoto_def mutex_unlock_def)

lemma awaited_step: "mon_step s s' \<Longrightarrow> awaited s \<Longrightarrow> lone s' \<Longrightarrow> awaited s'"
proof (induction rule: mon_step.induct)
  case (Signal s t s')
  then show ?case using cond_signal_lone by (auto simp: awaited_def)
next
  case (Signal_After s t s')
  have "mpc_of s' u \<noteq> Waiting" if "mpc_of (mgoto t Active s') u = Waiting" for u
  proof
    assume w: "mpc_of s' u = Waiting"
    have "t \<noteq> u" using that by (auto simp: mgoto_def)
    show False using Signal_After(2)
    proof cases
      case (Wake v)
      have "v \<noteq> t" using Wake(2) Signal_After(1) by auto
      then have "in_wait (mgoto t Active s') v" and "in_wait (mgoto t Active s') u" and "v \<noteq> u"
        using Wake that w by (auto simp: in_wait_def mgoto_def)
      then show False using Signal_After(4) by (auto simp: lone_def)
    qed (use w in auto)
  qed
  moreover have "mpc_of (mgoto t Active s') u = Waiting \<Longrightarrow> mpc_of s' u = Waiting" for u by (auto simp: mgoto_def split: if_splits)
  ultimately have "mpc_of (mgoto t Active s') u \<noteq> Waiting" for u by blast
  then show ?case by (auto simp: awaited_def)
next
  case (Spurious s t)
  have "mpc_of (mgoto t Woken s) u \<noteq> Waiting" for u
  proof
    assume w: "mpc_of (mgoto t Woken s) u = Waiting"
    then have "u \<noteq> t" by (auto simp: mgoto_def)
    moreover have "in_wait (mgoto t Woken s) u" "in_wait (mgoto t Woken s) t" using w by (simp_all add: in_wait_def mgoto_def)
    ultimately show False using Spurious(3) unfolding lone_def by blast
  qed
  then show ?case by (simp add: awaited_def)
next
  case (Signal_Unlock s t)
  have "mpc_of (signal_and_unlock_begin t s) t = Signalling" by (simp add: signal_and_unlock_begin_def mgoto_def)
  then show ?case unfolding awaited_def by blast
next
  case (Clear s t)
  then show ?case by (simp add: awaited_def set_signalled_def)
next
  case (Wait s t)
  then show ?case by (intro awaited_wait_test) simp_all
next
  case (Test s t)
  then show ?case by (intro awaited_wait_test) simp_all
next
  case (Construct s t s')
  then show ?case by (intro awaited_mono [OF Construct(3)]) (auto simp: mon_ops split: if_splits)
next
  case (Destroy s t)
  then show ?case by (intro awaited_mono [OF Destroy(2)]) (auto simp: mon_ops split: if_splits)
next
  case (Lock s t s')
  then show ?case by (intro awaited_mono [OF Lock(3)]) (auto simp: mon_ops split: if_splits)
next
  case (Unlock s t)
  then show ?case by (intro awaited_mono [OF Unlock(2)]) (auto simp: mon_ops split: if_splits)
next
  case (Reacquire s t s')
  then show ?case by (intro awaited_mono [OF Reacquire(3)]) (auto simp: mon_ops split: if_splits)
qed

lemma lone_reach_inv: "lone_reach s \<Longrightarrow> mon_reach s \<and> awaited s \<and> lone s"
proof (induction rule: lone_reach.induct)
  case (Init garbage)
  then show ?case using mon_reach.Init by (auto simp: awaited_def lone_def in_wait_def mon_init_def)
next
  case (Step s s')
  then show ?case using awaited_step mon_reach.Step by blast
qed

text \<open>
  C4. No signal is lost on a lone waiting thread: once the event is signalled, a thread blocked in
  \<open>wait\<close> has a thread in \<open>signal_and_unlock\<close> whose last line will wake it and no other; when woken
  it can take the mutex as soon as that is free; and then it leaves \<open>wait\<close>.
\<close>

theorem monitor_wakes:
  assumes "lone_reach s" and "signalled_flag s" and "in_wait s u"
  shows "(mpc_of s u = Waiting \<longrightarrow> (\<exists>t. mpc_of s t = Signalling) \<and> (\<forall>s'. cond_signal s s' \<longrightarrow> mpc_of s' u = Woken))
    \<and> (mpc_of s u = Woken \<and> owner s = None \<longrightarrow> (\<exists>s'. mon_step s s' \<and> mpc_of s' u = Testing))
    \<and> (mpc_of s u = Testing \<longrightarrow> mon_step s (mgoto u Active s) \<and> inside (mgoto u Active s) u)"
proof -
  have inv: "mon_inv s" "awaited s" "lone s" using lone_reach_inv [OF assms(1)] mon_reach_inv by auto
  have "mpc_of s' u = Woken" if "mpc_of s u = Waiting" "cond_signal s s'" for s'
    using that(2)
  proof cases
    case (Wake v)
    then have "v = u" using inv(3) that(1) by (auto simp: lone_def in_wait_def)
    then show ?thesis using Wake by (simp add: mgoto_def)
  qed (use that(1) in auto)
  moreover have "\<exists>s'. mon_step s s' \<and> mpc_of s' u = Testing" if "mpc_of s u = Woken" "owner s = None"
  proof -
    have "mon_step s (mgoto u Testing (s\<lparr>owner := Some u\<rparr>))"
      using that by (intro mon_step.Reacquire) (simp_all add: mutex_lock_def)
    then show ?thesis by (auto simp: mgoto_def)
  qed
  moreover have "mon_step s (mgoto u Active s)" if "mpc_of s u = Testing"
    using mon_step.Test [OF that] assms(2) by (simp add: wait_test_def)
  moreover have "inside (mgoto u Active s) u" using inv(1) assms(3) by (auto simp: mon_inv_def inside_def mgoto_def)
  ultimately show ?thesis using inv(2) assms(2) by (auto simp: awaited_def)
qed

text \<open>Thread 7 waits; thread 8 is about to signal.\<close>

lemma monitor_wakes_witness:
  "\<exists>s. lone_reach s \<and> signalled_flag s \<and> mpc_of s 7 = Waiting \<and> (\<exists>t. mpc_of s t = Signalling)"
proof -
  let ?s1 = "mgoto 7 Active (set_locked 7 True ((mon_init False)\<lparr>owner := Some 7\<rparr>))"
  let ?s2 = "wait_test 7 ?s1"
  let ?s3 = "mgoto 8 Active (set_locked 8 True (?s2\<lparr>owner := Some 8\<rparr>))"
  let ?s4 = "signal_and_unlock_begin 8 ?s3"
  have l: "lone ?s1" "lone ?s2" "lone ?s3" "lone ?s4"
    by (auto simp: lone_def in_wait_def mon_ops mon_init_def)
  have s2: "?s2 = \<lparr>owner = None, locked = (\<lambda>_. False)(7 := True), signalled_flag = False, mpc_of = (\<lambda>_. Free)(7 := Waiting)\<rparr>"
    by (simp add: mon_ops mon_init_def)
  have "lone_reach ?s1" using lone_reach.Step [OF lone_reach.Init construct_init l(1)] .
  moreover have "mon_step ?s1 ?s2" by (intro mon_step.Wait) (simp_all add: mgoto_def set_locked_def)
  ultimately have r2: "lone_reach ?s2" using l(2) lone_reach.Step by blast
  have "mon_step ?s2 ?s3" unfolding s2 by (intro mon_step.Construct) (simp_all add: sl_construct_def mutex_lock_def)
  then have r3: "lone_reach ?s3" using r2 l(3) lone_reach.Step by blast
  have "mon_step ?s3 ?s4" by (intro mon_step.Signal_Unlock) (simp_all add: mgoto_def set_locked_def)
  then have r4: "lone_reach ?s4" using r3 l(4) lone_reach.Step by blast
  have f: "signalled_flag ?s4" "mpc_of ?s4 7 = Waiting" unfolding s2 by (simp_all add: mon_ops)
  then have "in_wait ?s4 7" by (simp add: in_wait_def)
  from monitor_wakes [OF r4 f(1) this] f(2) have "\<exists>t. mpc_of ?s4 t = Signalling" by blast
  with r4 f show ?thesis by blast
qed

end
