(* ===== verification/Old_Socket.thy ===== *)
theory Old_Socket
  imports Socket_Ops
begin

unbundle bit_operations_syntax

text \<open>
  The earlier socket of \<open>deviceagent/deviceagent/io/object\<close>: \<open>stream_socket_object.cc\<close> and the read and
  write operations over a plain buffer. Its reactor and service are those of \<open>Epoll\<close> and
  \<open>Task_Io\<close>, of which that directory holds an earlier copy. Results of system calls are arguments.
\<close>

section \<open>The operations' work\<close>

text \<open>\<open>cbuffer\<close>: the bytes behind \<open>msg\<close>, how many have been moved, and what the last call returned.\<close>

record fbuf =
  f_msg :: "byte list"
  f_len :: nat
  f_trans :: nat
  f_state :: int

text \<open>
  The loop of \<open>stream_socket_read_op::do_work\<close> over a script of answers of \<open>recv\<close>: an errno or the
  bytes received, which are stored behind what is there. The result is what \<open>do_work\<close> returns.
\<close>

definition put_bytes :: "nat \<Rightarrow> byte list \<Rightarrow> byte list \<Rightarrow> byte list" where
  "put_bytes at bs d = take at d @ bs @ drop (at + length bs) d"

fun old_read_do_work :: "(int + byte list) list \<Rightarrow> fbuf \<Rightarrow> (bool \<times> fbuf) option" where
  "old_read_do_work [] b = None"
| "old_read_do_work (r # rest) b =
     (case r of
        Inl errno \<Rightarrow>
          let b1 = b\<lparr>f_state := - 1\<rparr> in
          if errno = EINTR then old_read_do_work rest b1 else Some (False, b1)
      | Inr bs \<Rightarrow>
          Some (True, b\<lparr>f_state := int (length bs), f_msg := put_bytes (f_trans b) bs (f_msg b), f_trans := f_trans b + length bs\<rparr>))"

text \<open>The same for \<open>send\<close>; the second component is what the calls have passed on.\<close>

fun old_write_do_work :: "(int + nat) list \<Rightarrow> fbuf \<Rightarrow> (bool \<times> byte list \<times> fbuf) option" where
  "old_write_do_work [] b = None"
| "old_write_do_work (r # rest) b =
     (case r of
        Inl errno \<Rightarrow>
          let b1 = b\<lparr>f_state := - 1\<rparr> in
          if errno = EINTR then old_write_do_work rest b1 else Some (False, [], b1)
      | Inr n \<Rightarrow>
          Some (True, take n (drop (f_trans b) (f_msg b)), b\<lparr>f_state := int n, f_trans := f_trans b + n\<rparr>))"

text \<open>\<open>do_callback\<close>: the handler gets the state and the total so far, unless the operation is destroyed.\<close>

definition old_do_callback :: "fbuf \<Rightarrow> bool \<Rightarrow> (int \<times> nat) option" where
  "old_do_callback b destroy = (if \<not> destroy then Some (f_state b, f_trans b) else None)"

section \<open>The socket\<close>

definition old_connect :: "sobj \<Rightarrow> int \<Rightarrow> int \<Rightarrow> int \<Rightarrow> int" where
  "old_connect k connect_r poll_r errno =
     (if \<not> is_open k then - 1
      else if connect_r = 0 then (if poll_r \<ge> 0 then 0 else errno) else errno)"

definition old_do_open :: "nat \<Rightarrow> int \<Rightarrow> int \<Rightarrow> sobj \<Rightarrow> 's epl \<Rightarrow> int \<times> sobj \<times> 's epl" where
  "old_do_open fresh socket_r errno k s =
     (if is_open k then (- 1, k, s)
      else if socket_r < 0 then (errno, k\<lparr>sd := - 1\<rparr>, s)
      else let (err, x, s1) = register_descriptor fresh socket_r s
           in (if err \<noteq> 0 then err else 0, k\<lparr>sd := socket_r, sdata := Some x\<rparr>, s1))"

definition old_do_close :: "'s io_ops \<Rightarrow> sobj \<Rightarrow> 's epl \<Rightarrow> sobj \<times> 's epl" where
  "old_do_close io_s k s =
     (if \<not> is_open k then (k, s)
      else let (p, s1) = deregister_descriptor io_s (sd k) (sdata k) True s
           in (k\<lparr>sd := - 1, sdata := p\<rparr>, s1\<lparr>kern := (kern s1)(sd k := None)\<rparr>))"

definition old_set_nonblocking :: "sobj \<Rightarrow> bool \<Rightarrow> int \<Rightarrow> (int \<Rightarrow> int) \<Rightarrow> int \<Rightarrow> int" where
  "old_set_nonblocking k nonblocking getfl setfl errno =
     (if \<not> is_open k then - 1
      else let result = (if getfl \<ge> 0 then setfl (if nonblocking then getfl OR O_NONBLOCK else getfl AND NOT O_NONBLOCK)
                         else getfl)
           in if result < 0 then errno else 0)"

definition old_get_nonblocking :: "sobj \<Rightarrow> int \<Rightarrow> int \<Rightarrow> int \<times> bool option" where
  "old_get_nonblocking k getfl errno =
     (if \<not> is_open k then (- 1, None)
      else if getfl \<ge> 0 then (0, Some (getfl AND O_NONBLOCK \<noteq> 0)) else (errno, None))"

definition old_set_option :: "sobj \<Rightarrow> int \<Rightarrow> int \<Rightarrow> int" where
  "old_set_option k setsockopt_r errno = (if \<not> is_open k then - 1 else if setsockopt_r = 0 then 0 else errno)"

definition old_get_option :: "sobj \<Rightarrow> int \<Rightarrow> int \<Rightarrow> byte list \<Rightarrow> byte list \<Rightarrow> int \<times> byte list" where
  "old_get_option k getsockopt_r errno opt val =
     (if \<not> is_open k then (- 1, opt)
      else let len = 0 in
        if getsockopt_r = 0 then (0, take len val @ drop (length (take len val)) opt) else (errno, opt))"

definition old_start_write_op ::
  "'s io_ops \<Rightarrow> (nat \<Rightarrow> bool) \<Rightarrow> sobj \<Rightarrow> int \<Rightarrow> (int \<Rightarrow> int) \<Rightarrow> int \<Rightarrow> nat \<Rightarrow> bool \<Rightarrow> bool \<Rightarrow> 's epl \<Rightarrow> 's epl" where
  "old_start_write_op io_s do_work k getfl setfl e op nonblocking notask s =
     (if notask then upd_io (io_post_immediate io_s op) s
      else
        let (err, blocking) = old_get_nonblocking k getfl e in
        if err = 0 \<and> blocking = Some True
        then start_op io_s do_work op_write (sd k) (sdata k) op nonblocking s
        else
          let ec = old_set_nonblocking k True getfl setfl e;
              s1 = set_ec op ec s in
          if ec = 0 then start_op io_s do_work op_write (sd k) (sdata k) op nonblocking s1
          else upd_io (io_post_immediate io_s op) s1)"

text \<open>\<open>start_read_op\<close> has no last line: what does not reach the reactor is not posted.\<close>

definition old_start_read_op ::
  "'s io_ops \<Rightarrow> (nat \<Rightarrow> bool) \<Rightarrow> sobj \<Rightarrow> int \<Rightarrow> (int \<Rightarrow> int) \<Rightarrow> int \<Rightarrow> nat \<Rightarrow> bool \<Rightarrow> bool \<Rightarrow> 's epl \<Rightarrow> 's epl" where
  "old_start_read_op io_s do_work k getfl setfl e op nonblocking notask s =
     (if notask then s
      else
        let (err, blocking) = old_get_nonblocking k getfl e in
        if err = 0 \<and> blocking = Some True
        then start_op io_s do_work op_read (sd k) (sdata k) op nonblocking s
        else
          let ec = old_set_nonblocking k True getfl setfl e;
              s1 = set_ec op ec s in
          if ec = 0 then start_op io_s do_work op_read (sd k) (sdata k) op nonblocking s1
          else s1)"

definition old_async_write where
  "old_async_write io_s do_work k getfl setfl e op b s =
     old_start_write_op io_s do_work k getfl setfl e op True (f_len b = f_trans b) s"

definition old_async_read where
  "old_async_read io_s do_work k getfl setfl e op b s =
     old_start_read_op io_s do_work k getfl setfl e op True (f_len b = f_trans b) s"

end
