(* ===== verification/Old_Socket_Props.thy ===== *)
theory Old_Socket_Props
  imports Old_Socket Reactor
begin

text \<open>
  The earlier socket against the present one: its writes are conserved, its reads are dropped where they do
  not reach the reactor, and an operation whose call fails is never finished.
\<close>

unbundle bit_operations_syntax

section \<open>Starting\<close>

lemma old_same_parts:
  "old_get_nonblocking k g e = sock_get_nonblocking k g e"
  "old_set_nonblocking k nb g f e = sock_set_nonblocking k nb g f e"
  by (simp_all add: old_get_nonblocking_def sock_get_nonblocking_def old_set_nonblocking_def sock_set_nonblocking_def Let_def)

lemma old_write_is_new:
  "old_start_write_op io_s w k g f e op nb nt s = sock_start_op io_s w op_write k g f e op nb nt s"
  by (simp add: old_start_write_op_def sock_start_op_def old_same_parts Let_def split: prod.splits)

text \<open>A read reaches the reactor when there is room, and the descriptor is or can be made non-blocking.\<close>

definition reaches :: "sobj \<Rightarrow> int \<Rightarrow> (int \<Rightarrow> int) \<Rightarrow> bool \<Rightarrow> bool" where
  "reaches k getfl setfl notask \<longleftrightarrow>
     \<not> notask \<and> is_open k \<and> getfl \<ge> 0 \<and> (getfl AND O_NONBLOCK \<noteq> 0 \<or> setfl (getfl OR O_NONBLOCK) \<ge> 0)"

lemma old_read_cases:
  assumes "e \<noteq> 0"
  shows "old_start_read_op io_s w k g f e op nb nt s =
    (if reaches k g f nt then sock_start_op io_s w op_read k g f e op nb nt s
     else if nt then s else set_ec op (sock_set_nonblocking k True g f e) s)"
  using assms
  by (auto simp: old_start_read_op_def sock_start_op_def reaches_def old_get_nonblocking_def old_set_nonblocking_def
      sock_get_nonblocking_def sock_set_nonblocking_def Let_def)

text \<open>
  C23. In the earlier \<open>stream_socket_object\<close> an asynchronous write is kept on every path, like in the present
  one; an asynchronous read is kept exactly when it reaches the reactor. With a full
  buffer, a closed socket, or one that cannot be made non-blocking it is in no queue and not counted: its
  handler is never called and the operation is never freed.
\<close>

theorem old_read_lost:
  assumes "ep_inv ls fs s" and "sdata k = None \<or> (\<exists>x. sdata k = Some x \<and> x \<in> set ls)" and "e \<noteq> 0"
  shows "(case old_async_write (tio_ops cs) w k getfl setfl e op b s of s' \<Rightarrow>
      pend ls s' + tio_held cs (io s') = add_mset op (pend ls s + tio_held cs (io s))
      \<and> tio_balance cs (io s') = tio_balance cs (io s) + 1)
    \<and> (case old_async_read (tio_ops cs) w k getfl setfl e op b s of s' \<Rightarrow>
      if reaches k getfl setfl (f_len b = f_trans b)
      then pend ls s' + tio_held cs (io s') = add_mset op (pend ls s + tio_held cs (io s))
        \<and> tio_balance cs (io s') = tio_balance cs (io s) + 1
      else sets s' = sets s \<and> io s' = io s)"
proof -
  have new: "pend ls s' + tio_held cs (io s') = add_mset op (pend ls s + tio_held cs (io s))
      \<and> tio_balance cs (io s') = tio_balance cs (io s) + 1"
    if "kind < op_max" "s' = sock_start_op (tio_ops cs) w kind k getfl setfl e op nb nt s" for kind nb nt s'
    using tio.sock_start_ledger [OF assms(1,2) that] by blast
  show ?thesis
    using new [of op_write, OF _ refl] new [of op_read, OF _ refl]
    by (auto simp: old_async_write_def old_write_is_new old_async_read_def old_read_cases [OF assms(3)])
qed

lemma old_read_lost_witness:
  "io (old_async_read (tio_ops []) (\<lambda>_. False) \<lparr>sd = 5, sdata = Some 1\<rparr> 0 (\<lambda>_. 0) 9 14
      \<lparr>f_msg = [], f_len = 4, f_trans = 4, f_state = 4\<rparr> ep1) = io ep1
   \<and> tio_balance [] (io (old_async_read (tio_ops []) (\<lambda>_. False) \<lparr>sd = 5, sdata = Some 1\<rparr> 0 (\<lambda>_. 0) 9 14
      \<lparr>f_msg = [], f_len = 4, f_trans = 3, f_state = 3\<rparr> ep1)) = tio_balance [] (io ep1) + 1"
proof -
  have k: "\<exists>x. sdata \<lparr>sd = 5, sdata = Some 1\<rparr> = Some x \<and> x \<in> set [1 :: nat]" by simp
  note t = old_read_lost [OF ep1_inv disjI2 [OF k], of 9 "[]" "\<lambda>_. False" 0 "\<lambda>_. 0" 14]
  show ?thesis
    using t [of "\<lparr>f_msg = [], f_len = 4, f_trans = 4, f_state = 4\<rparr>"]
      t [of "\<lparr>f_msg = [], f_len = 4, f_trans = 3, f_state = 3\<rparr>"]
    by (simp add: reaches_def is_open_def)
qed

section \<open>Failing\<close>

text \<open>What \<open>do_work\<close> returns: whether the first answer that is not an interruption is a success.\<close>

lemma old_read_answer:
  "old_read_do_work script b =
    (case dropWhile (\<lambda>r. r = Inl EINTR) script of
       [] \<Rightarrow> None
     | Inl e # _ \<Rightarrow> Some (False, b\<lparr>f_state := - 1\<rparr>)
     | Inr bs # _ \<Rightarrow> Some (True, b\<lparr>f_state := int (length bs), f_msg := put_bytes (f_trans b) bs (f_msg b),
                               f_trans := f_trans b + length bs\<rparr>))"
proof (induction script arbitrary: b)
  case (Cons r script)
  show ?case by (cases "r = Inl EINTR"; cases r) (simp_all add: Cons.IH Let_def split: list.split sum.split del: dropWhile_eq_Nil_conv)
qed simp

text \<open>
  An error other than an interruption is never reported: \<open>do_work\<close> of the earlier read
  answers false for it (a reset connection as well as an empty one), so whatever events the
  reactor handles, hang-up and error included, the operation stays at the head of its queue, is not returned and not
  posted, and everything behind it waits too. The present \<open>do_work\<close> finishes with the error, unless it is \<open>EAGAIN\<close>.
\<close>

theorem old_error_waits:
  assumes "ep_inv ls fs s" and "x \<in> set ls" and "que (sets s x) op_read = op # q"
    and "dropWhile (\<lambda>r. r = Inl EINTR) script = Inl err # rest"
    and "w op \<longleftrightarrow> map_option fst (old_read_do_work script b) = Some True"
    and "perform_io (tio_ops cs) w events x s = (first, s')"
    and "chain h (cb_get_cur buf h) = Some items" "length items \<le> MAX_IOVEC_NUM"
  shows "que (sets s' x) op_read = op # q
    \<and> (op \<notin># pend ls s - {#op#} + tio_held cs (io s) \<longrightarrow> first \<noteq> Some op \<and> op \<notin># tio_held cs (io s'))
    \<and> read_do_work [(- 1, err)] e0 buf h = Some (WDone (err \<noteq> EAGAIN) err 0 (msg_vecs h items) h)"
proof -
  have nw: "\<not> w op" using assms(4,5) by (simp add: old_read_answer)
  obtain ops s1 where c: "perform_queues w (rev [0..<op_max]) events x s = (ops, s1)"
    by (cases "perform_queues w (rev [0..<op_max]) events x s")
  note sp = perform_queues_spec [OF c]
  have "que (sets s1 x) op_read = op # q" using assms(3) nw by (simp add: sp left_of_def)
  moreover have "sets s' = sets s1" using assms(6) c by (auto simp: perform_io_def split: list.splits if_splits)
  ultimately have q: "que (sets s' x) op_read = op # q" by simp
  note led = tio.perform_io_ledger [OF assms(1,2,6)]
  have "first \<noteq> Some op \<and> op \<notin># tio_held cs (io s')" if n: "op \<notin># pend ls s - {#op#} + tio_held cs (io s)"
  proof
    show "first \<noteq> Some op" using led(4) nw by auto
    have "op \<in># pend ls s'"
      using assms(2) q by (simp add: pend_remove1 [OF assms(2)] set_ops_def)
    show "op \<notin># tio_held cs (io s')"
    proof
      assume "op \<in># tio_held cs (io s')"
      then have "count (pend ls s') op \<ge> 1" "count (tio_held cs (io s')) op \<ge> 1"
        using \<open>op \<in># pend ls s'\<close> by (simp_all add: Suc_le_eq)
      then have "count (pend ls s' + tio_held cs (io s') + (case first of None \<Rightarrow> {#} | Some y \<Rightarrow> {#y#})) op \<ge> 2"
        unfolding count_union by linarith
      then have "count (pend ls s + tio_held cs (io s)) op \<ge> 2" unfolding led(2) .
      moreover have "count (pend ls s) op \<le> 1" "count (tio_held cs (io s)) op = 0"
        using n by (auto simp: not_in_iff)
      ultimately show False by simp
    qed
  qed
  moreover have "err \<noteq> EINTR" using hd_dropWhile [of "\<lambda>r. r = Inl EINTR" script] assms(4) by auto
  then have "read_do_work [(- 1, err)] e0 buf h = Some (WDone (err \<noteq> EAGAIN) err 0 (msg_vecs h items) h)"
    using assms(7,8) by (simp add: read_do_work_def op_do_work_def)
  ultimately show ?thesis using q by blast
qed

text \<open>\<open>ECONNRESET\<close> is 104.\<close>

lemma old_error_waits_witness:
  "que (sets (snd (perform_io (tio_ops []) (\<lambda>op. op \<noteq> 11) EPOLLHUP 1 ep1)) 1) op_read = [11, 12]
   \<and> read_do_work [(- 1, 104)] 0 1 (\<lambda>p. \<lparr>cb_msg = 100, cb_len = 4, consumed = 0, bytes_trans = 0, bytes_total = 4,
       cb_count = 1, cb_next = None, cb_prev = None, cb_head = 1, cb_end = 1, cb_cur = None\<rparr>)
     = Some (WDone True 104 0 [] (\<lambda>p. \<lparr>cb_msg = 100, cb_len = 4, consumed = 0, bytes_trans = 0, bytes_total = 4,
       cb_count = 1, cb_next = None, cb_prev = None, cb_head = 1, cb_end = 1, cb_cur = None\<rparr>))"
proof -
  let ?h = "\<lambda>p::nat. \<lparr>cb_msg = 100, cb_len = 4, consumed = 0, bytes_trans = 0, bytes_total = 4,
       cb_count = 1, cb_next = None, cb_prev = None, cb_head = 1, cb_end = 1, cb_cur = None\<rparr>"
  let ?b = "\<lparr>f_msg = [], f_len = 4, f_trans = 0, f_state = 0\<rparr>"
  have x: "1 \<in> set [1 :: nat]" and q: "que (sets ep1 1) op_read = 11 # [12]" by (simp_all add: ep1_def)
  have d: "dropWhile (\<lambda>r. r = Inl EINTR) [Inl EINTR, Inl 104] = Inl 104 # []" by simp
  have w: "(11 :: nat) \<noteq> 11 \<longleftrightarrow> map_option fst (old_read_do_work [Inl EINTR, Inl 104] ?b) = Some True" by simp
  have c: "chain ?h (cb_get_cur 1 ?h) = Some []" by (simp add: cb_get_cur_def chain.simps)
  obtain first s' where p: "perform_io (tio_ops []) (\<lambda>op. op \<noteq> 11) EPOLLHUP 1 ep1 = (first, s')"
    by (cases "perform_io (tio_ops []) (\<lambda>op. op \<noteq> 11) EPOLLHUP 1 ep1")
  from old_error_waits [OF ep1_inv x q d w p c, of 0]
  show ?thesis by (simp add: msg_vecs_def p del: One_nat_def)
qed

end
