(* ===== verification/Echo.thy ===== *)
theory Echo
  imports Prelude_C
begin

unbundle bit_operations_syntax

text \<open>
  The echo server \<open>epoll_echo/serv.c\<close> and its client \<open>epoll_echo/cli.c\<close>, each a loop around
  \<open>epoll_wait\<close> with one buffer for all descriptors. A handled event makes at most one call of \<open>accept\<close>,
  \<open>read\<close> or \<open>write\<close>, whose answer is an argument; the epoll set is a map from descriptors to the
  registered events, with \<open>epoll_ctl\<close> and \<open>close\<close> as documented: \<open>close\<close> takes the descriptor out,
  \<open>ADD\<close> of one that is in or not open, \<open>MOD\<close> and \<open>DEL\<close> of one that is not in change nothing.
\<close>

section \<open>The epoll set\<close>

abbreviation (input) POLL_IN :: "32 word" where "POLL_IN \<equiv> 1"
abbreviation (input) POLL_OUT :: "32 word" where "POLL_OUT \<equiv> 4"
abbreviation (input) MAXSIZE :: nat where "MAXSIZE \<equiv> 1024"

text \<open>A process of one of the two programs; \<open>e_out\<close> lists what its writes have passed on.\<close>

record echo =
  e_open :: "int set"
  e_set :: "int \<rightharpoonup> 32 word"
  e_buf :: string
  e_out :: "(int \<times> string) list"

definition add_event :: "int \<Rightarrow> 32 word \<Rightarrow> echo \<Rightarrow> echo" where
  "add_event fd state s = (if fd \<in> e_open s \<and> e_set s fd = None then s\<lparr>e_set := (e_set s)(fd \<mapsto> state)\<rparr> else s)"

definition del_event :: "int \<Rightarrow> echo \<Rightarrow> echo" where
  "del_event fd s = s\<lparr>e_set := (e_set s)(fd := None)\<rparr>"

definition mod_event :: "int \<Rightarrow> 32 word \<Rightarrow> echo \<Rightarrow> echo" where
  "mod_event fd state s = (if e_set s fd = None then s else s\<lparr>e_set := (e_set s)(fd \<mapsto> state)\<rparr>)"

definition close_fd :: "int \<Rightarrow> echo \<Rightarrow> echo" where
  "close_fd fd s = s\<lparr>e_open := e_open s - {fd}, e_set := (e_set s)(fd := None)\<rparr>"

text \<open>What \<open>read\<close> stores, what \<open>strlen\<close> finds (past the end when there is no zero byte), and \<open>memset\<close>.\<close>

definition store :: "string \<Rightarrow> echo \<Rightarrow> echo" where
  "store bs s = s\<lparr>e_buf := mem_put 0 bs (e_buf s)\<rparr>"

definition terminated :: "string \<Rightarrow> bool" where
  "terminated b \<longleftrightarrow> CHR 0x00 \<in> set b"

definition wipe :: "echo \<Rightarrow> echo" where
  "wipe s = s\<lparr>e_buf := replicate MAXSIZE (CHR 0x00)\<rparr>"

text \<open>
  \<open>write(fd, buf, strlen(buf))\<close> with the answer \<open>n\<close>: what is passed on are the first \<open>n\<close> bytes.
\<close>

definition write_buf :: "int \<Rightarrow> int \<Rightarrow> echo \<Rightarrow> echo" where
  "write_buf fd n s = (if n = - 1 then s else s\<lparr>e_out := e_out s @ [(fd, take (nat n) (cstr (e_buf s)))]\<rparr>)"

text \<open>The answers to the calls an event can make.\<close>

record answer =
  a_accept :: int
  a_read :: "string option"
  a_write :: int

section \<open>The server\<close>

definition echo_accept :: "answer \<Rightarrow> echo \<Rightarrow> echo" where
  "echo_accept a s =
     (let clifd = a_accept a in
      if clifd = - 1 then s else add_event clifd POLL_IN (s\<lparr>e_open := insert clifd (e_open s)\<rparr>))"

text \<open>\<open>do_read\<close> prints the buffer as a string.\<close>

definition do_read :: "int \<Rightarrow> answer \<Rightarrow> echo \<Rightarrow> fault + echo" where
  "do_read fd a s =
     (case a_read a of
        None \<Rightarrow> Inr (del_event fd (close_fd fd s))
      | Some bs \<Rightarrow>
          if bs = [] then Inr (del_event fd (close_fd fd s))
          else let s1 = store bs s in
               if \<not> terminated (e_buf s1) then Inl Overflow else Inr (mod_event fd POLL_OUT s1))"

definition do_write :: "int \<Rightarrow> answer \<Rightarrow> echo \<Rightarrow> fault + echo" where
  "do_write fd a s =
     (if \<not> terminated (e_buf s) then Inl Overflow
      else let s1 = write_buf fd (a_write a) s;
               s2 = (if a_write a = - 1 then del_event fd (close_fd fd s1) else mod_event fd POLL_IN s1)
           in Inr (wipe s2))"

text \<open>The body of the loop of \<open>handle_events\<close>, and the loop.\<close>

definition handle_event :: "int \<Rightarrow> (int \<times> 32 word) \<Rightarrow> answer \<Rightarrow> echo \<Rightarrow> fault + echo" where
  "handle_event listenfd = (\<lambda>(fd, events) a s.
     if fd = listenfd \<and> events AND POLL_IN \<noteq> 0 then Inr (echo_accept a s)
     else if events AND POLL_IN \<noteq> 0 then do_read fd a s
     else if events AND POLL_OUT \<noteq> 0 then do_write fd a s
     else Inr s)"

fun handle_events :: "int \<Rightarrow> ((int \<times> 32 word) \<times> answer) list \<Rightarrow> echo \<Rightarrow> fault + echo" where
  "handle_events listenfd [] s = Inr s"
| "handle_events listenfd ((e, a) # evs) s = bindE (handle_event listenfd e a s) (handle_events listenfd evs)"

text \<open>\<open>do_epoll\<close> up to its loop.\<close>

definition do_epoll_init :: "int \<Rightarrow> echo" where
  "do_epoll_init listenfd =
     add_event listenfd POLL_IN \<lparr>e_open = {listenfd}, e_set = Map.empty, e_buf = replicate MAXSIZE (CHR 0x00), e_out = []\<rparr>"

text \<open>
  \<open>socket_bind\<close>: a failure is the result 1, which its caller takes for a descriptor.
\<close>

definition socket_bind :: "int \<Rightarrow> int \<Rightarrow> int" where
  "socket_bind socket_r bind_r = (if socket_r = - 1 then 1 else if bind_r = - 1 then 1 else socket_r)"

text \<open>
  What the system answers: \<open>accept\<close> a new descriptor, \<open>read\<close> at most \<open>MAXSIZE\<close> bytes, \<open>write\<close> at most what
  it was given. \<open>epoll_wait\<close> reports each descriptor once, with registered events; \<open>EPOLLERR\<close> and the like,
  which it always reports, are other bits.
\<close>

definition answer_ok :: "echo \<Rightarrow> answer \<Rightarrow> bool" where
  "answer_ok s a \<longleftrightarrow> a_accept a \<notin> e_open s \<and> a_accept a \<ge> - 1 \<and> (\<forall>bs. a_read a = Some bs \<longrightarrow> length bs \<le> MAXSIZE)
     \<and> - 1 \<le> a_write a \<and> a_write a \<le> int (length (cstr (e_buf s)))"

definition reported :: "echo \<Rightarrow> (int \<times> 32 word) list \<Rightarrow> bool" where
  "reported s evs \<longleftrightarrow> distinct (map fst evs) \<and>
     (\<forall>(fd, events) \<in> set evs. \<exists>st. e_set s fd = Some st \<and> (events AND (POLL_IN OR POLL_OUT)) AND NOT st = 0)"

text \<open>The loop: the state and the events of the last \<open>epoll_wait\<close> that are still to be handled.\<close>

inductive serve :: "int \<Rightarrow> echo \<times> (int \<times> 32 word) list \<Rightarrow> echo \<times> (int \<times> 32 word) list \<Rightarrow> bool" for listenfd where
  Wait: "reported s evs \<Longrightarrow> serve listenfd (s, []) (s, evs)"
| Handle: "answer_ok s a \<Longrightarrow> handle_event listenfd e a s = Inr s' \<Longrightarrow> serve listenfd (s, e # evs) (s', evs)"

inductive echo_reach :: "int \<Rightarrow> echo \<times> (int \<times> 32 word) list \<Rightarrow> bool" for listenfd where
  Init: "listenfd \<ge> 0 \<Longrightarrow> echo_reach listenfd (do_epoll_init listenfd, [])"
| Step: "echo_reach listenfd c \<Longrightarrow> serve listenfd c c' \<Longrightarrow> echo_reach listenfd c'"

section \<open>The client\<close>

abbreviation (input) STDIN_FILENO :: int where "STDIN_FILENO \<equiv> 0"
abbreviation (input) STDOUT_FILENO :: int where "STDOUT_FILENO \<equiv> 1"

definition cli_read :: "int \<Rightarrow> int \<Rightarrow> answer \<Rightarrow> echo \<Rightarrow> echo" where
  "cli_read fd sockfd a s =
     (case a_read a of
        None \<Rightarrow> close_fd fd s
      | Some bs \<Rightarrow>
          if bs = [] then close_fd fd s
          else let s1 = store bs s in
               if fd = STDIN_FILENO then add_event sockfd POLL_IN s1
               else add_event STDOUT_FILENO POLL_OUT (del_event sockfd s1))"

definition cli_write :: "int \<Rightarrow> answer \<Rightarrow> echo \<Rightarrow> fault + echo" where
  "cli_write fd a s =
     (if \<not> terminated (e_buf s) then Inl Overflow
      else let s1 = write_buf fd (a_write a) s;
               s2 = (if a_write a = - 1 then close_fd fd s1
                     else if fd = STDOUT_FILENO then del_event fd s1
                     else mod_event fd POLL_IN s1)
           in Inr (wipe s2))"

definition cli_event :: "int \<Rightarrow> (int \<times> 32 word) \<Rightarrow> answer \<Rightarrow> echo \<Rightarrow> fault + echo" where
  "cli_event sockfd = (\<lambda>(fd, events) a s.
     if events AND POLL_IN \<noteq> 0 then Inr (cli_read fd sockfd a s)
     else if events AND POLL_OUT \<noteq> 0 then cli_write fd a s
     else Inr s)"

definition handle_connection_init :: "int \<Rightarrow> echo" where
  "handle_connection_init sockfd =
     add_event STDIN_FILENO POLL_IN
       \<lparr>e_open = {0, 1, 2, sockfd}, e_set = Map.empty, e_buf = replicate MAXSIZE (CHR 0x00), e_out = []\<rparr>"

inductive consume :: "int \<Rightarrow> echo \<times> (int \<times> 32 word) list \<Rightarrow> echo \<times> (int \<times> 32 word) list \<Rightarrow> bool" for sockfd where
  Wait: "reported s evs \<Longrightarrow> consume sockfd (s, []) (s, evs)"
| Handle: "answer_ok s a \<Longrightarrow> cli_event sockfd e a s = Inr s' \<Longrightarrow> consume sockfd (s, e # evs) (s', evs)"

inductive echo_cli_reach :: "int \<Rightarrow> echo \<times> (int \<times> 32 word) list \<Rightarrow> bool" for sockfd where
  Init: "sockfd \<ge> 3 \<Longrightarrow> echo_cli_reach sockfd (handle_connection_init sockfd, [])"
| Step: "echo_cli_reach sockfd c \<Longrightarrow> consume sockfd c c' \<Longrightarrow> echo_cli_reach sockfd c'"

end
