(* ===== verification/Echo_Props.thy ===== *)
theory Echo_Props
  imports Echo
begin

text \<open>
  The echo server keeps its epoll set in order whatever happens; one client at a time it echoes, two at
  a time it mixes them up. The client never sends.
\<close>

unbundle bit_operations_syntax

section \<open>The epoll set\<close>

lemma close_del: "del_event fd (close_fd fd s) = close_fd fd s"
  by (simp add: del_event_def close_fd_def fun_eq_iff)

lemmas echo_ops = add_event_def mod_event_def del_event_def close_fd_def store_def wipe_def write_buf_def

lemma echo_bits:
  fixes events :: "32 word"
  shows "(events AND (POLL_IN OR POLL_OUT)) AND NOT POLL_IN = 0 \<Longrightarrow> events AND POLL_OUT = 0"
    and "(events AND (POLL_IN OR POLL_OUT)) AND NOT POLL_OUT = 0 \<Longrightarrow> events AND POLL_IN = 0"
  by (simp_all add: and.assoc)

text \<open>
  The descriptors in the set are the open ones; the listening socket waits for connections, every other one
  either to be read or to be written.
\<close>

definition set_ok :: "int \<Rightarrow> echo \<Rightarrow> bool" where
  "set_ok listenfd s \<longleftrightarrow> dom (e_set s) = e_open s \<and> e_set s listenfd = Some POLL_IN \<and> length (e_buf s) = MAXSIZE
     \<and> terminated (e_buf s) \<and> (\<forall>fd st. e_set s fd = Some st \<longrightarrow> st = POLL_IN \<or> st = POLL_OUT)"

text \<open>If the buffer is not blank, some connection waits to be written.\<close>

definition e_blank :: "echo \<Rightarrow> bool" where
  "e_blank s \<longleftrightarrow> e_buf s = replicate MAXSIZE (CHR 0x00)"

definition echo_inv :: "int \<Rightarrow> echo \<Rightarrow> bool" where
  "echo_inv listenfd s \<longleftrightarrow> set_ok listenfd s \<and> (e_blank s \<or> (\<exists>fd. e_set s fd = Some POLL_OUT))"

lemma terminated_blank: "terminated (replicate MAXSIZE (CHR 0x00))"
  by (simp add: terminated_def)

lemma echo_init: "echo_inv listenfd (do_epoll_init listenfd)"
  by (auto simp: echo_inv_def set_ok_def do_epoll_init_def echo_ops e_blank_def terminated_blank)

lemma set_ok_close: "set_ok listenfd s \<Longrightarrow> fd \<noteq> listenfd \<Longrightarrow> set_ok listenfd (close_fd fd s)"
  by (auto simp: set_ok_def close_fd_def)

lemma set_ok_mod:
  "set_ok listenfd s \<Longrightarrow> fd \<noteq> listenfd \<Longrightarrow> st = POLL_IN \<or> st = POLL_OUT \<Longrightarrow> set_ok listenfd (mod_event fd st s)"
  by (auto simp: set_ok_def mod_event_def)

lemma set_ok_store:
  "set_ok listenfd s \<Longrightarrow> length bs \<le> MAXSIZE \<Longrightarrow> terminated (e_buf (store bs s)) \<Longrightarrow> set_ok listenfd (store bs s)"
  by (simp add: set_ok_def store_def)

lemma set_ok_wipe: "set_ok listenfd s \<Longrightarrow> set_ok listenfd (wipe s)"
  by (simp add: set_ok_def wipe_def terminated_blank)

lemma set_ok_write: "set_ok listenfd s \<Longrightarrow> set_ok listenfd (write_buf fd n s)"
  by (simp add: set_ok_def write_buf_def)

lemma echo_accept_inv:
  assumes "echo_inv listenfd s" "answer_ok s a"
  shows "echo_inv listenfd (echo_accept a s)"
proof (cases "a_accept a = - 1")
  case False
  have n: "e_set s (a_accept a) = None" using assms by (auto simp: echo_inv_def set_ok_def answer_ok_def)
  then have e: "echo_accept a s = s\<lparr>e_open := insert (a_accept a) (e_open s), e_set := (e_set s)(a_accept a \<mapsto> POLL_IN)\<rparr>"
    using False by (simp add: echo_accept_def add_event_def Let_def)
  have "set_ok listenfd (echo_accept a s)" using assms(1) by (auto simp: e echo_inv_def set_ok_def)
  moreover have "e_blank (echo_accept a s) = e_blank s" by (simp add: e e_blank_def)
  moreover have "e_set s fd = Some POLL_OUT \<Longrightarrow> e_set (echo_accept a s) fd = Some POLL_OUT" for fd using n by (auto simp: e)
  ultimately show ?thesis using assms(1) by (auto simp: echo_inv_def)
qed (use assms in \<open>simp add: echo_accept_def\<close>)

lemma do_read_inv:
  assumes "echo_inv listenfd s" "answer_ok s a" "fd \<noteq> listenfd" "e_set s fd = Some POLL_IN" "do_read fd a s = Inr s'"
  shows "echo_inv listenfd s'"
proof (cases "a_read a = None \<or> a_read a = Some []")
  case True
  then have s': "s' = close_fd fd s" using assms(5) by (auto simp: do_read_def close_del)
  have "e_set s d = Some POLL_OUT \<Longrightarrow> e_set s' d = Some POLL_OUT" for d using assms(4) by (auto simp: s' close_fd_def)
  moreover have "e_blank s' = e_blank s" by (simp add: s' e_blank_def close_fd_def)
  ultimately show ?thesis using assms(1,3) set_ok_close by (auto simp: s' echo_inv_def)
next
  case False
  then obtain bs where bs: "a_read a = Some bs" "bs \<noteq> []" by auto
  then have s': "s' = mod_event fd POLL_OUT (store bs s)" and st: "terminated (e_buf (store bs s))" "length bs \<le> MAXSIZE"
    using assms(2,5) by (auto simp: do_read_def Let_def answer_ok_def split: if_splits)
  have "set_ok listenfd s'" using assms(1,3) st by (simp add: s' set_ok_mod set_ok_store echo_inv_def)
  moreover have "e_set s' fd = Some POLL_OUT" using assms(4) by (simp add: s' mod_event_def store_def)
  ultimately show ?thesis by (auto simp: echo_inv_def)
qed

lemma do_write_inv:
  assumes "echo_inv listenfd s" "fd \<noteq> listenfd" "do_write fd a s = Inr s'"
  shows "echo_inv listenfd s' \<and> e_blank s'"
proof -
  have "e_blank s'" using assms(3) by (auto simp: do_write_def wipe_def e_blank_def Let_def split: if_splits)
  moreover have "set_ok listenfd s'"
    using assms by (auto simp: do_write_def close_del Let_def echo_inv_def
        intro!: set_ok_wipe set_ok_close set_ok_mod set_ok_write split: if_splits)
  ultimately show ?thesis by (simp add: echo_inv_def)
qed

text \<open>What an event does to other descriptors: nothing, unless a connection comes in under that number.\<close>

lemma handle_event_others:
  assumes "handle_event listenfd (fd, ev) a s = Inr s'" "answer_ok s a" "d \<noteq> fd" "d \<in> e_open s"
  shows "e_set s' d = e_set s d \<and> (d \<in> e_open s' \<longleftrightarrow> d \<in> e_open s)"
  using assms
  by (auto simp: handle_event_def echo_accept_def do_read_def do_write_def echo_ops answer_ok_def Let_def
      split: if_splits option.splits)

lemma reported_cases:
  assumes "echo_inv listenfd s" "reported s ((fd, ev) # evs)"
  shows "(e_set s fd = Some POLL_IN \<and> ev AND POLL_OUT = 0) \<or> (fd \<noteq> listenfd \<and> e_set s fd = Some POLL_OUT \<and> ev AND POLL_IN = 0)"
proof -
  obtain st where st: "e_set s fd = Some st" "(ev AND (POLL_IN OR POLL_OUT)) AND NOT st = 0"
    using assms(2) by (auto simp: reported_def)
  have "st = POLL_IN \<or> st = POLL_OUT" and l: "e_set s listenfd = Some POLL_IN"
    using assms(1) st(1) by (auto simp: echo_inv_def set_ok_def)
  from this(1) show ?thesis
  proof
    assume "st = POLL_IN"
    then show ?thesis using st echo_bits(1) by blast
  next
    assume o: "st = POLL_OUT"
    then have "fd \<noteq> listenfd" using st(1) l by auto
    then show ?thesis using st o echo_bits(2) by blast
  qed
qed

lemma serve_inv:
  assumes "serve listenfd c c'" "echo_inv listenfd (fst c)" "reported (fst c) (snd c)"
  shows "echo_inv listenfd (fst c') \<and> reported (fst c') (snd c')"
  using assms
proof cases
  case (Handle s a e s' evs)
  obtain fd ev where e: "e = (fd, ev)" by (cases e)
  have r: "reported s ((fd, ev) # evs)" and i: "echo_inv listenfd s" using assms(2,3) Handle(1) e by auto
  have inv: "echo_inv listenfd s'"
    using reported_cases [OF i r] Handle(3,4) i echo_accept_inv [OF i Handle(3)] do_read_inv [OF i Handle(3)] do_write_inv [OF i]
    by (auto simp: e handle_event_def split: if_splits)
  have "e_set s' d = e_set s d" if "(d, v) \<in> set evs" for d v
  proof -
    have "d \<noteq> fd" using r that by (auto simp: reported_def rev_image_eqI)
    moreover have "d \<in> e_open s" using r i that by (fastforce simp: reported_def echo_inv_def set_ok_def)
    ultimately show ?thesis using handle_event_others [OF Handle(4)[unfolded e] Handle(3)] by blast
  qed
  then have "reported s' evs" using r by (fastforce simp: reported_def)
  with inv show ?thesis using Handle(2) by simp
qed auto

lemma echo_reach_inv: "echo_reach listenfd c \<Longrightarrow> echo_inv listenfd (fst c) \<and> reported (fst c) (snd c)"
proof (induction rule: echo_reach.induct)
  case Init
  then show ?case by (simp add: echo_init reported_def)
next
  case (Step c c')
  then show ?case using serve_inv by blast
qed

section \<open>What the server guarantees\<close>

text \<open>Two clients have connected, as descriptors 5 and 6.\<close>

definition demo_answer :: "int \<Rightarrow> string \<Rightarrow> int \<Rightarrow> answer" where
  "demo_answer n bs w = \<lparr>a_accept = n, a_read = Some bs, a_write = w\<rparr>"

definition demo_echo :: echo where
  "demo_echo = echo_accept (demo_answer 6 [] 0) (echo_accept (demo_answer 5 [] 0) (do_epoll_init 3))"

lemma demo_echo_state:
  "e_set demo_echo = [3 \<mapsto> POLL_IN, 5 \<mapsto> POLL_IN, 6 \<mapsto> POLL_IN]" "e_open demo_echo = {6, 5, 3}" "e_out demo_echo = []"
  by (simp_all add: demo_echo_def demo_answer_def echo_accept_def do_epoll_init_def add_event_def)

lemma serve_connect:
  assumes "echo_reach 3 (s, [])" "e_set s 3 = Some POLL_IN" "answer_ok s a"
  shows "echo_reach 3 (echo_accept a s, [])"
proof -
  have "serve 3 (s, []) (s, [(3, POLL_IN)])" using assms(2) by (intro serve.Wait) (simp add: reported_def)
  moreover have "serve 3 (s, [(3, POLL_IN)]) (echo_accept a s, [])"
    using assms(3) by (intro serve.Handle) (auto simp: handle_event_def)
  ultimately show ?thesis using assms(1) echo_reach.Step by blast
qed

lemma demo_echo_reach: "echo_reach 3 (demo_echo, [])"
  unfolding demo_echo_def
  by (intro serve_connect echo_reach.Init)
    (auto simp: demo_answer_def echo_accept_def do_epoll_init_def add_event_def answer_ok_def)

text \<open>
  C27. In every state of the echo server the epoll set holds exactly the open descriptors, the
  listening socket for connections and every other one either to be read or to be written, never
  both; the buffer is blank unless a connection waits to be written; and every event that \<open>epoll_wait\<close>
  has reported and that is still to be handled belongs to a descriptor that is open.
\<close>

theorem echo_epoll_set:
  assumes "echo_reach listenfd (s, evs)"
  shows "dom (e_set s) = e_open s \<and> e_set s listenfd = Some POLL_IN
    \<and> (\<forall>fd \<in> e_open s. e_set s fd = Some POLL_IN \<or> e_set s fd = Some POLL_OUT)
    \<and> (e_buf s = replicate MAXSIZE (CHR 0x00) \<or> (\<exists>fd. e_set s fd = Some POLL_OUT))
    \<and> fst ` set evs \<subseteq> e_open s"
proof -
  have inv: "echo_inv listenfd s" and r: "reported s evs" using echo_reach_inv [OF assms] by auto
  have dom: "dom (e_set s) = e_open s" using inv by (simp add: echo_inv_def set_ok_def)
  have "e_set s fd = Some POLL_IN \<or> e_set s fd = Some POLL_OUT" if "fd \<in> e_open s" for fd
    using inv that dom by (fastforce simp: echo_inv_def set_ok_def)
  moreover have "fst ` set evs \<subseteq> e_open s" unfolding dom [symmetric] using r by (fastforce simp: reported_def)
  ultimately show ?thesis using inv by (simp add: echo_inv_def set_ok_def e_blank_def)
qed

lemma echo_epoll_set_witness: "dom (e_set demo_echo) = {6, 5, 3} \<and> e_buf demo_echo = replicate MAXSIZE (CHR 0x00)"
proof -
  have "e_set demo_echo fd \<noteq> Some POLL_OUT" for fd by (simp add: demo_echo_state)
  with echo_epoll_set [OF demo_echo_reach] show ?thesis unfolding demo_echo_state(2) by blast
qed

section \<open>One buffer for all\<close>

lemma cstr_zeros: "n > 0 \<Longrightarrow> cstr (xs @ replicate n (CHR 0x00) @ ys) = cstr xs"
proof -
  assume "n > 0"
  then obtain m where m: "n = Suc m" using gr0_implies_Suc by blast
  show ?thesis unfolding m by (induction xs) (simp_all add: cstr_def)
qed

lemma store_blank:
  "length bs \<le> MAXSIZE \<Longrightarrow> mem_put 0 bs (replicate MAXSIZE (CHR 0x00)) = bs @ replicate (MAXSIZE - length bs) (CHR 0x00)"
  by (simp add: mem_put_def)

lemma store_twice:
  assumes "length xs < MAXSIZE" "length ys < MAXSIZE"
  shows "mem_put 0 ys (xs @ replicate (MAXSIZE - length xs) (CHR 0x00))
    = (ys @ drop (length ys) xs) @ replicate (MAXSIZE - length (ys @ drop (length ys) xs)) (CHR 0x00)"
  using assms by (simp add: mem_put_def)

lemma terminated_zeros: "n > 0 \<Longrightarrow> terminated (xs @ replicate n (CHR 0x00))"
  by (simp add: terminated_def)

lemma no_out_blank: "echo_reach listenfd (s, evs) \<Longrightarrow> \<forall>fd. e_set s fd \<noteq> Some POLL_OUT \<Longrightarrow> e_blank s"
  using echo_reach_inv by (fastforce simp: echo_inv_def)

lemma in_ne_listen: "echo_reach listenfd (s, evs) \<Longrightarrow> e_set s fd = Some st \<Longrightarrow> fd \<in> e_open s"
  using echo_reach_inv by (fastforce simp: echo_inv_def set_ok_def)

lemma read_step:
  assumes "e_set s fd = Some st" "fd \<noteq> listenfd" "a_read a = Some bs" "bs \<noteq> []"
    and "mem_put 0 bs (e_buf s) = zs @ replicate n (CHR 0x00)" "n > 0"
  shows "handle_event listenfd (fd, POLL_IN) a s
    = Inr (s\<lparr>e_set := (e_set s)(fd \<mapsto> POLL_OUT), e_buf := zs @ replicate n (CHR 0x00)\<rparr>)"
proof -
  have s1: "store bs s = s\<lparr>e_buf := zs @ replicate n (CHR 0x00)\<rparr>" by (simp only: store_def assms(5))
  have t: "terminated (zs @ replicate n (CHR 0x00))" using assms(6) by (rule terminated_zeros)
  have "do_read fd a s = Inr (mod_event fd POLL_OUT (store bs s))"
    using assms(4) t by (simp add: do_read_def assms(3) s1)
  then show ?thesis using assms(1,2) by (simp add: handle_event_def s1 mod_event_def)
qed

lemma write_step:
  assumes "e_set s fd = Some st" "fd \<noteq> listenfd" "e_buf s = zs @ replicate n (CHR 0x00)" "n > 0"
    and "a_write a = int (length (cstr zs))"
  shows "handle_event listenfd (fd, POLL_OUT) a s
    = Inr (s\<lparr>e_set := (e_set s)(fd \<mapsto> POLL_IN), e_buf := replicate MAXSIZE (CHR 0x00), e_out := e_out s @ [(fd, cstr zs)]\<rparr>)"
proof -
  have t: "terminated (e_buf s)" unfolding assms(3) using assms(4) by (rule terminated_zeros)
  have c: "cstr (e_buf s) = cstr zs" using cstr_zeros [OF assms(4), of zs "[]"] by (simp only: assms(3) append_Nil2)
  have "do_write fd a s = Inr (wipe (mod_event fd POLL_IN (write_buf fd (a_write a) s)))"
    using t assms(5) by (simp add: do_write_def)
  then show ?thesis using assms(1,2,5) by (simp add: handle_event_def write_buf_def c mod_event_def wipe_def)
qed

text \<open>
  C28. Served alone, a client gets back what it sent: when no other connection waits to be
  written, a message of less than 1024 bytes is read and written back up to its first zero byte, and the server is
  afterwards in the state it was in before.
\<close>

theorem echo_alone:
  assumes "echo_reach listenfd (s, [])" and "\<forall>d. e_set s d \<noteq> Some POLL_OUT"
    and "e_set s fd = Some POLL_IN" "fd \<noteq> listenfd"
    and "a_read a = Some bs" "bs \<noteq> []" "length bs < MAXSIZE" and "a_write b = int (length (cstr bs))"
  shows "bindE (handle_events listenfd [((fd, POLL_IN), a)] s) (handle_events listenfd [((fd, POLL_OUT), b)])
    = Inr (s\<lparr>e_out := e_out s @ [(fd, cstr bs)]\<rparr>)"
proof -
  have bl: "e_buf s = replicate MAXSIZE (CHR 0x00)" using no_out_blank [OF assms(1,2)] by (simp add: e_blank_def)
  have n: "MAXSIZE - length bs > 0" using assms(7) by simp
  have st: "mem_put 0 bs (e_buf s) = bs @ replicate (MAXSIZE - length bs) (CHR 0x00)"
    using store_blank assms(7) by (simp add: bl)
  let ?s = "s\<lparr>e_set := (e_set s)(fd \<mapsto> POLL_OUT), e_buf := bs @ replicate (MAXSIZE - length bs) (CHR 0x00)\<rparr>"
  have "handle_event listenfd (fd, POLL_IN) a s = Inr ?s" using read_step [OF assms(3-6) st n] .
  moreover have "handle_event listenfd (fd, POLL_OUT) b ?s = Inr (s\<lparr>e_out := e_out s @ [(fd, cstr bs)]\<rparr>)"
    using write_step [of ?s fd POLL_OUT listenfd bs "MAXSIZE - length bs" b] assms(3,4,8) n bl
    by (simp add: fun_upd_idem)
  ultimately show ?thesis by simp
qed

lemma echo_alone_witness:
  "bindE (handle_events 3 [((5, POLL_IN), demo_answer 0 ''hi'' 0)] demo_echo) (handle_events 3 [((5, POLL_OUT), demo_answer 0 [] 2)])
    = Inr (demo_echo\<lparr>e_out := [(5, ''hi'')]\<rparr>)"
proof -
  have "cstr ''hi'' = ''hi''" by code_simp
  with echo_alone [OF demo_echo_reach, of 5 "demo_answer 0 ''hi'' 0" "''hi''" "demo_answer 0 [] 2"] show ?thesis
    by (simp add: demo_echo_state demo_answer_def)
qed

text \<open>
  C29. Two clients that are ready at the same time are mixed up: when both messages are read
  before the first is written, the first client gets the second client's bytes (followed by what is longer of its
  own), and the second client gets nothing.
\<close>

theorem echo_mixed_up:
  assumes "echo_reach listenfd (s, [])" and "\<forall>d. e_set s d \<noteq> Some POLL_OUT"
    and "e_set s fd = Some POLL_IN" "fd \<noteq> listenfd" and "e_set s fd' = Some POLL_IN" "fd' \<noteq> listenfd" "fd \<noteq> fd'"
    and "a_read a = Some xs" "xs \<noteq> []" "length xs < MAXSIZE" and "a_read a' = Some ys" "ys \<noteq> []" "length ys < MAXSIZE"
    and "a_write b = int (length (cstr (ys @ drop (length ys) xs)))" and "a_write b' = 0"
  shows "bindE (handle_events listenfd [((fd, POLL_IN), a), ((fd', POLL_IN), a')] s)
      (handle_events listenfd [((fd, POLL_OUT), b), ((fd', POLL_OUT), b')])
    = Inr (s\<lparr>e_out := e_out s @ [(fd, cstr (ys @ drop (length ys) xs)), (fd', [])]\<rparr>)"
proof -
  let ?z = "ys @ drop (length ys) xs"
  have bl: "e_buf s = replicate MAXSIZE (CHR 0x00)" using no_out_blank [OF assms(1,2)] by (simp add: e_blank_def)
  have n: "MAXSIZE - length xs > 0" "MAXSIZE - length ?z > 0" using assms(10,13) by auto
  have st: "mem_put 0 xs (e_buf s) = xs @ replicate (MAXSIZE - length xs) (CHR 0x00)"
    using store_blank assms(10) by (simp add: bl)
  define s1 where "s1 = s\<lparr>e_set := (e_set s)(fd \<mapsto> POLL_OUT), e_buf := xs @ replicate (MAXSIZE - length xs) (CHR 0x00)\<rparr>"
  define s2 where "s2 = s1\<lparr>e_set := (e_set s1)(fd' \<mapsto> POLL_OUT), e_buf := ?z @ replicate (MAXSIZE - length ?z) (CHR 0x00)\<rparr>"
  define s3 where "s3 = s2\<lparr>e_set := (e_set s2)(fd \<mapsto> POLL_IN), e_buf := replicate MAXSIZE (CHR 0x00), e_out := e_out s2 @ [(fd, cstr ?z)]\<rparr>"
  have r1: "handle_event listenfd (fd, POLL_IN) a s = Inr s1"
    unfolding s1_def by (rule read_step [OF assms(3,4,8,9) st n(1)])
  have "mem_put 0 ys (e_buf s1) = ?z @ replicate (MAXSIZE - length ?z) (CHR 0x00)"
    using store_twice [OF assms(10,13)] by (simp add: s1_def)
  then have r2: "handle_event listenfd (fd', POLL_IN) a' s1 = Inr s2"
    unfolding s2_def using assms(5,7) by (intro read_step [OF _ assms(6,11,12) _ n(2)]) (auto simp: s1_def)
  have w1: "handle_event listenfd (fd, POLL_OUT) b s2 = Inr s3"
    unfolding s3_def using assms(7) by (intro write_step [OF _ assms(4) _ n(2) assms(14)]) (auto simp: s2_def s1_def)
  have "handle_event listenfd (fd', POLL_OUT) b' s3
      = Inr (s3\<lparr>e_set := (e_set s3)(fd' \<mapsto> POLL_IN), e_buf := replicate MAXSIZE (CHR 0x00), e_out := e_out s3 @ [(fd', cstr [])]\<rparr>)"
    using assms(6,7,15) by (intro write_step [of _ _ POLL_OUT _ "[]" MAXSIZE]) (auto simp: s3_def s2_def cstr_def)
  also have "s3\<lparr>e_set := (e_set s3)(fd' \<mapsto> POLL_IN), e_buf := replicate MAXSIZE (CHR 0x00), e_out := e_out s3 @ [(fd', cstr [])]\<rparr>
      = s\<lparr>e_out := e_out s @ [(fd, cstr ?z), (fd', [])]\<rparr>"
    using assms(3,5,7) bl by (auto simp: s3_def s2_def s1_def cstr_def fun_eq_iff)
  finally show ?thesis using r1 r2 w1 by simp
qed

lemma echo_mixed_up_witness:
  "bindE (handle_events 3 [((5, POLL_IN), demo_answer 0 ''hello'' 0), ((6, POLL_IN), demo_answer 0 ''J'' 0)] demo_echo)
     (handle_events 3 [((5, POLL_OUT), demo_answer 0 [] 5), ((6, POLL_OUT), demo_answer 0 [] 0)])
   = Inr (demo_echo\<lparr>e_out := [(5, ''Jello''), (6, [])]\<rparr>)"
proof -
  have "cstr (''J'' @ drop (length ''J'') ''hello'') = ''Jello''" by code_simp
  with echo_mixed_up [OF demo_echo_reach, of 5 6 "demo_answer 0 ''hello'' 0" "''hello''" "demo_answer 0 ''J'' 0" "''J''"
      "demo_answer 0 [] 5" "demo_answer 0 [] 0"]
  show ?thesis by (simp add: demo_echo_state demo_answer_def)
qed

section \<open>The client\<close>

definition silent :: "echo \<times> (int \<times> 32 word) list \<Rightarrow> bool" where
  "silent = (\<lambda>(s, evs). (\<forall>fd st. e_set s fd = Some st \<longrightarrow> st = POLL_IN \<or> fd = STDOUT_FILENO)
     \<and> (\<forall>(fd, events) \<in> set evs. fd = STDOUT_FILENO \<or> events AND POLL_OUT = 0)
     \<and> (\<forall>(fd, bs) \<in> set (e_out s). fd = STDOUT_FILENO))"

lemma cli_read_silent: "silent (s, evs) \<Longrightarrow> sockfd \<noteq> STDOUT_FILENO \<Longrightarrow> silent (cli_read fd sockfd a s, evs)"
  by (auto simp: silent_def cli_read_def echo_ops Let_def split: option.splits)

lemma cli_write_silent: "silent (s, evs) \<Longrightarrow> cli_write STDOUT_FILENO a s = Inr s' \<Longrightarrow> silent (s', evs)"
  by (auto simp: silent_def cli_write_def echo_ops Let_def split: if_splits) blast+

lemma consume_silent: "consume sockfd c c' \<Longrightarrow> silent c \<Longrightarrow> sockfd \<noteq> STDOUT_FILENO \<Longrightarrow> silent c'"
proof (induction rule: consume.induct)
  case (Wait s evs)
  then show ?case using echo_bits(1) by (fastforce simp: silent_def reported_def)
next
  case (Handle s a e s' evs)
  obtain fd ev where e: "e = (fd, ev)" by (cases e)
  have q: "silent (s, evs)" and f: "fd = STDOUT_FILENO \<or> ev AND POLL_OUT = 0"
    using Handle(3) by (auto simp: silent_def e)
  show ?case using Handle(2,4) f q cli_read_silent [OF q] cli_write_silent [OF q]
    by (auto simp: e cli_event_def split: if_splits)
qed

lemma echo_cli_reach_silent: "echo_cli_reach sockfd c \<Longrightarrow> silent c \<and> sockfd \<ge> 3"
proof (induction rule: echo_cli_reach.induct)
  case Init
  then show ?case by (auto simp: silent_def handle_connection_init_def add_event_def)
next
  case (Step c c')
  then show ?case using consume_silent [OF Step(2)] by auto
qed

text \<open>
  The echo client never sends: after a line from the terminal it registers the socket for reading
  (\<open>EPOLLIN\<close>) instead of writing, so whatever happens it never waits to write to the socket and everything
  it ever writes goes to the terminal; the server has nothing to echo.
\<close>

theorem echo_client_silent:
  assumes "echo_cli_reach sockfd (s, evs)"
  shows "e_set s sockfd \<noteq> Some POLL_OUT \<and> (\<forall>bs. (sockfd, bs) \<notin> set (e_out s))"
  using echo_cli_reach_silent [OF assms] by (fastforce simp: silent_def)

definition demo_cli :: echo where
  "demo_cli = cli_read 0 4 (demo_answer 0 ''hi'' 0) (handle_connection_init 4)"

lemma demo_cli_reach: "echo_cli_reach 4 (demo_cli, [])"
proof -
  have "echo_cli_reach 4 (handle_connection_init 4, [])" by (rule echo_cli_reach.Init) simp
  moreover have "consume 4 (handle_connection_init 4, []) (handle_connection_init 4, [(0, POLL_IN)])"
    by (rule consume.Wait) (simp add: reported_def handle_connection_init_def add_event_def)
  moreover have "consume 4 (handle_connection_init 4, [(0, POLL_IN)]) (demo_cli, [])"
    by (rule consume.Handle [of _ "demo_answer 7 ''hi'' 0"])
      (auto simp: answer_ok_def demo_answer_def handle_connection_init_def add_event_def cli_event_def demo_cli_def cli_read_def)
  ultimately show ?thesis using echo_cli_reach.Step by blast
qed

text \<open>After the first line the socket is registered for reading, and nothing has gone out.\<close>

lemma echo_client_silent_witness:
  "e_set demo_cli 4 = Some POLL_IN \<and> e_set demo_cli 4 \<noteq> Some POLL_OUT \<and> (\<forall>bs. (4, bs) \<notin> set (e_out demo_cli))"
proof -
  have "e_set demo_cli 4 = Some POLL_IN"
    by (simp add: demo_cli_def cli_read_def demo_answer_def store_def handle_connection_init_def add_event_def)
  with echo_client_silent [OF demo_cli_reach] show ?thesis by simp
qed

end
