(* ===== verification/Frame_Server.thy ===== *)
theory Frame_Server
  imports Mh_Comm
begin

text \<open>
  The server and the client of \<open>thconcurrent_frame\<close>: \<open>mhcomm_dll/comm.c\<close> (sockets), the accept loop of
  \<open>server/server.c\<close>, the handler of a connection in \<open>server/server_handler.c\<close> and the loop of
  \<open>client/client.c\<close>. System calls are answered from arguments.
\<close>

section \<open>A connection\<close>

abbreviation (input) BUFFER_SIZE :: nat where "BUFFER_SIZE \<equiv> 2048"

text \<open>
  \<open>server_handle\<close> over the answers of \<open>recv\<close>: the bytes received, at most \<open>BUFFER_SIZE\<close>, into a zeroed
  buffer, or an error. The result lists what \<open>server_process\<close> made of each round and the reply,
  whose length \<open>olen\<close> nothing sets; the flag says that the loop has ended, the socket is closed
  and \<open>rmsg\<close> freed. Without the flag the handler is waiting in \<open>recv\<close>.
\<close>

fun server_handle :: "string option list \<Rightarrow> fault + (string list option \<times> string) list \<times> bool" where
  "server_handle [] = Inr ([], False)"
| "server_handle (r # rest) =
     (case r of
        None \<Rightarrow> Inr ([], True)
      | Some bs \<Rightarrow>
          if bs = [] then Inr ([], True)
          else let buf = bs @ replicate (BUFFER_SIZE - length bs) (CHR 0x00); olen = 0; obuf = replicate BUFFER_SIZE (CHR 0x00)
               in bindE (server_process buf (length bs)) (\<lambda>p.
                  bindE (server_handle rest) (\<lambda>(ps, closed). Inr ((p, take olen obuf) # ps, closed))))"

section \<open>Listening\<close>

text \<open>
  What \<open>socket\<close>, \<open>setsockopt\<close>, \<open>bind\<close> and \<open>listen\<close> answer; \<open>opened\<close> are the open sockets of the process that
  are not connections.
\<close>

record sock_answers =
  sa_socket :: int
  sa_setsockopt :: int
  sa_bind :: int
  sa_listen :: int

definition mh_init_server_sock :: "sock_answers \<Rightarrow> int set \<Rightarrow> int \<times> int set" where
  "mh_init_server_sock a opened =
     (let server_sockd = sa_socket a in
      if server_sockd < 0 then (- 1, opened)
      else let opened1 = insert server_sockd opened in
        if sa_setsockopt a < 0 then (- 1, opened1)
        else if sa_bind a < 0 then (- 1, opened1)
        else (server_sockd, opened1))"

definition mh_init_server_tcp_sock :: "sock_answers \<Rightarrow> int set \<Rightarrow> int \<times> int set" where
  "mh_init_server_tcp_sock a opened =
     (let (server_sockd, opened1) = mh_init_server_sock a opened in
      if server_sockd = - 1 then (- 1, opened1)
      else if sa_listen a < 0 then (- 1, opened1)
      else (server_sockd, opened1))"

text \<open>
  \<open>mh_sendto\<close>: whether it returns at all with a value (it has no last \<open>return\<close>), the open sockets, and the
  datagram it passes on. The socket is not closed.
\<close>

definition mh_sendto :: "string option \<Rightarrow> string option \<Rightarrow> int \<Rightarrow> int set \<Rightarrow> int option \<times> int set \<times> string option" where
  "mh_sendto dest send_buf socket_r opened =
     (case (dest, send_buf) of
        (Some d, Some b) \<Rightarrow>
          if b = [] then (Some (- 1), opened, None)
          else if socket_r < 0 then (Some (- 1), opened, None)
          else (None, insert socket_r opened, Some b)
      | _ \<Rightarrow> (Some (- 1), opened, None))"

section \<open>The accept loop\<close>

record srv =
  server_sockd :: int
  opened :: "int set"
  workers :: "int list"

text \<open>\<open>main\<close> up to the loop; \<open>None\<close> is the return with \<open>-1\<close>.\<close>

definition srv_init :: "sock_answers \<Rightarrow> srv option" where
  "srv_init a =
     (let (fd, op) = mh_init_server_tcp_sock a {} in
      if fd < 0 then None else Some \<lparr>server_sockd = fd, opened = op, workers = []\<rparr>)"

text \<open>
  One round with the answer of \<open>accept\<close>: a connection goes to the thread pool; after an error the
  listening socket is closed and made anew.
\<close>

definition srv_round :: "int \<Rightarrow> sock_answers \<Rightarrow> srv \<Rightarrow> srv" where
  "srv_round client_sockd a s =
     (if client_sockd < 0 then
        let opened1 = opened s - {server_sockd s} - {client_sockd};
            (fd, opened2) = mh_init_server_tcp_sock a opened1
        in s\<lparr>server_sockd := fd, opened := opened2\<rparr>
      else s\<lparr>workers := workers s @ [client_sockd]\<rparr>)"

fun listen_loop :: "(int \<times> sock_answers) list \<Rightarrow> srv \<Rightarrow> srv" where
  "listen_loop [] s = s"
| "listen_loop ((client_sockd, a) # rest) s = listen_loop rest (srv_round client_sockd a s)"

text \<open>
  Answers the system can give: \<open>accept\<close> succeeds only on an open listening socket, \<open>socket\<close> returns a descriptor
  that is not open.
\<close>

fun srv_answers_ok :: "(int \<times> sock_answers) list \<Rightarrow> srv \<Rightarrow> bool" where
  "srv_answers_ok [] s = True"
| "srv_answers_ok ((client_sockd, a) # rest) s =
     ((client_sockd \<ge> 0 \<longrightarrow> server_sockd s \<in> opened s)
      \<and> (sa_socket a \<ge> 0 \<longrightarrow> sa_socket a \<notin> opened s - {server_sockd s})
      \<and> srv_answers_ok rest (srv_round client_sockd a s))"

section \<open>The client\<close>

text \<open>
  The loop of \<open>main\<close> for \<open>n\<close> rounds: the answers of \<open>send\<close>, \<open>socket\<close> and \<open>connect\<close> in each. The result is
  whether the loop was finished and what went out on each connection, the last one first.
\<close>

fun client_loop :: "nat \<Rightarrow> (int \<times> int \<times> int) list \<Rightarrow> string \<Rightarrow> string list list \<Rightarrow> bool \<times> string list list" where
  "client_loop 0 script msg conns = (True, conns)"
| "client_loop (Suc n) [] msg conns = (False, conns)"
| "client_loop (Suc n) ((send_r, socket_r, connect_r) # rest) msg conns =
     (if send_r < 0 then
        if socket_r < 0 then (False, conns)
        else if connect_r \<noteq> 0 then (False, conns)
        else client_loop n rest msg ([] # conns)
      else case conns of
             [] \<Rightarrow> client_loop n rest msg [[msg]]
           | c # cs \<Rightarrow> client_loop n rest msg ((c @ [msg]) # cs))"

text \<open>The message of \<open>main\<close>: the login request of a name, a password and an id.\<close>

definition client_msg :: "(nat \<Rightarrow> string) \<Rightarrow> string \<Rightarrow> string \<Rightarrow> string \<Rightarrow> fault + string" where
  "client_msg garbage username password uid =
     bindE (push_all garbage [username @ [CHR 0x00], password @ [CHR 0x00], uid] (create_cmsg garbage user_login_type))
       (\<lambda>m. Inr (take (msg_pos m) (msg_mem m)))"

end
