(* ===== verification/Frame_Props.thy ===== *)
theory Frame_Props
  imports Frame_Server Mh_Props
begin

text \<open>
  The frame end to end: sessions of login requests, and the listening sockets of the server.
\<close>

section \<open>Sessions\<close>

definition fits :: "string \<Rightarrow> string \<Rightarrow> string \<Rightarrow> (nat \<Rightarrow> string) \<Rightarrow> bool" where
  "fits u p uid g \<longleftrightarrow> length u < 129 \<and> length p < 129 \<and> length uid = 8 \<and> length (g max_cmsg_buf_size) = max_cmsg_buf_size"

abbreviation fields :: "string \<Rightarrow> string \<Rightarrow> string \<Rightarrow> string list" where
  "fields u p uid \<equiv> [u @ [CHR 0x00], p @ [CHR 0x00], uid]"

lemma client_request:
  assumes "fits u p uid g"
  obtains m where "client_msg g u p uid = Inr m" "m \<noteq> []" "length m \<le> 274"
    "\<And>rest n. length rest \<ge> 2 \<Longrightarrow> n \<ge> length m \<Longrightarrow> server_process (m @ rest) n = Inr (Some (fields u p uid))"
proof -
  obtain m where m: "push_all g (fields u p uid) (create_cmsg g user_login_type) = Inr m"
      "length (content m) = 16 + length (u @ [CHR 0x00]) + length (p @ [CHR 0x00])"
      "\<And>rest n. length rest \<ge> 2 \<Longrightarrow> n \<ge> length (content m) \<Longrightarrow> server_process (content m @ rest) n = Inr (Some (fields u p uid))"
    by (rule login_request [of "u @ [CHR 0x00]" "p @ [CHR 0x00]" uid g]) (use assms in \<open>auto simp: fits_def\<close>)
  have "client_msg g u p uid = Inr (content m)" by (simp add: client_msg_def m(1) content_def)
  moreover have "content m \<noteq> []" using m(2) by auto
  moreover have "length (content m) \<le> 274" using m(2) assms by (simp add: fits_def)
  ultimately show thesis using that m(3) by blast
qed

lemma server_one:
  assumes "bs \<noteq> []" "server_process (bs @ replicate (BUFFER_SIZE - length bs) (CHR 0x00)) (length bs) = Inr x"
  shows "server_handle (Some bs # rest) = bindE (server_handle rest) (\<lambda>(ps, closed). Inr ((x, []) # ps, closed))"
  using assms by simp

lemma server_many:
  assumes "bs \<noteq> []" "server_process (bs @ replicate (BUFFER_SIZE - length bs) (CHR 0x00)) (length bs) = Inr x"
  shows "server_handle (map Some (replicate n bs) @ [None]) = Inr (replicate n (x, []), True)"
proof (induction n)
  case (Suc n)
  show ?case using server_one [OF assms, of "map Some (replicate n bs) @ [None]"] Suc by simp
qed simp





text \<open>
  Requests that arrive together are one: whatever follows a login request in the same answer of \<open>recv\<close>,
  another request included, is thrown away with the buffer.
\<close>

theorem login_merged:
  assumes "fits u p uid g" and "client_msg g u p uid = Inr m" and "length (m @ extra) + 2 \<le> BUFFER_SIZE"
  shows "server_handle [Some (m @ extra), None] = Inr ([(Some (fields u p uid), [])], True)"
proof -
  obtain m' where m: "client_msg g u p uid = Inr m'" "m' \<noteq> []"
      "\<And>rest n. length rest \<ge> 2 \<Longrightarrow> n \<ge> length m' \<Longrightarrow> server_process (m' @ rest) n = Inr (Some (fields u p uid))"
    using client_request [OF assms(1)] by blast
  have "m' = m" using m(1) assms(2) by simp
  then have "server_process ((m @ extra) @ replicate (BUFFER_SIZE - length (m @ extra)) (CHR 0x00)) (length (m @ extra))
      = Inr (Some (fields u p uid))"
    using m(3) [of "extra @ replicate (BUFFER_SIZE - length (m @ extra)) (CHR 0x00)" "length (m @ extra)"] assms(3) by simp
  then show ?thesis using server_many [of "m @ extra" _ 1] m(2) \<open>m' = m\<close> by simp
qed

lemma login_merged_witness:
  "\<exists>m. client_msg (\<lambda>n. replicate n CHR ''?'') ''jason'' ''123456'' (replicate 8 CHR 0x07) = Inr m
    \<and> server_handle [Some (m @ m), None] = Inr ([(Some (fields ''jason'' ''123456'' (replicate 8 CHR 0x07)), [])], True)"
proof -
  let ?g = "\<lambda>n. replicate n CHR ''?''"
  have f: "fits ''jason'' ''123456'' (replicate 8 CHR 0x07) ?g" by (simp add: fits_def)
  from client_request [OF f] obtain m where m: "client_msg ?g ''jason'' ''123456'' (replicate 8 CHR 0x07) = Inr m" "length m \<le> 274"
    by blast
  with login_merged [OF f m(1), of m] show ?thesis by auto
qed

section \<open>Listening\<close>

lemma init_cases:
  "mh_init_server_tcp_sock a opn =
    (if sa_socket a < 0 then (- 1, opn)
     else if sa_setsockopt a < 0 \<or> sa_bind a < 0 \<or> sa_listen a < 0 then (- 1, insert (sa_socket a) opn)
     else (sa_socket a, insert (sa_socket a) opn))"
  by (auto simp: mh_init_server_tcp_sock_def mh_init_server_sock_def Let_def)

text \<open>The sockets of failed attempts to listen, which nothing refers to any more.\<close>

definition failed_listen :: "int \<times> sock_answers \<Rightarrow> bool" where
  "failed_listen = (\<lambda>(r, a). r < 0 \<and> sa_socket a \<ge> 0 \<and> (sa_setsockopt a < 0 \<or> sa_bind a < 0 \<or> sa_listen a < 0))"

definition lost_sockets :: "(int \<times> sock_answers) list \<Rightarrow> int list" where
  "lost_sockets script = map (sa_socket \<circ> snd) (filter failed_listen script)"

definition listens :: "srv \<Rightarrow> int list \<Rightarrow> bool" where
  "listens s lost \<longleftrightarrow> distinct lost \<and> (\<forall>x \<in> set lost. x \<ge> 0) \<and>
     (server_sockd s = - 1 \<and> opened s = set lost
      \<or> server_sockd s \<ge> 0 \<and> server_sockd s \<notin> set lost \<and> opened s = insert (server_sockd s) (set lost))"

lemma srv_round_listens:
  assumes "listens s lost" "r \<ge> 0 \<Longrightarrow> server_sockd s \<in> opened s" "sa_socket a \<ge> 0 \<Longrightarrow> sa_socket a \<notin> opened s - {server_sockd s}"
  shows "listens (srv_round r a s) (lost @ lost_sockets [(r, a)])"
    and "workers (srv_round r a s) = workers s @ filter (\<lambda>r. r \<ge> 0) [r]"
proof -
  show "listens (srv_round r a s) (lost @ lost_sockets [(r, a)])"
  proof (cases "r < 0")
    case True
    have o: "opened s - {server_sockd s} - {r} = set lost" using assms(1) True by (fastforce simp: listens_def)
    moreover have "sa_socket a \<ge> 0 \<Longrightarrow> sa_socket a \<notin> set lost" using assms(3) o True by auto
    ultimately show ?thesis using assms(1) True
      by (auto simp: listens_def srv_round_def init_cases Let_def lost_sockets_def failed_listen_def)
  next
    case False
    then show ?thesis using assms(1) by (simp add: srv_round_def lost_sockets_def failed_listen_def listens_def)
  qed
qed (simp add: srv_round_def Let_def split: prod.splits)

lemma listen_loop_listens:
  "listens s lost \<Longrightarrow> srv_answers_ok script s \<Longrightarrow> listens (listen_loop script s) (lost @ lost_sockets script)
     \<and> workers (listen_loop script s) = workers s @ filter (\<lambda>r. r \<ge> 0) (map fst script)"
proof (induction script s arbitrary: lost rule: listen_loop.induct)
  case (2 r a rest s)
  have ok: "r \<ge> 0 \<Longrightarrow> server_sockd s \<in> opened s" "sa_socket a \<ge> 0 \<Longrightarrow> sa_socket a \<notin> opened s - {server_sockd s}"
    "srv_answers_ok rest (srv_round r a s)" using 2(3) by auto
  have "lost_sockets ((r, a) # rest) = lost_sockets [(r, a)] @ lost_sockets rest" by (simp add: lost_sockets_def)
  then show ?case
    using 2(1) [OF srv_round_listens(1) [OF 2(2) ok(1,2)] ok(3)] srv_round_listens(2) [OF 2(2) ok(1,2)] by simp
qed (simp add: lost_sockets_def)

text \<open>
  C37. The accept loop hands every connection to the thread pool, once and in the order in which they are
  accepted, and has at every moment at most one listening socket that it knows; but
  each failed attempt to listen again leaves its socket open for ever: the open sockets are the known one and
  those of all failed attempts.
\<close>

theorem server_listeners:
  assumes "srv_init a0 = Some s0" and "srv_answers_ok script s0" and "s = listen_loop script s0"
  shows "workers s = filter (\<lambda>r. r \<ge> 0) (map fst script)
    \<and> (server_sockd s = - 1 \<or> server_sockd s \<in> opened s)
    \<and> opened s - {server_sockd s} = set (lost_sockets script)
    \<and> card (opened s - {server_sockd s}) = length (filter failed_listen script)"
proof -
  have "listens s0 []" "workers s0 = []"
    using assms(1) by (auto simp: srv_init_def init_cases listens_def split: if_splits)
  with listen_loop_listens [of s0 "[]" script] assms(2,3)
  have l: "listens s (lost_sockets script)" and w: "workers s = filter (\<lambda>r. r \<ge> 0) (map fst script)" by simp_all
  have o: "opened s - {server_sockd s} = set (lost_sockets script)" using l by (auto simp: listens_def)
  moreover have "card (set (lost_sockets script)) = length (filter failed_listen script)"
    using l by (simp add: listens_def distinct_card) (simp add: lost_sockets_def)
  ultimately show ?thesis using l w by (auto simp: listens_def)
qed

lemma server_listeners_witness:
  "\<exists>s0. srv_init \<lparr>sa_socket = 3, sa_setsockopt = 0, sa_bind = 0, sa_listen = 0\<rparr> = Some s0
    \<and> (case listen_loop [(5, \<lparr>sa_socket = 9, sa_setsockopt = 0, sa_bind = 0, sa_listen = 0\<rparr>),
          (- 1, \<lparr>sa_socket = 3, sa_setsockopt = 0, sa_bind = - 1, sa_listen = 0\<rparr>),
          (- 1, \<lparr>sa_socket = 4, sa_setsockopt = 0, sa_bind = 0, sa_listen = 0\<rparr>)] s0 of
        s \<Rightarrow> workers s = [5] \<and> card (opened s - {server_sockd s}) = 1)"
proof -
  let ?a = "\<lparr>sa_socket = 3, sa_setsockopt = 0, sa_bind = 0, sa_listen = 0\<rparr>"
  let ?script = "[(5, \<lparr>sa_socket = 9, sa_setsockopt = 0, sa_bind = 0, sa_listen = 0\<rparr>),
          (- 1, \<lparr>sa_socket = 3, sa_setsockopt = 0, sa_bind = - 1, sa_listen = 0\<rparr>),
          (- 1, \<lparr>sa_socket = 4, sa_setsockopt = 0, sa_bind = 0, sa_listen = 0\<rparr>)]"
  let ?s0 = "\<lparr>server_sockd = 3, opened = {3}, workers = []\<rparr>"
  have i: "srv_init ?a = Some ?s0" by (simp add: srv_init_def init_cases)
  have "srv_answers_ok ?script ?s0" by (simp add: srv_round_def init_cases)
  note t = server_listeners [OF i this refl]
  have "filter (\<lambda>r. r \<ge> 0) (map fst ?script) = [5 :: int]" "length (filter failed_listen ?script) = 1"
    by (simp_all add: failed_listen_def)
  with t have "workers (listen_loop ?script ?s0) = [5]"
    "card (opened (listen_loop ?script ?s0) - {server_sockd (listen_loop ?script ?s0)}) = 1"
    by (metis, metis)
  with i show ?thesis by (simp del: listen_loop.simps)
qed

end
