(* ===== verification/Mndb.thy ===== *)
theory Mndb
  imports Agent_Config Agent_Net Agent
begin

text \<open>
  \<open>2webclient/MNDBServer.cpp\<close>: the program from which the device agent was made, without the
  tunnel to the web server. It keeps the list of its connections and acts on flags that the
  callbacks of the SDK set and the loop of \<open>main\<close> reads. What the SDK answers to these calls is
  only printed, so that a call is recorded and not answered. The command line, the data of
  \<open>C_Channel_T\<close> and the class \<open>CSendThread\<close> are the same text as in \<open>deviceagent.cpp\<close>; the
  definitions of \<open>Agent_Config\<close>, \<open>Agent\<close> and \<open>Agent_Threads\<close> model them. No \<open>CSendThread\<close> is
  ever started.
\<close>

section \<open>State\<close>

record mndb =
  m_cfg :: config
  m_send_flg :: int
  m_reinit_flg :: int
  m_coninit_flg :: int
  m_closecon_flg :: int
  m_msg_flg :: int
  m_send_thread_flg :: int
  m_server_not_send_flag :: int
  m_szMsgName :: string
  m_nLocalDeviceID :: int
  m_vecConnections :: "conn list"
  m_nErrorCount :: int
  m_device_counter :: int
  m_connection_counter :: int
  m_connection_index :: int
  m_last_frame_ticket :: "int \<times> int"
  m_calls :: "os_call list"

definition mn_call :: "os_call \<Rightarrow> mndb \<Rightarrow> mndb" where
  "mn_call c s = s\<lparr>m_calls := m_calls s @ [c]\<rparr>"

definition mndb_init :: "config \<Rightarrow> mndb" where
  "mndb_init c = \<lparr>m_cfg = c, m_send_flg = 0, m_reinit_flg = 0, m_coninit_flg = 0, m_closecon_flg = 0,
     m_msg_flg = 0, m_send_thread_flg = 0, m_server_not_send_flag = 0, m_szMsgName = [],
     m_nLocalDeviceID = 0, m_vecConnections = [], m_nErrorCount = 0, m_device_counter = 0,
     m_connection_counter = 0, m_connection_index = 0, m_last_frame_ticket = (0, 0), m_calls = []\<rparr>"

section \<open>Device callbacks\<close>

definition mn_OnSDKInit :: "int \<Rightarrow> int \<Rightarrow> mndb \<Rightarrow> mndb" where
  "mn_OnSDKInit dev err s =
     (let s1 = s\<lparr>m_nLocalDeviceID := dev\<rparr>;
          s2 = (if mode (m_cfg s1) = 0 \<and> err = 0 then s1\<lparr>m_coninit_flg := 1\<rparr> else s1)
      in if err = 0 then s2\<lparr>m_reinit_flg := 0\<rparr> else s2)"

definition mn_OnSDKMessage :: "string \<Rightarrow> nat \<Rightarrow> mndb \<Rightarrow> mndb" where
  "mn_OnSDKMessage pData nLen s =
     (let pMsg = cstr (take nLen pData)
      in if mode (m_cfg s) = 1
         then if pMsg = ''start send'' then s\<lparr>m_send_flg := 1\<rparr>
              else if pMsg = ''stop send'' then s\<lparr>m_send_flg := 0\<rparr> else s
         else s)"

text \<open>The loop over \<open>vecConnections\<close> of \<open>OnSDKClose\<close> and \<open>CloseConnection\<close>, and \<open>clear\<close>.\<close>

fun mn_close_each :: "int \<Rightarrow> conn list \<Rightarrow> mndb \<Rightarrow> mndb" where
  "mn_close_each dev [] s = s"
| "mn_close_each dev (c # cs) s = mn_close_each dev cs (mn_call (S_connection_close dev (conn_id c)) s)"

definition mn_OnSDKClose :: "int \<Rightarrow> mndb \<Rightarrow> mndb" where
  "mn_OnSDKClose dev s =
     (let s1 = (if dev = m_nLocalDeviceID s
                then (mn_close_each dev (m_vecConnections s) s)\<lparr>m_vecConnections := []\<rparr> else s)
      in s1\<lparr>m_reinit_flg := 1\<rparr>)"

text \<open>The result is the counter when it is printed; a null \<open>pInfo\<close> is only met by the \<open>printf\<close>.\<close>

definition mn_OnSDKTimer :: "int option \<Rightarrow> mndb \<Rightarrow> fault + (int option \<times> mndb)" where
  "mn_OnSDKTimer info s =
     (let s1 = (case info of
                  None \<Rightarrow> s
                | Some dev \<Rightarrow> if dev \<noteq> 0 \<and> dev = m_nLocalDeviceID s
                              then s\<lparr>m_device_counter := to_i32 (m_device_counter s + 1)\<rparr> else s)
      in if timer_enable (m_cfg s1) \<noteq> 0 \<and> m_device_counter s1 mod 20 = 0
         then (if info = None then Inl Null_Deref else Inr (Some (m_device_counter s1), s1))
         else Inr (None, s1))"

definition mn_OnSDKConnectionTimer :: "mndb \<Rightarrow> int option \<times> mndb" where
  "mn_OnSDKConnectionTimer s =
     (let s1 = s\<lparr>m_connection_counter := to_i32 (m_connection_counter s + 1)\<rparr>
      in (if timer_enable (m_cfg s1) \<noteq> 0 \<and> m_connection_counter s1 mod 20 = 0
          then Some (m_connection_counter s1) else None, s1))"

section \<open>Connection callbacks\<close>

definition mn_OnSDKConnectionInit :: "conn \<Rightarrow> int \<Rightarrow> mndb \<Rightarrow> mndb" where
  "mn_OnSDKConnectionInit info err s =
     (if err \<noteq> 0 then s\<lparr>m_nErrorCount := m_nErrorCount s + 1\<rparr>
      else let s1 = mn_call (S_set_config (conn_id info) (200 * 1024))
                      (s\<lparr>m_vecConnections := m_vecConnections s @ [info]\<rparr>);
               s2 = (if frame_mode_enable (m_cfg s1) \<noteq> 0 then mn_call (S_frame_mode (conn_id info)) s1 else s1);
               s3 = (if mode (m_cfg s2) = 0 \<and> conn_promoter info
                     then s2\<lparr>m_szMsgName := conn_name info, m_msg_flg := 1\<rparr> else s2)
           in if mode (m_cfg s3) = 1 then s3\<lparr>m_send_thread_flg := 1\<rparr> else s3)"

text \<open>
  The data is printed with \<open>%s\<close>: the text runs to the first NUL of the memory from \<open>pData\<close> on,
  wherever the \<open>nLen\<close> bytes end. Nothing else is done with it.
\<close>

definition mn_OnSDKConnectionData :: "string \<Rightarrow> fault + string" where
  "mn_OnSDKConnectionData mem = (if CHR 0x00 \<in> set mem then Inr (cstr mem) else Inl Bad_Index)"

text \<open>As in the device agent; \<open>diff\<close> is the uninitialised variable.\<close>

definition mn_OnSDKConnectionFrame :: "int \<times> int \<Rightarrow> int \<times> int \<Rightarrow> mndb \<Rightarrow> int \<times> mndb" where
  "mn_OnSDKConnectionFrame diff time_now s =
     (let d = (case timeval_subtract (m_last_frame_ticket s) time_now of None \<Rightarrow> diff | Some d \<Rightarrow> d)
      in (ms_of (snd d), s\<lparr>m_last_frame_ticket := time_now\<rparr>))"

text \<open>The iterator loop with \<open>erase\<close>, then the close.\<close>

fun mn_erase_conn :: "int \<Rightarrow> conn list \<Rightarrow> conn list" where
  "mn_erase_conn cid [] = []"
| "mn_erase_conn cid (c # cs) = (if conn_id c = cid then mn_erase_conn cid cs else c # mn_erase_conn cid cs)"

definition mn_OnSDKConnectionClose :: "conn \<Rightarrow> mndb \<Rightarrow> mndb" where
  "mn_OnSDKConnectionClose info s =
     mn_call (S_connection_close (conn_dev info) (conn_id info))
       (s\<lparr>m_vecConnections := mn_erase_conn (conn_id info) (m_vecConnections s)\<rparr>)"

section \<open>Calls of the main loop\<close>

definition mn_InitDevice :: "mndb \<Rightarrow> fault + mndb" where
  "mn_InitDevice s =
     bindE (strcpy_into 64 (szName (m_cfg s))) (\<lambda>szId.
     bindE (index_array SDK_DEVICE_TYPE_STR (nType (m_cfg s))) (\<lambda>szType.
     bindE (strcpy_into 64 (szIp (m_cfg s))) (\<lambda>szServerIp.
       Inr (mn_call (S_device_init szId szType szServerIp (nPort (m_cfg s) mod 65536)
              (timer_enable (m_cfg s) \<noteq> 0)) s))))"

definition mn_InitConnection :: "mndb \<Rightarrow> fault + mndb" where
  "mn_InitConnection s =
     (let nContext = m_connection_index s; s1 = s\<lparr>m_connection_index := to_i32 (nContext + 1)\<rparr> in
      bindE (strcpy_into 64 (szTarget (m_cfg s1))) (\<lambda>name.
      bindE (index_array SDK_CONNECTION_TYPE_STR (nConnectionType (m_cfg s1))) (\<lambda>szType.
        Inr (mn_call (S_connection_init (m_nLocalDeviceID s1) nContext name szType) s1))))"

definition mn_CloseConnection :: "mndb \<Rightarrow> mndb" where
  "mn_CloseConnection s =
     (mn_close_each (m_nLocalDeviceID s) (m_vecConnections s) s)\<lparr>m_vecConnections := []\<rparr>"

definition mn_SendMsgToServer :: "mndb \<Rightarrow> mndb" where
  "mn_SendMsgToServer s = mn_call (S_send_msg (m_nLocalDeviceID s) (m_szMsgName s) (CHR 0x0A # channel_bytes)) s"

section \<open>main\<close>

definition mn_main_start :: "string list \<Rightarrow> fault + mndb" where
  "mn_main_start argv =
     bindE (parse_args argv config_init) (\<lambda>(_, c).
     bindE (printarg c) (\<lambda>_. mn_InitDevice (mn_call S_init (mndb_init c))))"

definition mn_if_close :: "mndb \<Rightarrow> mndb" where
  "mn_if_close s = (if m_closecon_flg s \<noteq> 0 then mn_CloseConnection (s\<lparr>m_closecon_flg := 0\<rparr>) else s)"

definition mn_if_reinit :: "mndb \<Rightarrow> fault + mndb" where
  "mn_if_reinit s = (if m_reinit_flg s \<noteq> 0 then mn_InitDevice s else Inr s)"

definition mn_if_coninit :: "mndb \<Rightarrow> fault + mndb" where
  "mn_if_coninit s = (if m_coninit_flg s \<noteq> 0 then mn_InitConnection (s\<lparr>m_coninit_flg := 0\<rparr>) else Inr s)"

definition mn_if_msg :: "mndb \<Rightarrow> mndb" where
  "mn_if_msg s = (if m_msg_flg s \<noteq> 0 then mn_SendMsgToServer (s\<lparr>m_msg_flg := 0\<rparr>) else s)"

text \<open>One round of the loop of \<open>mode 1\<close> for the character read; \<open>None\<close> leaves the loop.\<close>

definition mn_server_round :: "char \<Rightarrow> mndb \<Rightarrow> (fault + mndb) option" where
  "mn_server_round ch s =
     (if ch = CHR ''q'' then None
      else let s1 = (if ch = CHR ''i'' then s\<lparr>m_reinit_flg := 1\<rparr> else s);
               s2 = (if ch = CHR ''s'' then s1\<lparr>m_closecon_flg := 1\<rparr> else s1);
               s3 = (if ch = CHR ''x'' then s2\<lparr>m_server_not_send_flag := 1\<rparr> else s2);
               s4 = (if ch = CHR ''z'' then s3\<lparr>m_server_not_send_flag := 0\<rparr> else s3)
           in Some (mn_if_reinit (mn_if_close s4)))"

definition mn_client_round :: "char \<Rightarrow> mndb \<Rightarrow> (fault + mndb) option" where
  "mn_client_round ch s =
     (if ch = CHR ''q'' then None
      else let s1 = (if ch = CHR ''i'' then s\<lparr>m_reinit_flg := 1\<rparr> else s);
               s2 = (if ch = CHR ''c'' then s1\<lparr>m_coninit_flg := 1\<rparr> else s1);
               s3 = (if ch = CHR ''s'' then s2\<lparr>m_closecon_flg := 1\<rparr> else s2)
           in Some (bindE (mn_if_coninit s3) (\<lambda>s4. mn_if_reinit (mn_if_msg (mn_if_close s4)))))"

definition mn_main_exit :: "mndb \<Rightarrow> mndb" where
  "mn_main_exit s = mn_call S_uninit (mn_call (S_device_close (m_nLocalDeviceID s)) s)"

section \<open>Executions\<close>

text \<open>
  Callbacks and rounds in any order. \<open>H\<close> is the history of the connections the SDK reported
  as established.
\<close>

inductive mn_reach :: "int list \<Rightarrow> mndb \<Rightarrow> bool" where
  start: "mn_main_start argv = Inr s \<Longrightarrow> mn_reach [] s"
| init: "mn_reach H s \<Longrightarrow> mn_reach H (mn_OnSDKInit dev err s)"
| message: "mn_reach H s \<Longrightarrow> mn_reach H (mn_OnSDKMessage d n s)"
| close: "mn_reach H s \<Longrightarrow> mn_reach H (mn_OnSDKClose dev s)"
| timer: "mn_reach H s \<Longrightarrow> mn_OnSDKTimer info s = Inr (r, s') \<Longrightarrow> mn_reach H s'"
| conn_timer: "mn_reach H s \<Longrightarrow> mn_OnSDKConnectionTimer s = (r, s') \<Longrightarrow> mn_reach H s'"
| conn_failed: "mn_reach H s \<Longrightarrow> err \<noteq> 0 \<Longrightarrow> mn_reach H (mn_OnSDKConnectionInit info err s)"
| conn_init: "mn_reach H s \<Longrightarrow> mn_reach (H @ [conn_id info]) (mn_OnSDKConnectionInit info 0 s)"
| conn_frame: "mn_reach H s \<Longrightarrow> mn_OnSDKConnectionFrame diff now s = (r, s') \<Longrightarrow> mn_reach H s'"
| conn_close: "mn_reach H s \<Longrightarrow> mn_reach H (mn_OnSDKConnectionClose info s)"
| server: "mn_reach H s \<Longrightarrow> mn_server_round ch s = Some (Inr s') \<Longrightarrow> mn_reach H s'"
| client: "mn_reach H s \<Longrightarrow> mn_client_round ch s = Some (Inr s') \<Longrightarrow> mn_reach H s'"

end
