(* ===== verification/Mndb_Props.thy ===== *)
theory Mndb_Props
  imports Mndb Agent_Sockets "HOL-Library.Sublist"
begin

text \<open>
  What \<open>MNDBServer.cpp\<close> keeps of its connections over all interleavings, and its relation to
  \<open>deviceagent.cpp\<close>: the device agent without its sockets is this program.
\<close>

section \<open>Connections\<close>

definition closed_conns :: "os_call list \<Rightarrow> int set" where
  "closed_conns l = {c. \<exists>d. S_connection_close d c \<in> set l}"

lemma closed_simps [simp]:
  "closed_conns [] = {}"
  "closed_conns (l @ k) = closed_conns l \<union> closed_conns k"
  "closed_conns [S_connection_close d c] = {c}"
  by (auto simp: closed_conns_def)

lemma closed_other [simp]:
  "(\<And>d c. x \<noteq> S_connection_close d c) \<Longrightarrow> closed_conns [x] = {}"
  by (auto simp: closed_conns_def)

definition mn_ids :: "mndb \<Rightarrow> int list" where
  "mn_ids s = map conn_id (m_vecConnections s)"

definition mn_ok :: "int list \<Rightarrow> mndb \<Rightarrow> bool" where
  "mn_ok H s \<longleftrightarrow> subseq (mn_ids s) H \<and> set H \<subseteq> set (mn_ids s) \<union> closed_conns (m_calls s)"

lemma mn_call_simps [simp]:
  "m_calls (mn_call c s) = m_calls s @ [c]" "m_vecConnections (mn_call c s) = m_vecConnections s"
  by (simp_all add: mn_call_def)

lemma mn_erase_filter: "mn_erase_conn cid cs = filter (\<lambda>c. conn_id c \<noteq> cid) cs"
  by (induction cs) auto

lemma mn_close_each_spec:
  "mn_close_each dev cs s = s\<lparr>m_calls := m_calls s @ map (\<lambda>c. S_connection_close dev (conn_id c)) cs\<rparr>"
  by (induction cs arbitrary: s) (simp_all add: mn_call_def)

lemma closed_map [simp]: "closed_conns (map (\<lambda>c. S_connection_close dev (conn_id c)) cs) = conn_id ` set cs"
  by (auto simp: closed_conns_def)

lemma mn_ok_same:
  "mn_ok H s \<Longrightarrow> m_vecConnections s' = m_vecConnections s \<Longrightarrow> closed_conns (m_calls s') = closed_conns (m_calls s)
   \<Longrightarrow> mn_ok H s'"
  by (simp add: mn_ok_def mn_ids_def)

lemma mn_ok_cleared:
  "mn_ok H s \<Longrightarrow> m_vecConnections s' = [] \<Longrightarrow> set (mn_ids s) \<union> closed_conns (m_calls s) \<subseteq> closed_conns (m_calls s')
   \<Longrightarrow> mn_ok H s'"
  by (auto simp: mn_ok_def mn_ids_def)

lemma mn_close_ok: "mn_ok H s \<Longrightarrow> mn_ok H (mn_OnSDKClose dev s)"
proof (cases "dev = m_nLocalDeviceID s")
  case True
  assume "mn_ok H s"
  then show ?thesis
    by (rule mn_ok_cleared) (auto simp: mn_OnSDKClose_def mn_close_each_spec mn_ids_def True)
next
  case False
  assume "mn_ok H s"
  then show ?thesis by (rule mn_ok_same) (simp_all add: mn_OnSDKClose_def False)
qed

lemma mn_CloseConnection_ok: "mn_ok H s \<Longrightarrow> mn_ok H (mn_CloseConnection s)"
  by (erule mn_ok_cleared) (auto simp: mn_CloseConnection_def mn_close_each_spec mn_ids_def)

lemma mn_InitDevice_ok: "mn_ok H s \<Longrightarrow> mn_InitDevice s = Inr s' \<Longrightarrow> mn_ok H s'"
  by (erule mn_ok_same) (auto simp: mn_InitDevice_def bindE_Inr_iff)

lemma mn_InitConnection_ok: "mn_ok H s \<Longrightarrow> mn_InitConnection s = Inr s' \<Longrightarrow> mn_ok H s'"
  by (erule mn_ok_same) (auto simp: mn_InitConnection_def bindE_Inr_iff Let_def)

lemma mn_if_reinit_ok: "mn_ok H s \<Longrightarrow> mn_if_reinit s = Inr s' \<Longrightarrow> mn_ok H s'"
  by (auto simp: mn_if_reinit_def dest: mn_InitDevice_ok split: if_splits)

lemma mn_if_close_ok: "mn_ok H s \<Longrightarrow> mn_ok H (mn_if_close s)"
  by (auto simp: mn_if_close_def intro!: mn_CloseConnection_ok elim: mn_ok_same)

lemma mn_if_msg_ok: "mn_ok H s \<Longrightarrow> mn_ok H (mn_if_msg s)"
  by (erule mn_ok_same) (simp_all add: mn_if_msg_def mn_SendMsgToServer_def)

lemma mn_if_coninit_ok: "mn_ok H s \<Longrightarrow> mn_if_coninit s = Inr s' \<Longrightarrow> mn_ok H s'"
  using mn_InitConnection_ok [of H "s\<lparr>m_coninit_flg := 0\<rparr>" s'] mn_ok_same [of H s "s\<lparr>m_coninit_flg := 0\<rparr>"]
  by (auto simp: mn_if_coninit_def split: if_splits)

lemma mn_server_ok:
  assumes "mn_ok H s" "mn_server_round ch s = Some (Inr s')"
  shows "mn_ok H s'"
proof -
  obtain s4 where "mn_if_reinit (mn_if_close s4) = Inr s'" "m_vecConnections s4 = m_vecConnections s"
      "m_calls s4 = m_calls s"
    using assms(2) by (auto simp: mn_server_round_def Let_def split: if_splits)
  then show ?thesis
    using mn_if_reinit_ok mn_if_close_ok mn_ok_same [OF assms(1)] by metis
qed

lemma mn_client_ok:
  assumes "mn_ok H s" "mn_client_round ch s = Some (Inr s')"
  shows "mn_ok H s'"
proof -
  obtain s3 s4 where "mn_if_coninit s3 = Inr s4" "mn_if_reinit (mn_if_msg (mn_if_close s4)) = Inr s'"
      "m_vecConnections s3 = m_vecConnections s" "m_calls s3 = m_calls s"
    using assms(2) by (auto simp: mn_client_round_def Let_def bindE_Inr_iff split: if_splits)
  then show ?thesis
    using mn_if_reinit_ok mn_if_close_ok mn_if_msg_ok mn_if_coninit_ok mn_ok_same [OF assms(1)] by metis
qed

lemma mn_conn_init_ok: "mn_ok H s \<Longrightarrow> mn_ok (H @ [conn_id info]) (mn_OnSDKConnectionInit info 0 s)"
  by (auto simp: mn_ok_def mn_ids_def mn_OnSDKConnectionInit_def Let_def mn_call_def)

lemma mn_conn_close_ok: "mn_ok H s \<Longrightarrow> mn_ok H (mn_OnSDKConnectionClose info s)"
proof -
  assume a: "mn_ok H s"
  have "subseq (filter (\<lambda>x. x \<noteq> conn_id info) (mn_ids s)) (mn_ids s)" by (rule subseq_filter_left)
  then have "subseq (map conn_id (mn_erase_conn (conn_id info) (m_vecConnections s))) H"
    using a by (auto simp: mn_ok_def mn_ids_def mn_erase_filter filter_map comp_def intro: subseq_order.order_trans)
  then show ?thesis
    using a by (auto simp: mn_ok_def mn_ids_def mn_OnSDKConnectionClose_def mn_erase_filter)
qed

text \<open>
  C30. Over all interleavings of callbacks and commands, the list of connections holds established
  connections in the order in which they were established, and a connection that was established
  is in the list unless a close was asked for it: none is forgotten while it is open.
\<close>

theorem mn_no_conn_forgotten:
  "mn_reach H s \<Longrightarrow>
   subseq (map conn_id (m_vecConnections s)) H
   \<and> set H \<subseteq> conn_id ` set (m_vecConnections s) \<union> {c. \<exists>d. S_connection_close d c \<in> set (m_calls s)}"
proof -
  assume "mn_reach H s"
  then have "mn_ok H s"
  proof (induction rule: mn_reach.induct)
    case (start argv s)
    have "mn_ok [] (mn_call S_init (mndb_init c))" for c by (simp add: mn_ok_def mn_ids_def mndb_init_def)
    then show ?case using start by (auto simp: mn_main_start_def bindE_Inr_iff intro: mn_InitDevice_ok)
  next
    case (init H s dev err)
    show ?case by (rule mn_ok_same [OF init(2)]) (simp_all add: mn_OnSDKInit_def Let_def)
  next
    case (message H s d n)
    show ?case by (rule mn_ok_same [OF message(2)]) (simp_all add: mn_OnSDKMessage_def Let_def)
  next
    case (close H s dev)
    show ?case by (rule mn_close_ok [OF close(2)])
  next
    case (timer H s info r s')
    show ?case
      by (rule mn_ok_same [OF timer(3)])
        (use timer(2) in \<open>auto simp: mn_OnSDKTimer_def Let_def split: option.splits if_splits\<close>)
  next
    case (conn_timer H s r s')
    show ?case
      by (rule mn_ok_same [OF conn_timer(3)]) (use conn_timer(2) in \<open>auto simp: mn_OnSDKConnectionTimer_def Let_def\<close>)
  next
    case (conn_failed H s err info)
    show ?case by (rule mn_ok_same [OF conn_failed(3)]) (simp_all add: mn_OnSDKConnectionInit_def conn_failed(2))
  next
    case (conn_init H s info)
    show ?case by (rule mn_conn_init_ok [OF conn_init(2)])
  next
    case (conn_frame H s diff now r s')
    show ?case
      by (rule mn_ok_same [OF conn_frame(3)]) (use conn_frame(2) in \<open>auto simp: mn_OnSDKConnectionFrame_def Let_def\<close>)
  next
    case (conn_close H s info)
    show ?case by (rule mn_conn_close_ok [OF conn_close(2)])
  next
    case (server H s ch s')
    show ?case by (rule mn_server_ok [OF server(3,2)])
  next
    case (client H s ch s')
    show ?case by (rule mn_client_ok [OF client(3,2)])
  qed
  then show ?thesis by (simp add: mn_ok_def mn_ids_def closed_conns_def)
qed

theorem mn_no_conn_forgotten_witness:
  "\<exists>s. mn_reach [5, 6] s \<and> map conn_id (m_vecConnections s) = [6]
     \<and> subseq (map conn_id (m_vecConnections s)) [5, 6]
     \<and> set [5, 6] \<subseteq> conn_id ` set (m_vecConnections s) \<union> {c. \<exists>d. S_connection_close d c \<in> set (m_calls s)}"
proof -
  define c5 where "c5 = \<lparr>conn_id = 5, conn_dev = 1, conn_ctx = 0, conn_name = ''a'', conn_promoter = True\<rparr>"
  define c6 where "c6 = \<lparr>conn_id = 6, conn_dev = 1, conn_ctx = 0, conn_name = ''b'', conn_promoter = False\<rparr>"
  obtain s0 where s0: "mn_main_start [''mndb'', ''-mode'', ''1''] = Inr s0" "m_vecConnections s0 = []"
    by (simp add: mn_main_start_def config_init_def option_key_of_def atoi_def printarg_def index_array_def
        SDK_DEVICE_TYPE_STR_def SDK_CONNECTION_TYPE_STR_def mn_InitDevice_def strcpy_into_def cstr_def
        mndb_init_def mn_call_def)
  define s where "s = mn_OnSDKConnectionClose c5 (mn_OnSDKConnectionInit c6 0 (mn_OnSDKConnectionInit c5 0 s0))"
  have r: "mn_reach [5, 6] s"
    using mn_reach.conn_close [OF mn_reach.conn_init [OF mn_reach.conn_init [OF mn_reach.start [OF s0(1)], of c5], of c6], of c5]
    by (simp add: s_def c5_def c6_def)
  have m: "map conn_id (m_vecConnections s) = [6]"
    using s0(2) by (simp add: s_def mn_OnSDKConnectionClose_def mn_OnSDKConnectionInit_def Let_def c5_def c6_def mn_call_def)
  have t: "subseq (map conn_id (m_vecConnections s)) [5, 6]
     \<and> set [5, 6] \<subseteq> conn_id ` set (m_vecConnections s) \<union> {c. \<exists>d. S_connection_close d c \<in> set (m_calls s)}"
    by (rule mn_no_conn_forgotten [OF r])
  show ?thesis by (rule exI [of _ s], rule conjI [OF r], rule conjI [OF m t])
qed

section \<open>The device agent without its sockets\<close>

fun sdk_call :: "os_call \<Rightarrow> bool" where
  "sdk_call (S_connection_close d c) = True"
| "sdk_call (S_connection_init d n t k) = True"
| "sdk_call (S_set_config c n) = True"
| "sdk_call (S_frame_mode c) = True"
| "sdk_call (S_device_init a b c p t) = True"
| "sdk_call (S_device_close d) = True"
| "sdk_call (S_send_msg d n m) = True"
| "sdk_call S_init = True"
| "sdk_call S_uninit = True"
| "sdk_call _ = False"

definition calls_of :: "world \<Rightarrow> os_call list" where
  "calls_of w = filter sdk_call (map fst (w_log w))"

text \<open>
  The state without the endpoints, the epoll descriptor and the files, with the calls of the
  SDK that are not \<open>ConnectionSendData\<close>.
\<close>

definition base :: "agent \<Rightarrow> mndb" where
  "base a = \<lparr>m_cfg = cfg a, m_send_flg = send_flg a, m_reinit_flg = reinit_flg a, m_coninit_flg = coninit_flg a,
     m_closecon_flg = closecon_flg a, m_msg_flg = msg_flg a, m_send_thread_flg = send_thread_flg a,
     m_server_not_send_flag = server_not_send_flag a, m_szMsgName = szMsgName a,
     m_nLocalDeviceID = nLocalDeviceID a, m_vecConnections = vecConnections a, m_nErrorCount = nErrorCount a,
     m_device_counter = device_counter a, m_connection_counter = connection_counter a,
     m_connection_index = connection_index a, m_last_frame_ticket = last_frame_ticket a,
     m_calls = calls_of (os a)\<rparr>"

lemma calls_tell [simp]: "calls_of (tell c w) = calls_of w @ (if sdk_call c then [c] else [])"
  by (simp add: calls_of_def tell_def)

lemma calls_ask: "ask c w = (r, w') \<Longrightarrow> calls_of w' = calls_of w @ (if sdk_call c then [c] else [])"
  by (auto simp: calls_of_def ask_def Let_def)

lemma calls_snd_ask [simp]: "calls_of (snd (ask c w)) = calls_of w @ (if sdk_call c then [c] else [])"
  using calls_ask [of c w "fst (ask c w)" "snd (ask c w)"] by simp

lemma calls_disconnect: "disconnect_blk e w = (e', w') \<Longrightarrow> calls_of w' = calls_of w"
  by (auto simp: disconnect_blk_def split: if_splits prod.splits dest: calls_ask)

lemma calls_destroy [simp]: "calls_of (destroy_transfer e w) = calls_of w"
  by (simp add: destroy_transfer_def)

lemma calls_create: "create_connection e w = (r, e', w') \<Longrightarrow> calls_of w' = calls_of w"
  by (auto simp: create_connection_def Let_def split: if_splits prod.splits dest!: calls_ask)

lemma calls_connect: "connect_blk e w = (r, e', w') \<Longrightarrow> calls_of w' = calls_of w"
  by (auto simp: connect_blk_def Let_def split: if_splits prod.splits dest!: calls_create calls_ask)

lemma calls_reconnect: "reconnect_blk e w = (e', w') \<Longrightarrow> calls_of w' = calls_of w"
  by (auto simp: reconnect_blk_def split: if_splits prod.splits dest!: calls_connect calls_disconnect)

lemma calls_send_loop: "send_blk_loop s mem len bt w = (n, w') \<Longrightarrow> calls_of w' = calls_of w"
proof (induction s mem len bt w rule: send_blk_loop.induct)
  case (1 s mem len bt w)
  obtain once w1 where a: "ask (C_send s (take (len - bt) (drop bt mem))) w = (once, w1)" by fastforce
  then show ?case
    using 1 calls_ask [OF a] by (subst (asm) (2) send_blk_loop.simps) (auto simp: Let_def split: if_splits)
qed

lemma calls_send_blk: "send_blk e mem len w = (r, w') \<Longrightarrow> calls_of w' = calls_of w"
  by (auto simp: send_blk_def split: if_splits prod.splits dest!: calls_send_loop)

lemma calls_recv_blk: "recv_blk e n w = (r, bs, w') \<Longrightarrow> calls_of w' = calls_of w"
  by (auto simp: recv_blk_def ask_read_def calls_of_def Let_def split: if_splits prod.splits)

text \<open>The callbacks of the tunnel change nothing of the rest.\<close>

lemma calls_drop_endpoint [simp]: "calls_of (drop_endpoint e w) = calls_of w"
  by (auto simp: drop_endpoint_def split: prod.splits dest!: calls_disconnect)

lemma calls_drop_endpoints [simp]: "calls_of (drop_endpoints es w) = calls_of w"
  by (induction es w rule: drop_endpoints.induct) simp_all

lemma calls_drop_conn_endpoints: "drop_conn_endpoints cid es w = (es', w') \<Longrightarrow> calls_of w' = calls_of w"
  by (induction cid es w arbitrary: es' w' rule: drop_conn_endpoints.induct) (auto split: if_splits prod.splits)

lemma base_open_endpoint: "open_endpoint cid h a = Inr a' \<Longrightarrow> base a' = base a"
  by (auto simp: open_endpoint_def base_def split: if_splits prod.splits dest!: calls_connect)

lemma base_forward:
  assumes "forward_request i p n behind a = Inr a'"
  shows "base a' = base a"
proof -
  let ?e = "vecEndpoints a ! i"
  obtain req where q: "rewrite_request p n (remote_end ?e) = Inr req"
    using assms by (auto simp: forward_request_def bindE_Inr_iff Let_def)
  obtain ret w1 where s: "send_blk ?e (req @ CHR 0x00 # behind) n (os a) = (ret, w1)" by fastforce
  obtain e1 w2 where r: "reconnect_blk ?e (tell (C_epoll_del (sock ?e)) w1) = (e1, w2)" by fastforce
  obtain ret2 w3 where t: "send_blk e1 (req @ CHR 0x00 # behind) n (tell (C_epoll_add (sock e1)) w2) = (ret2, w3)"
    by fastforce
  have "a' = (if ret \<le> 0 then a\<lparr>vecEndpoints := (vecEndpoints a)[i := e1], os := w3\<rparr> else a\<lparr>os := w1\<rparr>)"
    using assms q s r t by (auto simp: forward_request_def Let_def split: if_splits)
  then show ?thesis
    using calls_send_blk [OF s] calls_send_blk [OF t] calls_reconnect [OF r] by (simp add: base_def)
qed

lemma base_close_endpoint:
  assumes "close_endpoint i a = Inr a'"
  shows "base a' = base a"
proof -
  obtain ofd where o: "index_array (out_fd a) (handle_id (vecEndpoints a ! i)) = Inr ofd"
    using assms by (auto simp: close_endpoint_def bindE_Inr_iff Let_def)
  obtain e1 w2 where d: "disconnect_blk (vecEndpoints a ! i) (if ofd > 0 then tell (C_close ofd) (os a) else os a) = (e1, w2)"
    by fastforce
  have "a' = a\<lparr>out_fd := (out_fd a)[nat (handle_id (vecEndpoints a ! i)) := -1],
      vecEndpoints := take i (vecEndpoints a) @ drop (Suc i) (vecEndpoints a), os := destroy_transfer e1 w2\<rparr>"
    using assms o d by (simp add: close_endpoint_def bindE_Inr_iff Let_def)
  then show ?thesis using calls_disconnect [OF d] by (auto simp: base_def split: if_splits)
qed

lemma base_server_data: "server_data info buf n behind a = Inr a' \<Longrightarrow> base a' = base a"
  by (auto simp: server_data_def bindE_Inr_iff Let_def split: if_splits option.splits
      dest!: base_open_endpoint base_forward base_close_endpoint) (simp add: base_def upd_os_def)

lemma base_client_data: "client_data buf n a = Inr a' \<Longrightarrow> base a' = base a"
  by (auto simp: client_data_def bindE_Inr_iff base_def Let_def split: if_splits prod.splits dest!: calls_ask)

lemma base_data: "OnSDKConnectionData info buf n behind a = Inr a' \<Longrightarrow> base a' = base a"
  by (auto simp: OnSDKConnectionData_def split: if_splits dest: base_server_data base_client_data)

lemma calls_send_retry: "send_retry cid frame rc w = Inr (n, w') \<Longrightarrow> calls_of w' = calls_of w"
proof (induction cid frame rc w rule: send_retry.induct)
  case (1 cid frame rc w)
  obtain r w1 where a: "ask (S_send_data cid frame) w = (r, w1)" by fastforce
  then show ?case
    using 1 calls_ask [OF a] by (subst (asm) (2) send_retry.simps) (auto simp: Let_def split: if_splits)
qed

lemma calls_drain: "drain fuel e hdr rc len w = Some (Inr w') \<Longrightarrow> calls_of w' = calls_of w"
  by (induction fuel e hdr rc len w rule: drain.induct)
    (auto simp: Let_def split: if_splits prod.splits sum.splits dest!: calls_recv_blk calls_send_retry)

lemma calls_on_readable: "on_readable fuel e w = Some (Inr w') \<Longrightarrow> calls_of w' = calls_of w"
  by (auto simp: on_readable_def Let_def split: if_splits prod.splits sum.splits
      dest!: calls_recv_blk calls_send_retry calls_drain)

lemma calls_recv_all: "recv_all fuel fd es w = Some (Inr w') \<Longrightarrow> calls_of w' = calls_of w"
  by (induction fuel fd es w rule: recv_all.induct)
    (auto split: if_splits option.splits sum.splits dest!: calls_on_readable)

lemma calls_hangup: "hangup fd es w = (es', w') \<Longrightarrow> calls_of w' = calls_of w"
  by (induction fd es w arbitrary: es' w' rule: hangup.induct)
    (auto simp: Let_def split: if_splits prod.splits dest!: calls_disconnect)

lemma base_recv_event: "recv_event fuel ev a = Some (Inr a') \<Longrightarrow> base a' = base a"
  by (auto simp: recv_event_def base_def split: if_splits option.splits sum.splits prod.splits
      dest!: calls_recv_all calls_hangup)

lemma base_recv: "RecvThread fuel evs a = Some (Inr a') \<Longrightarrow> base a' = base a"
  by (induction evs arbitrary: a) (auto split: option.splits sum.splits dest!: base_recv_event)

text \<open>The callbacks that both programs have.\<close>

lemma base_call: "sdk_call c \<Longrightarrow> base (upd_os (tell c) a) = mn_call c (base a)"
  by (simp add: base_def upd_os_def mn_call_def)

lemma base_init: "base (OnSDKInit dev err a) = mn_OnSDKInit dev err (base a)"
  by (auto simp: OnSDKInit_def mn_OnSDKInit_def base_def Let_def split: prod.splits dest!: calls_ask)

lemma base_message: "base (OnSDKMessage d n a) = mn_OnSDKMessage d n (base a)"
  by (auto simp: OnSDKMessage_def mn_OnSDKMessage_def base_def Let_def)

lemma calls_close_connections [simp]:
  "calls_of (close_connections dev cs w) = calls_of w @ map (\<lambda>c. S_connection_close dev (conn_id c)) cs"
  by (induction dev cs w rule: close_connections.induct) simp_all

lemma base_close_all: "base (close_all dev a) = (mn_close_each dev (vecConnections a) (base a))\<lparr>m_vecConnections := []\<rparr>"
  by (auto simp: close_all_def base_def Let_def mn_close_each_spec)

lemma base_close: "base (OnSDKClose dev a) = mn_OnSDKClose dev (base a)"
proof (cases "dev = nLocalDeviceID a")
  case True
  have "base (OnSDKClose dev a) = (base (close_all dev a))\<lparr>m_reinit_flg := 1\<rparr>"
    by (simp only: OnSDKClose_def Let_def True simp_thms if_True) (simp add: base_def)
  moreover have "m_nLocalDeviceID (base a) = dev" "m_vecConnections (base a) = vecConnections a"
    using True by (simp_all add: base_def)
  ultimately show ?thesis by (simp add: mn_OnSDKClose_def base_close_all)
next
  case False
  then show ?thesis by (simp add: OnSDKClose_def mn_OnSDKClose_def base_def)
qed

lemma base_CloseConnection: "base (CloseConnection a) = mn_CloseConnection (base a)"
  by (simp add: CloseConnection_def base_close_all mn_CloseConnection_def) (simp add: base_def)

lemma base_timer: "map_sum id base (OnSDKTimer info a) = map_sum id snd (mn_OnSDKTimer info (base a))"
  by (auto simp: OnSDKTimer_def mn_OnSDKTimer_def base_def Let_def split: option.splits)

lemma base_conn_timer: "base (OnSDKConnectionTimer a) = snd (mn_OnSDKConnectionTimer (base a))"
  by (simp add: OnSDKConnectionTimer_def mn_OnSDKConnectionTimer_def Let_def base_def)

lemma base_frame: "map_prod id base (OnSDKConnectionFrame diff now a) = mn_OnSDKConnectionFrame diff now (base a)"
  by (simp add: OnSDKConnectionFrame_def mn_OnSDKConnectionFrame_def Let_def base_def)

lemma base_conn_init: "base (OnSDKConnectionInit info err a) = mn_OnSDKConnectionInit info err (base a)"
  by (cases "err = 0"; cases "frame_mode_enable (cfg a) = 0"; cases "mode (cfg a) = 0"; cases "conn_promoter info";
      cases "mode (cfg a) = 1")
    (simp_all add: OnSDKConnectionInit_def mn_OnSDKConnectionInit_def Let_def upd_os_def mn_call_def base_def)

lemma base_conn_close: "base (OnSDKConnectionClose info a) = mn_OnSDKConnectionClose info (base a)"
  by (auto simp: OnSDKConnectionClose_def mn_OnSDKConnectionClose_def base_def Let_def upd_os_def mn_call_def
      mn_erase_filter split: prod.splits dest!: calls_drop_conn_endpoints)

lemma base_fields [simp]:
  "m_cfg (base a) = cfg a" "m_reinit_flg (base a) = reinit_flg a" "m_coninit_flg (base a) = coninit_flg a"
  "m_closecon_flg (base a) = closecon_flg a" "m_msg_flg (base a) = msg_flg a"
  "m_nLocalDeviceID (base a) = nLocalDeviceID a" "m_connection_index (base a) = connection_index a"
  "m_szMsgName (base a) = szMsgName a"
  by (simp_all add: base_def)

lemma base_InitDevice: "mn_InitDevice (base a) = map_sum id base (InitDevice a)"
proof -
  have k: "base (a\<lparr>os := snd (ask c (os a))\<rparr>) = mn_call c (base a)" if "sdk_call c" for c
    using that by (simp add: base_def mn_call_def)
  show ?thesis
    by (cases "strcpy_into 64 (szName (cfg a))"; cases "index_array SDK_DEVICE_TYPE_STR (nType (cfg a))";
        cases "strcpy_into 64 (szIp (cfg a))")
      (simp_all add: mn_InitDevice_def InitDevice_def case_prod_beta k)
qed

lemma base_InitConnection: "mn_InitConnection (base a) = map_sum id base (InitConnection a)"
proof -
  have k: "base (a\<lparr>connection_index := i, os := snd (ask c (os a))\<rparr>) = mn_call c ((base a)\<lparr>m_connection_index := i\<rparr>)"
    if "sdk_call c" for c i
    using that by (simp add: base_def mn_call_def)
  show ?thesis
    by (cases "strcpy_into 64 (szTarget (cfg a))"; cases "index_array SDK_CONNECTION_TYPE_STR (nConnectionType (cfg a))")
      (simp_all add: mn_InitConnection_def InitConnection_def case_prod_beta Let_def k)
qed

lemma base_if_close: "base (step_close a) = mn_if_close (base a)"
proof -
  have "base (a\<lparr>closecon_flg := 0\<rparr>) = (base a)\<lparr>m_closecon_flg := 0\<rparr>" by (simp add: base_def)
  then show ?thesis by (simp add: step_close_def mn_if_close_def base_CloseConnection)
qed

lemma base_if_reinit: "map_sum id base (step_reinit a) = mn_if_reinit (base a)"
  by (simp add: step_reinit_def mn_if_reinit_def base_InitDevice)

lemma base_if_coninit: "map_sum id base (step_coninit a) = mn_if_coninit (base a)"
proof -
  have "base (a\<lparr>coninit_flg := 0\<rparr>) = (base a)\<lparr>m_coninit_flg := 0\<rparr>" by (simp add: base_def)
  then show ?thesis by (simp add: step_coninit_def mn_if_coninit_def flip: base_InitConnection)
qed

lemma base_if_msg: "base (step_msg a) = mn_if_msg (base a)"
proof -
  have "base (a\<lparr>msg_flg := 0\<rparr>) = (base a)\<lparr>m_msg_flg := 0\<rparr>" by (simp add: base_def)
  then show ?thesis by (simp add: step_msg_def mn_if_msg_def SendMsgToServer_def mn_SendMsgToServer_def base_call)
qed

lemma map_sum_bindE:
  "map_sum id g (bindE x f) = bindE x (\<lambda>a. map_sum id g (f a))"
  "bindE (map_sum id h x) k = bindE x (\<lambda>a. k (h a))"
  by (cases x; simp)+

lemma map_sum_comp: "map_sum id g (map_sum id f x) = map_sum id (\<lambda>a. g (f a)) x"
  by (cases x) simp_all

lemma bindE_Inr_map: "bindE x (\<lambda>a. Inr (g a)) = map_sum id g x"
  by (cases x) simp_all

lemma base_server_round: "mn_server_round ch (base (ag p)) = map_option (map_sum id (\<lambda>p. base (ag p))) (server_round ch p)"
proof (cases "ch = CHR ''q''")
  case False
  have c: "base (server_cmd ch a) = (let s1 = (if ch = CHR ''i'' then (base a)\<lparr>m_reinit_flg := 1\<rparr> else base a);
               s2 = (if ch = CHR ''s'' then s1\<lparr>m_closecon_flg := 1\<rparr> else s1);
               s3 = (if ch = CHR ''x'' then s2\<lparr>m_server_not_send_flag := 1\<rparr> else s2)
           in (if ch = CHR ''z'' then s3\<lparr>m_server_not_send_flag := 0\<rparr> else s3))" for a
    by (simp add: server_cmd_def Let_def base_def)
  have r: "map_option (map_sum id (\<lambda>p. base (ag p))) (server_round ch p)
      = Some (mn_if_reinit (mn_if_close (base (server_cmd ch (ag p)))))"
    using False by (simp add: server_round_def map_sum_bindE bindE_Inr_map map_sum_comp base_if_reinit flip: base_if_close)
  have l: "mn_server_round ch (base (ag p)) = Some (mn_if_reinit (mn_if_close (base (server_cmd ch (ag p)))))"
    unfolding mn_server_round_def c Let_def using False by simp
  show ?thesis by (rule trans [OF l r [symmetric]])
qed (simp add: mn_server_round_def server_round_def)

lemma base_cmd_test: "base (ag (cmd_test req cs p)) = base (ag p)"
  by (induction req cs p rule: cmd_test.induct) (simp_all add: Let_def base_def upd_os_def)

lemma calls_send_disconnects [simp]: "calls_of (send_disconnects cid hs w) = calls_of w"
  by (induction cid hs w rule: send_disconnects.induct) simp_all

lemma base_cmd_disconnect: "base (ag (cmd_disconnect cs p)) = base (ag p)"
  by (induction cs p rule: cmd_disconnect.induct) (simp_all add: base_def upd_os_def)

lemma base_client_round:
  "mn_client_round ch (base (ag p)) = map_option (map_sum id (\<lambda>p. base (ag p))) (client_round req ch p)"
proof (cases "ch = CHR ''q''")
  case False
  let ?a = "ag (client_cmd req ch p)"
  have c: "base ?a = (let s1 = (if ch = CHR ''i'' then (base (ag p))\<lparr>m_reinit_flg := 1\<rparr> else base (ag p));
               s2 = (if ch = CHR ''c'' then s1\<lparr>m_coninit_flg := 1\<rparr> else s1)
           in (if ch = CHR ''s'' then s2\<lparr>m_closecon_flg := 1\<rparr> else s2))"
    by (simp add: client_cmd_def Let_def base_cmd_test base_cmd_disconnect) (simp add: base_def)
  have r: "map_option (map_sum id (\<lambda>p. base (ag p))) (client_round req ch p)
      = Some (bindE (mn_if_coninit (base ?a)) (\<lambda>s. mn_if_reinit (mn_if_msg (mn_if_close s))))"
    using False
    by (simp add: client_round_def Let_def map_sum_bindE bindE_Inr_map map_sum_comp base_if_reinit
        flip: base_if_coninit base_if_close base_if_msg)
  have l: "mn_client_round ch (base (ag p))
      = Some (bindE (mn_if_coninit (base ?a)) (\<lambda>s. mn_if_reinit (mn_if_msg (mn_if_close s))))"
    unfolding mn_client_round_def c Let_def using False by simp
  show ?thesis by (rule trans [OF l r [symmetric]])
qed (simp add: mn_client_round_def client_round_def)

lemma base_start: "mn_main_start argv = map_sum id base (main_start argv \<lparr>w_ans = ans, w_log = []\<rparr>)"
proof -
  have "base (agent_init c (tell S_init \<lparr>w_ans = ans, w_log = []\<rparr>)) = mn_call S_init (mndb_init c)" for c
    by (simp add: base_def agent_init_def mn_call_def mndb_init_def) (simp add: calls_of_def)
  then show ?thesis
    by (simp add: mn_main_start_def main_start_def map_sum_bindE split_def flip: base_InitDevice)
qed

lemma calls_close_files [simp]: "calls_of (close_files l w) = calls_of w"
  by (induction l w rule: close_files.induct) simp_all

lemma calls_close_streams [simp]: "calls_of (close_out_streams l w) = calls_of w"
  by (induction l w rule: close_out_streams.induct) simp_all

lemma base_exit: "base (main_exit a) = mn_main_exit (base a)"
  by (simp add: main_exit_def mn_main_exit_def base_def upd_os_def mn_call_def)

text \<open>
  C32. The tunnel is an extension: on the state that both programs have, \<open>deviceagent.cpp\<close> does
  what \<open>MNDBServer.cpp\<close> does. It starts in the same state with the same faults, every callback
  and every command changes it alike with the same calls of the SDK, a fault of a command is the
  same fault, and what the tunnel adds (data from the peer, events of its sockets) leaves it
  unchanged; only \<open>ConnectionSendData\<close> and calls of the system come in addition.
\<close>

theorem agent_extends_mndb:
  "mn_main_start argv = map_sum id base (main_start argv \<lparr>w_ans = ans, w_log = []\<rparr>)
   \<and> base (OnSDKInit dev err a) = mn_OnSDKInit dev err (base a)
   \<and> base (OnSDKMessage d n a) = mn_OnSDKMessage d n (base a)
   \<and> base (OnSDKClose dev a) = mn_OnSDKClose dev (base a)
   \<and> map_sum id base (OnSDKTimer dev_info a) = map_sum id snd (mn_OnSDKTimer dev_info (base a))
   \<and> base (OnSDKConnectionTimer a) = snd (mn_OnSDKConnectionTimer (base a))
   \<and> map_prod id base (OnSDKConnectionFrame diff now a) = mn_OnSDKConnectionFrame diff now (base a)
   \<and> base (OnSDKConnectionInit info err a) = mn_OnSDKConnectionInit info err (base a)
   \<and> base (OnSDKConnectionClose info a) = mn_OnSDKConnectionClose info (base a)
   \<and> {base a' |a'. OnSDKConnectionData info buf n behind a = Inr a'} \<subseteq> {base a}
   \<and> {base a' |a'. RecvThread fuel evs a = Some (Inr a')} \<subseteq> {base a}
   \<and> mn_server_round ch (base (ag p)) = map_option (map_sum id (\<lambda>p. base (ag p))) (server_round ch p)
   \<and> mn_client_round ch (base (ag p)) = map_option (map_sum id (\<lambda>p. base (ag p))) (client_round req ch p)
   \<and> base (main_exit a) = mn_main_exit (base a)"
  using base_start [of argv ans] base_init base_message base_close base_timer base_conn_timer base_frame base_conn_init base_conn_close base_data [of info buf n behind a]
    base_recv [of fuel evs a] base_server_round [of ch p] base_client_round [of ch p req] base_exit
  by auto

end
