(* ===== verification/Stream_Socket.thy ===== *)
theory Stream_Socket
  imports Socket_Ops Proactor
begin

text \<open>
  \<open>io/stream_socket.cc\<close> with the classes between it and the reactor, all under
  \<open>deviceagent/2deviceagent/\<close>: \<open>operation\<close>, \<open>op_poll\<close> and \<open>op_complete\<close> of \<open>io/async\<close>, whose member
  function pointers are a case distinction here, and the operations that \<open>socket_object\<close> makes.
  A stream socket may give its own members \<open>handle_write\<close> and \<open>handle_read\<close> as handlers; they
  pass on to the handlers that the user has set. Objects are named by their addresses.
\<close>

section \<open>Operations\<close>

text \<open>
  The handler of an operation: the user's, or the member of the stream socket at an address.
  An operation is a read or write (kind, descriptor, handler, buffer, flag and the address for
  \<open>msg_name\<close>), or a posted handler with its argument.
\<close>

datatype target = User nat | Member nat

datatype oper =
    Rw (rw_kind: nat) (rw_sock: int) (rw_handler: target) (rw_buf: nat) (rw_flag: int) (rw_addr: "byte list option")
  | Posted nat nat

text \<open>The user's handlers that are called, with the error and the bytes, or the argument.\<close>

datatype called = Called_Rw nat int int | Called_Post nat nat

datatype bad_call = Dead_Object | Unset_Handler | Dead_Op

record stream =
  iface :: "sobj option"
  remote :: "string \<times> int"
  wh :: "nat option"
  rh :: "nat option"

text \<open>
  \<open>ec_\<close> of an operation is in the reactor's state; \<open>bytes_mem\<close> is \<open>bytes_trans_\<close>. The constructors
  that the operations use write neither: both keep what the memory held.
\<close>

record 's ssys =
  core :: "'s epl"
  oper_at :: "nat \<Rightarrow> oper option"
  bytes_mem :: "nat \<Rightarrow> nat"
  bufs :: cheap
  strs :: "nat \<Rightarrow> stream option"
  calls_made :: "called list"

definition new_op :: "nat \<Rightarrow> oper \<Rightarrow> 's ssys \<Rightarrow> 's ssys" where
  "new_op op o' S = S\<lparr>oper_at := (oper_at S)(op \<mapsto> o')\<rparr>"

text \<open>
  \<open>op_poll::do_work\<close> of a read or write: the script holds the results of \<open>recvmsg\<close> or \<open>sendmsg\<close>,
  \<open>err\<close> the errno before. \<open>None\<close> is a script that ends too early or a chain too long.
\<close>

definition run_work :: "(int \<times> int) list \<Rightarrow> int \<Rightarrow> nat \<Rightarrow> 's ssys \<Rightarrow> (bool \<times> 's ssys) option" where
  "run_work script err op S =
     (case oper_at S op of
        Some (Rw kind s h buf fl addr) \<Rightarrow>
          (case (if kind = op_write then write_do_work script err buf (bufs S) else read_do_work script err buf (bufs S)) of
             Some (WDone r e n vecs b) \<Rightarrow>
               Some (r, S\<lparr>bufs := b, core := set_ec op e (core S), bytes_mem := (bytes_mem S)(op := n)\<rparr>)
           | _ \<Rightarrow> None)
      | _ \<Rightarrow> None)"

section \<open>Handlers\<close>

text \<open>\<open>stream_socket::handle_write\<close> and \<open>handle_read\<close>; a handler that was never set is not one.\<close>

definition ss_handle_write :: "stream \<Rightarrow> int \<Rightarrow> int \<Rightarrow> bad_call + called" where
  "ss_handle_write x e n = (case wh x of None \<Rightarrow> Inl Unset_Handler | Some u \<Rightarrow> Inr (Called_Rw u e n))"

definition ss_handle_read :: "stream \<Rightarrow> int \<Rightarrow> int \<Rightarrow> bad_call + called" where
  "ss_handle_read x e n = (case rh x of None \<Rightarrow> Inl Unset_Handler | Some u \<Rightarrow> Inr (Called_Rw u e n))"

definition call_target :: "nat \<Rightarrow> target \<Rightarrow> int \<Rightarrow> int \<Rightarrow> 's ssys \<Rightarrow> bad_call + called" where
  "call_target kind h e n S =
     (case h of
        User u \<Rightarrow> Inr (Called_Rw u e n)
      | Member a \<Rightarrow> (case strs S a of
          None \<Rightarrow> Inl Dead_Object
        | Some x \<Rightarrow> if kind = op_write then ss_handle_write x e n else ss_handle_read x e n))"

text \<open>
  \<open>do_callback\<close> of the three classes: the operation is freed before the handler is called, and
  the handler is not called when the operation is destroyed. The number of bytes is a
  \<open>size_t\<close> that is passed as an \<open>int\<close>. \<open>op_complete\<close> reads the member function to call from the
  operation it has just freed; the value is taken to be still there.
\<close>

definition op_callback :: "bool \<Rightarrow> nat \<Rightarrow> 's ssys \<Rightarrow> bad_call + 's ssys" where
  "op_callback destroy op S =
     (case oper_at S op of
        None \<Rightarrow> Inl Dead_Op
      | Some o' \<Rightarrow>
          let S1 = S\<lparr>oper_at := (oper_at S)(op := None)\<rparr> in
          (case o' of
             Rw kind s h buf fl addr \<Rightarrow>
               (case do_callback (ec_of (core S) op) (bytes_mem S op) destroy of
                  None \<Rightarrow> Inr S1
                | Some (e, n) \<Rightarrow>
                    (case call_target kind h e (to_i32 (int n)) S1 of
                       Inl f \<Rightarrow> Inl f
                     | Inr c \<Rightarrow> Inr (S1\<lparr>calls_made := calls_made S1 @ [c]\<rparr>)))
           | Posted u arg \<Rightarrow>
               Inr (if destroy then S1 else S1\<lparr>calls_made := calls_made S1 @ [Called_Post u arg]\<rparr>)))"

definition op_do_complete :: "nat \<Rightarrow> 's ssys \<Rightarrow> bad_call + 's ssys" where
  "op_do_complete op S = op_callback False op S"

definition op_destroy :: "nat \<Rightarrow> 's ssys \<Rightarrow> bad_call + 's ssys" where
  "op_destroy op S = op_callback True op S"

section \<open>The socket object makes operations\<close>

definition upd_core :: "('s epl \<Rightarrow> 's epl) \<Rightarrow> 's ssys \<Rightarrow> 's ssys" where
  "upd_core f S = S\<lparr>core := f (core S)\<rparr>"

definition so_async_write ::
  "'s io_ops \<Rightarrow> (nat \<Rightarrow> bool) \<Rightarrow> sobj \<Rightarrow> int \<Rightarrow> (int \<Rightarrow> int) \<Rightarrow> int \<Rightarrow> nat \<Rightarrow> nat \<Rightarrow> target \<Rightarrow> int \<Rightarrow> 's ssys \<Rightarrow> 's ssys" where
  "so_async_write io_s w k getfl setfl e op buf h fl S =
     upd_core (sock_async_write io_s w k getfl setfl e op buf (bufs S)) (new_op op (Rw op_write (sd k) h buf fl None) S)"

definition so_async_read ::
  "'s io_ops \<Rightarrow> (nat \<Rightarrow> bool) \<Rightarrow> sobj \<Rightarrow> int \<Rightarrow> (int \<Rightarrow> int) \<Rightarrow> int \<Rightarrow> nat \<Rightarrow> nat \<Rightarrow> target \<Rightarrow> int \<Rightarrow> 's ssys \<Rightarrow> 's ssys" where
  "so_async_read io_s w k getfl setfl e op buf h fl S =
     upd_core (sock_async_read io_s w k getfl setfl e op buf (bufs S)) (new_op op (Rw op_read (sd k) h buf fl None) S)"

definition so_async_write_to where
  "so_async_write_to io_s w k getfl setfl e op buf addr h fl S =
     upd_core (sock_async_write io_s w k getfl setfl e op buf (bufs S)) (new_op op (Rw op_write (sd k) h buf fl (Some addr)) S)"

definition so_async_read_from where
  "so_async_read_from io_s w k getfl setfl e op buf addr h fl S =
     upd_core (sock_async_read io_s w k getfl setfl e op buf (bufs S)) (new_op op (Rw op_read (sd k) h buf fl (Some addr)) S)"

text \<open>
  \<open>connect\<close>: family, port and address of the peer. \<open>aton\<close> is \<open>inet_aton\<close>; its result is not
  looked at, so that a text that is no address leaves the zeros of \<open>memset\<close>.
\<close>

abbreviation AF_INET :: int where "AF_INET \<equiv> 2"

definition so_address :: "(string \<Rightarrow> int option) \<Rightarrow> int \<Rightarrow> string \<Rightarrow> int \<Rightarrow> int \<times> int \<times> int" where
  "so_address aton family host port = (family, port mod 65536, case aton host of Some ip \<Rightarrow> ip | None \<Rightarrow> 0)"

definition so_connect ::
  "(string \<Rightarrow> int option) \<Rightarrow> (int \<times> int \<times> int \<Rightarrow> int) \<Rightarrow> int \<Rightarrow> int \<Rightarrow> sobj \<Rightarrow> string \<Rightarrow> int \<Rightarrow> int" where
  "so_connect aton connect_r poll_r err k host port =
     sock_do_connect k (connect_r (so_address aton AF_INET host port)) poll_r err"

section \<open>The stream socket\<close>

text \<open>
  The constructors with \<open>init\<close>; \<open>junk\<close> is what the memory of \<open>descriptor_data_\<close> holds, which
  \<open>object_base\<close> does not set. Without an argument the host is empty and the port what the memory
  holds.
\<close>

definition stream_init :: "nat option \<Rightarrow> stream \<Rightarrow> stream" where
  "stream_init junk x = (case iface x of None \<Rightarrow> x\<lparr>iface := Some \<lparr>sd = - 1, sdata = junk\<rparr>\<rparr> | Some k \<Rightarrow> x)"

definition new_stream :: "nat option \<Rightarrow> string \<times> int \<Rightarrow> stream" where
  "new_stream junk r = stream_init junk \<lparr>iface = None, remote = r, wh = None, rh = None\<rparr>"

text \<open>Every other member is called between construction and destruction, when \<open>interface_\<close> is set.\<close>

definition stream_is_open :: "stream \<Rightarrow> bool" where
  "stream_is_open x = is_open (the (iface x))"

definition stream_open :: "nat \<Rightarrow> int \<Rightarrow> int \<Rightarrow> stream \<Rightarrow> 's epl \<Rightarrow> stream \<times> 's epl" where
  "stream_open fresh socket_r err x s =
     (let (_, k, s1) = sock_do_open fresh socket_r err (the (iface x)) s in (x\<lparr>iface := Some k\<rparr>, s1))"

definition stream_close :: "'s io_ops \<Rightarrow> stream \<Rightarrow> 's epl \<Rightarrow> stream \<times> 's epl" where
  "stream_close io_s x s = (let (k, s1) = sock_do_close io_s (the (iface x)) s in (x\<lparr>iface := Some k\<rparr>, s1))"

definition stream_set_option :: "stream \<Rightarrow> int \<Rightarrow> int \<Rightarrow> int" where
  "stream_set_option x setsockopt_r err = sock_set_option (the (iface x)) setsockopt_r err"

definition stream_get_option :: "stream \<Rightarrow> int \<Rightarrow> int \<Rightarrow> byte list \<Rightarrow> byte list \<Rightarrow> int \<times> byte list" where
  "stream_get_option x getsockopt_r err opt val = sock_get_option (the (iface x)) getsockopt_r err opt val"

definition stream_connect_to where
  "stream_connect_to aton connect_r poll_r err x r = so_connect aton connect_r poll_r err (the (iface x)) (fst r) (snd r)"

definition stream_connect where
  "stream_connect aton connect_r poll_r err x =
     so_connect aton connect_r poll_r err (the (iface x)) (fst (remote x)) (snd (remote x))"

definition set_write_handler :: "nat \<Rightarrow> stream \<Rightarrow> stream" where
  "set_write_handler h x = x\<lparr>wh := Some h\<rparr>"

definition set_read_handler :: "nat \<Rightarrow> stream \<Rightarrow> stream" where
  "set_read_handler h x = x\<lparr>rh := Some h\<rparr>"

text \<open>The operations on the stream socket at address \<open>a\<close>; without a handler its own member is given.\<close>

definition stream_async_write ::
  "'s io_ops \<Rightarrow> (nat \<Rightarrow> bool) \<Rightarrow> int \<Rightarrow> (int \<Rightarrow> int) \<Rightarrow> int \<Rightarrow> nat \<Rightarrow> nat \<Rightarrow> nat \<Rightarrow> nat option \<Rightarrow> int \<Rightarrow> 's ssys \<Rightarrow> 's ssys" where
  "stream_async_write io_s w getfl setfl e op a buf h fl S =
     so_async_write io_s w (the (iface (the (strs S a)))) getfl setfl e op buf
       (case h of None \<Rightarrow> Member a | Some u \<Rightarrow> User u) fl S"

definition stream_async_read ::
  "'s io_ops \<Rightarrow> (nat \<Rightarrow> bool) \<Rightarrow> int \<Rightarrow> (int \<Rightarrow> int) \<Rightarrow> int \<Rightarrow> nat \<Rightarrow> nat \<Rightarrow> nat \<Rightarrow> nat option \<Rightarrow> int \<Rightarrow> 's ssys \<Rightarrow> 's ssys" where
  "stream_async_read io_s w getfl setfl e op a buf h fl S =
     so_async_read io_s w (the (iface (the (strs S a)))) getfl setfl e op buf
       (case h of None \<Rightarrow> Member a | Some u \<Rightarrow> User u) fl S"

definition stream_cancel :: "'s io_ops \<Rightarrow> nat \<Rightarrow> 's ssys \<Rightarrow> 's ssys" where
  "stream_cancel io_s a S = upd_core (Epoll.cancel_ops io_s (sdata (the (iface (the (strs S a)))))) S"

definition stream_post :: "'s io_ops \<Rightarrow> nat \<Rightarrow> nat \<Rightarrow> nat \<Rightarrow> 's ssys \<Rightarrow> 's ssys" where
  "stream_post io_s op u arg S = upd_core (upd_io (io_post_immediate io_s op)) (new_op op (Posted u arg) S)"

text \<open>The destructor with \<open>deinit\<close>: an open socket is closed, then both objects are gone.\<close>

definition stream_delete :: "'s io_ops \<Rightarrow> nat \<Rightarrow> 's ssys \<Rightarrow> 's ssys" where
  "stream_delete io_s a S =
     (let x = the (strs S a);
          s1 = (if stream_is_open x then snd (stream_close io_s x (core S)) else core S)
      in S\<lparr>core := s1, strs := (strs S)(a := None)\<rparr>)"

end
