(* ===== verification/Stream_Props.thy ===== *)
theory Stream_Props
  imports Stream_Socket Socket_Props
begin

text \<open>
  What reaches the handlers of a stream socket: the result of the last call of the system, the
  memory of an operation that was never tried, and the socket that is gone.
\<close>

section \<open>Attempts\<close>

text \<open>
  The reactor tries an operation again until \<open>do_work\<close> answers true: scripts of the calls with
  the errno before. Only the last attempt may be the one that answers true.
\<close>

fun run_tries :: "((int \<times> int) list \<times> int) list \<Rightarrow> nat \<Rightarrow> 's ssys \<Rightarrow> 's ssys option" where
  "run_tries [] op S = Some S"
| "run_tries ((script, err) # ts) op S =
     (case run_work script err op S of
        None \<Rightarrow> None
      | Some (finished, S1) \<Rightarrow>
          if finished then (if ts = [] then Some S1 else None) else run_tries ts op S1)"

text \<open>What an attempt leaves in the operation and its buffer.\<close>

definition moved :: "nat \<Rightarrow> nat \<Rightarrow> 's ssys \<Rightarrow> 's ssys \<Rightarrow> bool" where
  "moved op buf S S' \<longleftrightarrow>
     0 < bytes_mem S' op \<and> ec_of (core S') op = 0 \<and> cb_add_bytes buf (bytes_mem S' op) (bufs S) = Some (bufs S')
     \<or> bytes_mem S' op = 0 \<and> bufs S' = bufs S"

lemma op_do_work_cases:
  assumes "op_do_work script err buf h = Some (WDone r e n vecs h')"
  shows "0 < n \<and> e = 0 \<and> r \<and> cb_add_bytes buf n h = Some h' \<or> n = 0 \<and> h' = h \<and> (r \<longleftrightarrow> e \<noteq> EAGAIN)"
  using assms by (auto simp: op_do_work_def bind_eq_Some_conv split: if_splits prod.splits)

lemma run_work_spec:
  assumes "run_work script err op S = Some (r, S')" and "oper_at S op = Some (Rw kind s h buf fl addr)"
  shows "oper_at S' = oper_at S" "strs S' = strs S" "calls_made S' = calls_made S" "moved op buf S S'"
    "\<not> r \<Longrightarrow> bufs S' = bufs S" "r \<Longrightarrow> ec_of (core S') op \<noteq> EAGAIN"
proof -
  obtain e n vecs b where w: "op_do_work script err buf (bufs S) = Some (WDone r e n vecs b)"
    and S': "S' = S\<lparr>bufs := b, core := set_ec op e (core S), bytes_mem := (bytes_mem S)(op := n)\<rparr>"
    using assms
    by (auto simp: run_work_def read_do_work_def write_do_work_def split: option.splits work_res.splits if_splits)
  show "oper_at S' = oper_at S" "strs S' = strs S" "calls_made S' = calls_made S" "moved op buf S S'"
    "\<not> r \<Longrightarrow> bufs S' = bufs S" "r \<Longrightarrow> ec_of (core S') op \<noteq> EAGAIN"
    using op_do_work_cases [OF w] by (auto simp: S' moved_def)
qed

lemma run_tries_spec:
  assumes "run_tries tries op S = Some S'" and "oper_at S op = Some (Rw kind s h buf fl addr)" and "tries \<noteq> []"
  shows "oper_at S' = oper_at S \<and> strs S' = strs S \<and> calls_made S' = calls_made S \<and> moved op buf S S'"
  using assms
proof (induction tries arbitrary: S)
  case (Cons t ts)
  obtain script err where t: "t = (script, err)" by fastforce
  obtain r S1 where w: "run_work script err op S = Some (r, S1)"
    using Cons.prems(1) t by (auto split: option.splits)
  note sp = run_work_spec [OF w Cons.prems(2)]
  show ?case
  proof (cases "r \<or> ts = []")
    case True
    then have "S' = S1" using Cons.prems(1) t w by (auto split: if_splits)
    then show ?thesis using sp by simp
  next
    case False
    then have "run_tries ts op S1 = Some S'" using Cons.prems(1) t w by simp
    from Cons.IH [OF this] show ?thesis using False sp Cons.prems(2) by (auto simp: moved_def)
  qed
qed simp

text \<open>The completion of an operation whose handler is the stream socket's own member.\<close>

lemma complete_member:
  assumes "oper_at S op = Some (Rw kind s (Member a) buf fl addr)" and "strs S a = Some x"
    and "(if kind = op_write then wh x else rh x) = Some u"
  shows "op_do_complete op S = Inr (S\<lparr>oper_at := (oper_at S)(op := None),
     calls_made := calls_made S @ [Called_Rw u (ec_of (core S) op) (to_i32 (int (bytes_mem S op)))]\<rparr>)"
  using assms
  by (auto simp: op_do_complete_def op_callback_def do_callback_def call_target_def ss_handle_write_def ss_handle_read_def
      Let_def split: if_splits)

text \<open>
  C18. What the user's handler is called with when a read or write of the stream socket completes
  after one or more attempts, cancelled or not: exactly once, with the number of bytes by which
  the buffer has advanced and no error, or no bytes and an unchanged buffer; a cancelled
  operation reports \<open>ECANCELED\<close>. The operation is freed.
\<close>

theorem handler_gets_result:
  assumes "oper_at S op = Some (Rw kind s (Member a) buf fl addr)" and "strs S a = Some x"
    and "(if kind = op_write then wh x else rh x) = Some u"
    and "tries \<noteq> []" and "run_tries tries op S = Some S1"
    and "S2 = (if cancelled then upd_core (set_ec op ECANCELED) S1 else S1)"
  shows "\<exists>S3 n. op_do_complete op S2 = Inr S3 \<and> oper_at S3 = (oper_at S)(op := None)
     \<and> calls_made S3 = calls_made S @ [Called_Rw u (ec_of (core S2) op) (to_i32 (int n))]
     \<and> (0 < n \<and> ec_of (core S1) op = 0 \<and> cb_add_bytes buf n (bufs S) = Some (bufs S3) \<or> n = 0 \<and> bufs S3 = bufs S)"
proof -
  note sp = run_tries_spec [OF assms(5,1,4)]
  define S3 where "S3 = S2\<lparr>oper_at := (oper_at S2)(op := None),
      calls_made := calls_made S2 @ [Called_Rw u (ec_of (core S2) op) (to_i32 (int (bytes_mem S2 op)))]\<rparr>"
  have k: "oper_at S2 = oper_at S" "strs S2 = strs S" "calls_made S2 = calls_made S" "bufs S2 = bufs S1"
    "bytes_mem S2 = bytes_mem S1"
    using sp by (auto simp: assms(6) upd_core_def)
  have "op_do_complete op S2 = Inr S3"
    using complete_member [of S2 op kind s a buf fl addr x u] assms(1-3) k by (simp add: S3_def)
  moreover have "moved op buf S S1" using sp by simp
  ultimately show ?thesis
    using k by (intro exI [of _ S3] exI [of _ "bytes_mem S1 op"]) (auto simp: S3_def moved_def)
qed

text \<open>A stream socket at address 9 over the descriptor set of \<open>ep1\<close>, with an operation at \<open>op\<close>.\<close>

definition ssys1 :: "nat \<Rightarrow> cheap \<Rightarrow> tio ssys" where
  "ssys1 op h = \<lparr>core = ep1, oper_at = [op \<mapsto> Rw op_write 5 (Member 9) 1 0 None], bytes_mem = \<lambda>_. 77, bufs = h,
     strs = [9 \<mapsto> \<lparr>iface = Some \<lparr>sd = 5, sdata = Some 1\<rparr>, remote = (''10.0.0.1'', 80), wh = Some 3, rh = None\<rparr>],
     calls_made = []\<rparr>"

theorem handler_gets_result_witness:
  "\<exists>S1 S3. run_tries [([(- 1, EAGAIN)], 0), ([(6, 0)], 0)] 20 (ssys1 20 (chain_of [4, 4])) = Some S1
     \<and> op_do_complete 20 S1 = Inr S3 \<and> calls_made S3 = [Called_Rw 3 0 6]"
proof -
  let ?h = "chain_of [4, 4]"
  have i: "cb_inv ?h [1, 2]" by (rule chain_of_inv2) simp
  have c: "chain ?h (cb_get_cur 1 ?h) = Some [1, 2]"
    using cb_inv_chain [OF i] by (simp add: cb_get_cur_def chain_of_def)
  have "1 \<in> set [1, 2::nat]" "\<forall>x \<in> set [1, 2]. cb_len (?h x) = 4" "(0::nat) < 4"
    "cb_get_trans 1 ?h = 0" "0 + 6 \<le> 4 * length [1, 2::nat]"
    by (simp_all add: chain_of_def cb_get_trans_def)
  from add_bytes_uniform [OF i this] obtain h' where h: "cb_add_bytes 1 6 ?h = Some h'" by auto
  have w: "op_do_work [(- 1, EAGAIN)] 0 1 ?h = Some (WDone False EAGAIN 0 (msg_vecs ?h [1, 2]) ?h)"
    "op_do_work [(6, 0)] 0 1 ?h = Some (WDone True 0 6 (msg_vecs ?h [1, 2]) h')"
    using c h by (simp_all add: op_do_work_def)
  define S1 where "S1 = (ssys1 20 ?h)\<lparr>bufs := h', core := set_ec 20 0 (set_ec 20 EAGAIN ep1), bytes_mem := (\<lambda>_. 77)(20 := 0, 20 := 6)\<rparr>"
  have t: "run_tries [([(- 1, EAGAIN)], 0), ([(6, 0)], 0)] 20 (ssys1 20 ?h) = Some S1"
    using w by (simp add: run_work_def write_do_work_def ssys1_def S1_def)
  have o: "oper_at (ssys1 20 ?h) 20 = Some (Rw op_write 5 (Member 9) 1 0 None)"
    and x: "strs (ssys1 20 ?h) 9 = Some \<lparr>iface = Some \<lparr>sd = 5, sdata = Some 1\<rparr>, remote = (''10.0.0.1'', 80), wh = Some 3, rh = None\<rparr>"
    by (simp_all add: ssys1_def)
  from handler_gets_result [OF o x _ _ t, of 3 S1 False] obtain S3 n where
      r: "op_do_complete 20 S1 = Inr S3" "calls_made S3 = [Called_Rw 3 0 (to_i32 (int n))]"
    by (auto simp: ssys1_def S1_def)
  moreover have "calls_made S3 = [Called_Rw 3 0 6]"
    using r(1) by (auto simp: op_do_complete_def op_callback_def S1_def ssys1_def do_callback_def call_target_def
        ss_handle_write_def to_i32_def)
  ultimately show ?thesis using t by blast
qed

text \<open>
  C21. An asynchronous write for a buffer that is already transferred is completed without an
  attempt, and nothing sets its result: the user's handler is called with the error and the
  number of bytes that the memory held before the operation was made there.
\<close>

theorem unset_result_reported:
  assumes "strs S a = Some x" and "iface x = Some k" and "wh x = Some u"
    and "cb_get_total buf (bufs S) = cb_get_trans buf (bufs S)"
    and "S1 = stream_async_write (tio_ops cs) w getfl setfl e op a buf None fl S"
  shows "tio_held cs (io (core S1)) = add_mset op (tio_held cs (io (core S)))
     \<and> (\<exists>S2. op_do_complete op S1 = Inr S2
          \<and> calls_made S2 = calls_made S @ [Called_Rw u (ec_of (core S) op) (to_i32 (int (bytes_mem S op)))])"
proof -
  have c: "core S1 = upd_io (post_immediate_completion cs op) (core S)"
    and o: "oper_at S1 op = Some (Rw op_write (sd k) (Member a) buf fl None)"
    and r: "strs S1 = strs S" "calls_made S1 = calls_made S" "bytes_mem S1 = bytes_mem S"
    using assms by (simp_all add: stream_async_write_def so_async_write_def new_op_def upd_core_def sock_async_write_def
        sock_start_write_op_def sock_start_op_def tio_ops_def)
  show ?thesis
    using immediate_law [of cs op "io (core S)"] assms(1,3)
    by (simp add: c o r op_do_complete_def op_callback_def do_callback_def call_target_def ss_handle_write_def)
qed

theorem unset_result_reported_witness:
  "\<exists>S2. op_do_complete 20 (stream_async_write (tio_ops []) (\<lambda>_. False) 0 (\<lambda>_. 0) 9 20 9 1 None 0 (ssys1 11 (chain_of []))) = Inr S2
     \<and> calls_made S2 = [Called_Rw 3 (ec_of ep1 20) 77]"
proof -
  let ?S = "ssys1 11 (chain_of [])"
  have "strs ?S 9 = Some \<lparr>iface = Some \<lparr>sd = 5, sdata = Some 1\<rparr>, remote = (''10.0.0.1'', 80), wh = Some 3, rh = None\<rparr>"
    and "cb_get_total 1 (bufs ?S) = cb_get_trans 1 (bufs ?S)"
    by (simp_all add: ssys1_def cb_get_total_def cb_get_trans_def chain_of_def)
  from unset_result_reported [where cs = "[]" and w = "\<lambda>_. False" and getfl = 0 and setfl = "\<lambda>_. 0" and e = 9
      and op = 20 and fl = 0 and k = "\<lparr>sd = 5, sdata = Some 1\<rparr>" and u = 3, OF this(1) _ _ this(2) refl]
  show ?thesis by (auto simp: ssys1_def to_i32_def)
qed

text \<open>
  C20. Deleting a stream socket while one of its operations with its own member as handler is
  pending: the destructor closes the socket, which posts the operation as cancelled to the
  service instead of destroying it, so that its completion calls a member of the deleted object.
  With the user's handler in its place the same completion is delivered.
\<close>

theorem dead_socket_called:
  assumes "ep_inv ls fs (core S)" and "strs S a = Some x" and "iface x = Some k" and "is_open k"
    and "sdata k = Some d" "d \<in> set ls" "op \<in> set (set_ops (sets (core S) d))"
    and "oper_at S op = Some (Rw kind s h buf fl addr)"
    and "S1 = stream_delete (tio_ops cs) a S"
  shows "op \<in># tio_held cs (io (core S1)) \<and> ec_of (core S1) op = ECANCELED
     \<and> (case h of
          User u \<Rightarrow> \<exists>S2. op_do_complete op S1 = Inr S2
            \<and> calls_made S2 = calls_made S @ [Called_Rw u ECANCELED (to_i32 (int (bytes_mem S op)))]
        | Member b \<Rightarrow> b = a \<longrightarrow> op_do_complete op S1 = Inl Dead_Object)"
proof -
  obtain p s1 where d: "deregister_descriptor (tio_ops cs) (sd k) (Some d) True (core S) = (p, s1)" by fastforce
  note l = tio.deregister_posts [OF assms(1,6) d]
  have c: "core S1 = s1\<lparr>kern := (kern s1)(sd k := None)\<rparr>" and r: "strs S1 = (strs S)(a := None)"
      "oper_at S1 = oper_at S" "calls_made S1 = calls_made S" "bytes_mem S1 = bytes_mem S"
    using assms(2-5,9) d by (simp_all add: stream_delete_def stream_is_open_def stream_close_def sock_do_close_def Let_def)
  have h: "op \<in># tio_held cs (io s1)" using l assms(7) by auto
  have e: "ec_of s1 op = ECANCELED" using l assms(7) by simp
  show ?thesis
    using h e assms(8)
    by (auto simp: c r op_do_complete_def op_callback_def do_callback_def call_target_def split: target.splits)
qed

theorem dead_socket_called_witness:
  "12 \<in># tio_held [] (io (core (stream_delete (tio_ops []) 9 (ssys1 12 (chain_of [4, 4])))))
   \<and> op_do_complete 12 (stream_delete (tio_ops []) 9 (ssys1 12 (chain_of [4, 4]))) = Inl Dead_Object"
proof -
  let ?S = "ssys1 12 (chain_of [4, 4])" and ?k = "\<lparr>sd = 5, sdata = Some 1\<rparr>"
  have i: "ep_inv [1] [] (core ?S)" using ep1_inv by (simp add: ssys1_def)
  have x: "strs ?S 9 = Some \<lparr>iface = Some ?k, remote = (''10.0.0.1'', 80), wh = Some 3, rh = None\<rparr>"
    and o: "oper_at ?S 12 = Some (Rw op_write 5 (Member 9) 1 0 None)"
    and q: "12 \<in> set (set_ops (sets (core ?S) 1))"
    by (simp_all add: ssys1_def ep1_def set_ops_def)
  from dead_socket_called [OF i x _ _ _ _ q o refl, of ?k "[]"] show ?thesis by (simp add: is_open_def)
qed

end
