(* ===== verification/Median.thy ===== *)
theory Median
  imports Complex_Main Prelude_C
begin

text \<open>
  \<open>leetcode/1-100/4-findMedianSortedArray.c\<close>, as far as it is written: the median of one array,
  the order of the two, and the case of arrays that do not overlap. The general case is an empty
  loop for an even total and nothing for an odd one. A \<open>double\<close> holds the halves that are
  computed exactly; they are rational numbers here.
\<close>

section \<open>The program\<close>

definition arr_at :: "int list \<Rightarrow> int \<Rightarrow> fault + int" where
  "arr_at xs i = (if 0 \<le> i \<and> i < int (length xs) then Inr (xs ! nat i) else Inl Bad_Index)"

text \<open>\<open>(a + b) / 2.0\<close>: the sum is an \<open>int\<close>.\<close>

definition half_sum :: "int \<Rightarrow> int \<Rightarrow> rat" where
  "half_sum a b = of_int (to_i32 (a + b)) / 2"

definition median :: "int list \<Rightarrow> fault + rat" where
  "median pl =
     (let nl = int (length pl) in
      if nl mod 2 = 0
      then bindE (arr_at pl (nl div 2 - 1)) (\<lambda>a. bindE (arr_at pl (nl div 2 + 1)) (\<lambda>b. Inr (half_sum a b)))
      else bindE (arr_at pl (nl div 2)) (\<lambda>a. Inr (of_int a)))"

text \<open>\<open>binarySearch\<close> returns only when there is nothing to search; \<open>None\<close> is its empty loop.\<close>

definition binarySearch :: "int \<Rightarrow> int list option \<Rightarrow> int \<Rightarrow> int option" where
  "binarySearch t p n = (if p = None \<or> n \<le> 0 then Some (- 1) else None)"

text \<open>\<open>Endless\<close> is the empty loop, \<open>No_Value\<close> the end of the function without a \<open>return\<close>.\<close>

datatype median_res = Fault fault | Value rat | Endless | No_Value

fun res_of :: "fault + rat \<Rightarrow> median_res" where
  "res_of (Inl f) = Fault f"
| "res_of (Inr m) = Value m"

text \<open>The special case: every element of \<open>pl\<close> is at most every element of \<open>pr\<close>.\<close>

definition disjoint_even :: "int list \<Rightarrow> int list \<Rightarrow> fault + rat" where
  "disjoint_even pl pr =
     (let nl = int (length pl); nr = int (length pr); piv = (nl + nr) div 2; idx = piv - nl in
      if idx > 0 then bindE (arr_at pr idx) (\<lambda>a. bindE (arr_at pr (idx - 1)) (\<lambda>b. Inr (half_sum a b)))
      else if idx \<noteq> 0 then bindE (arr_at pl piv) (\<lambda>a. bindE (arr_at pl (piv - 1)) (\<lambda>b. Inr (half_sum a b)))
      else bindE (arr_at pl (nl - 1)) (\<lambda>a. Inr (of_int a)))"

definition disjoint_odd :: "int list \<Rightarrow> int list \<Rightarrow> fault + rat" where
  "disjoint_odd pl pr =
     (let nl = int (length pl); nr = int (length pr); piv = (nl + nr) div 2; idx = piv - nl in
      if idx > 0 then bindE (arr_at pr idx) (\<lambda>a. Inr (of_int a))
      else if idx \<noteq> 0 then bindE (arr_at pl piv) (\<lambda>a. Inr (of_int a))
      else bindE (arr_at pr 0) (\<lambda>a. Inr (of_int a)))"

definition after_swap :: "int list \<Rightarrow> int list \<Rightarrow> rat \<Rightarrow> rat \<Rightarrow> median_res" where
  "after_swap pl pr ml mr =
     (if ml = mr \<and> length pl mod 2 = 0 then Value mr
      else if ml = mr \<and> length pr mod 2 = 0 then Value ml
      else case (arr_at pl (int (length pl) - 1), arr_at pr 0) of
          (Inr a, Inr b) \<Rightarrow>
            let total_even = ((length pl + length pr) mod 2 = 0) in
            if a \<le> b then res_of (if total_even then disjoint_even pl pr else disjoint_odd pl pr)
            else if total_even then Endless else No_Value
        | _ \<Rightarrow> Fault Bad_Index)"

definition findMedianSortedArrays :: "int list \<Rightarrow> int list \<Rightarrow> median_res" where
  "findMedianSortedArrays nums1 nums2 =
     (if nums1 = [] then res_of (median nums2)
      else if nums2 = [] then res_of (median nums1)
      else case (median nums1, median nums2) of
          (Inr ml, Inr mr) \<Rightarrow> if ml > mr then after_swap nums2 nums1 mr ml else after_swap nums1 nums2 ml mr
        | _ \<Rightarrow> Fault Bad_Index)"

section \<open>What it computes\<close>

definition true_median :: "int list \<Rightarrow> rat" where
  "true_median xs =
     (let ys = sort xs; n = length ys in
      if even n then (of_int (ys ! (n div 2 - 1)) + of_int (ys ! (n div 2))) / 2 else of_int (ys ! (n div 2)))"

text \<open>No sum of two elements overflows.\<close>

definition small :: "int list \<Rightarrow> bool" where
  "small xs \<longleftrightarrow> (\<forall>x \<in> set xs. - 1073741824 \<le> x \<and> x < 1073741824)"

lemma arr_at_nth: "i < length xs \<Longrightarrow> arr_at xs (int i) = Inr (xs ! i)"
  by (simp add: arr_at_def)

lemma half_sum_small:
  "small xs \<Longrightarrow> a \<in> set xs \<Longrightarrow> b \<in> set xs \<Longrightarrow> half_sum a b = (of_int a + of_int b) / 2"
proof -
  assume "small xs" "a \<in> set xs" "b \<in> set xs"
  then have "- 1073741824 \<le> a" "a < 1073741824" "- 1073741824 \<le> b" "b < 1073741824" by (simp_all add: small_def)
  then have "- 2147483648 \<le> a + b" "a + b < 2147483648" by simp_all
  then have "to_i32 (a + b) = a + b" by (simp add: to_i32_def)
  then show ?thesis by (simp add: half_sum_def)
qed

lemma median_odd:
  assumes "odd (length xs)"
  shows "median xs = Inr (of_int (xs ! (length xs div 2)))"
proof -
  have "int (length xs) mod 2 = 1" using assms by presburger
  moreover have "int (length xs) div 2 = int (length xs div 2)" by simp
  moreover have "length xs div 2 < length xs" using assms by (cases xs) auto
  ultimately show ?thesis using arr_at_nth [of "length xs div 2" xs] by (simp add: median_def Let_def)
qed

text \<open>
  The median of an array of even length takes the wrong second element, past the end for two
  elements.
\<close>

lemma median_two: "median [a, b] = Inl Bad_Index"
  by (simp add: median_def arr_at_def)

text \<open>
  Two sorted arrays of odd lengths, the first not above the second: the result is the median of
  all elements exactly when the lengths differ or the elements in the middle are equal; for equal
  lengths the last element of the first array is returned instead of the mean.
\<close>

theorem disjoint_median:
  assumes "sorted p" "sorted r" "odd (length p)" "odd (length r)" "last p \<le> hd r" "small (p @ r)"
  shows "findMedianSortedArrays p r = Value (true_median (p @ r)) \<longleftrightarrow> length p \<noteq> length r \<or> last p = hd r"
proof -
  have ne: "p \<noteq> []" "r \<noteq> []" using assms(3,4) by auto
  have le: "x \<le> y" if "x \<in> set p" "y \<in> set r" for x y
  proof -
    have "x \<le> last p" using assms(1) that(1) ne(1) by (metis in_set_conv_nth last_conv_nth length_greater_0_conv
        less_Suc_eq_le diff_Suc_1 Suc_pred sorted_nth_mono diff_less zero_less_one)
    moreover have "hd r \<le> y" using assms(2) that(2) by (cases r) auto
    ultimately show ?thesis using assms(5) by simp
  qed
  have s: "sort (p @ r) = p @ r"
    by (rule sorted_sort_id) (use assms(1,2) le in \<open>auto simp: sorted_append\<close>)
  let ?nl = "length p" and ?nr = "length r"
  have m: "median p = Inr (of_int (p ! (?nl div 2)))" "median r = Inr (of_int (r ! (?nr div 2)))"
    using median_odd assms(3,4) by simp_all
  have "?nl div 2 < ?nl" "?nr div 2 < ?nr" using ne by (simp_all add: div_less_dividend)
  then have mid: "p ! (?nl div 2) \<le> r ! (?nr div 2)" using le by simp
  have ends: "arr_at p (int ?nl - 1) = Inr (last p)" "arr_at r 0 = Inr (hd r)"
    using ne arr_at_nth [of "?nl - 1" p] by (simp_all add: last_conv_nth of_nat_diff Suc_le_eq arr_at_def hd_conv_nth)
  have ev: "even (?nl + ?nr)" using assms(3,4) by simp
  have f: "findMedianSortedArrays p r = res_of (disjoint_even p r)"
    using ne m mid ends assms(3-5) ev
    by (auto simp: findMedianSortedArrays_def after_swap_def Let_def odd_iff_mod_2_eq_one even_iff_mod_2_eq_zero)
  define piv where "piv = (?nl + ?nr) div 2"
  have ip: "(int ?nl + int ?nr) div 2 = int piv" by (simp add: piv_def)
  have pv: "?nl + ?nr = 2 * piv" using ev by (simp add: piv_def)
  have t: "true_median (p @ r) = (of_int ((p @ r) ! (piv - 1)) + of_int ((p @ r) ! piv)) / 2"
    using ev by (simp add: true_median_def s piv_def Let_def)
  have small2: "half_sum a b = (of_int a + of_int b) / 2" if "a \<in> set (p @ r)" "b \<in> set (p @ r)" for a b
    using half_sum_small [OF assms(6)] that by blast
  consider "?nl < ?nr" | "?nr < ?nl" | "?nl = ?nr" by linarith
  then show ?thesis
  proof cases
    case 1
    define d where "d = piv - ?nl - 1"
    have d: "piv = ?nl + Suc d" "Suc d < ?nr"
      using 1 pv unfolding d_def by linarith+
    have "disjoint_even p r = Inr (half_sum (r ! Suc d) (r ! d))"
      using d arr_at_nth [of "Suc d" r] arr_at_nth [of d r]
      by (simp add: disjoint_even_def Let_def ip)
    also have "half_sum (r ! Suc d) (r ! d) = true_median (p @ r)"
      using d small2 [of "r ! Suc d" "r ! d"] by (simp add: t nth_append)
    finally show ?thesis using f 1 by simp
  next
    case 2
    have d: "0 < piv" "piv < ?nl" using 2 pv by linarith+
    have "disjoint_even p r = Inr (half_sum (p ! piv) (p ! (piv - 1)))"
      using d arr_at_nth [of piv p] arr_at_nth [of "piv - 1" p]
      by (simp add: disjoint_even_def Let_def ip of_nat_diff Suc_le_eq)
    also have "half_sum (p ! piv) (p ! (piv - 1)) = true_median (p @ r)"
      using d small2 [of "p ! piv" "p ! (piv - 1)"] less_imp_diff_less [OF d(2), of 1] by (simp add: t nth_append)
    finally show ?thesis using f 2 by simp
  next
    case 3
    have d: "piv = ?nl" "0 < ?nl" using 3 ne pv by simp_all
    have "disjoint_even p r = Inr (of_int (last p))"
      using d ends by (simp add: disjoint_even_def Let_def ip)
    then have v: "findMedianSortedArrays p r = Value (of_int (last p))" using f by simp
    have w: "true_median (p @ r) = (of_int (last p) + of_int (hd r)) / 2"
      using d ne by (simp add: t nth_append last_conv_nth hd_conv_nth)
    have "(of_int (last p) :: rat) = (of_int (last p) + of_int (hd r)) / 2 \<longleftrightarrow> last p = hd r"
      by (simp add: field_simps)
    then show ?thesis unfolding v w using 3 by simp
  qed
qed

theorem disjoint_median_witness:
  "findMedianSortedArrays [1] [3, 5, 8] = Value (true_median [1, 3, 5, 8]) \<and> findMedianSortedArrays [1] [3] \<noteq> Value (true_median [1, 3])"
  using disjoint_median [of "[1]" "[3, 5, 8]"] disjoint_median [of "[1]" "[3]"] by (simp add: small_def)

end
