(* ===== verification/Stream_Client.thy ===== *)
theory Stream_Client
  imports Stream_Props
begin

text \<open>
  \<open>deviceagent/2deviceagent/io/object/test/client.cc\<close>: the client that reads or writes one chain of
  16 messages of 10 MB over and over through a stream socket. Its handlers start the next
  operation; here the handlers, the completion of the operation and the reactor's attempts are
  composed to rounds, and the position in the chain is followed over any number of them.
\<close>

section \<open>The client\<close>

abbreviation MAX_CBUFF_SIZ :: nat where "MAX_CBUFF_SIZ \<equiv> MAX_IOVEC_NUM"
abbreviation BUF_LEN :: nat where "BUF_LEN \<equiv> 1024 * 1024 * 10"
abbreviation MSG_DONTWAIT :: int where "MSG_DONTWAIT \<equiv> 64"

text \<open>The addresses of the socket and the messages, and the numbers of the two members used as handlers.\<close>

record stream_client =
  c_sock :: nat
  c_buf :: "nat list"
  c_on_write :: nat
  c_on_read :: nat

text \<open>
  The loop of the constructor: \<open>ps\<close> are the addresses of the nodes and of their messages, in the
  order of allocation; each node is appended to the one before.
\<close>

fun build_bufs :: "nat option \<Rightarrow> (nat \<times> nat) list \<Rightarrow> cheap \<Rightarrow> cheap option" where
  "build_bufs pr [] h = Some h"
| "build_bufs pr ((p, msg) # ps) h =
     (let h1 = cb_construct p msg BUF_LEN h in
      case pr of
        None \<Rightarrow> build_bufs (Some p) ps h1
      | Some q \<Rightarrow> Option.bind (cb_append q p h1) (\<lambda>(_, h2). build_bufs (Some p) ps h2))"

definition client_new ::
  "nat option \<Rightarrow> int \<Rightarrow> nat \<Rightarrow> int \<Rightarrow> int \<Rightarrow> stream_client \<Rightarrow> nat list \<Rightarrow> 's ssys \<Rightarrow> 's ssys option" where
  "client_new junk junk_port fresh socket_r err c msgs S =
     (let (x, s1) = stream_open fresh socket_r err (new_stream junk ('''', junk_port)) (core S);
          x1 = set_read_handler (c_on_read c) (set_write_handler (c_on_write c) x)
      in map_option (\<lambda>h. S\<lparr>core := s1, strs := (strs S)(c_sock c \<mapsto> x1), bufs := h\<rparr>)
           (build_bufs None (zip (c_buf c) msgs) (bufs S)))"

definition client_connect :: "(string \<Rightarrow> int option) \<Rightarrow> (int \<times> int \<times> int \<Rightarrow> int) \<Rightarrow> int \<Rightarrow> int \<Rightarrow> stream_client \<Rightarrow> 's ssys \<Rightarrow> int" where
  "client_connect aton connect_r poll_r err c S =
     stream_connect_to aton connect_r poll_r err (the (strs S (c_sock c))) (''10.12.2.100'', 3966)"

definition client_connect2 :: "(string \<Rightarrow> int option) \<Rightarrow> (int \<times> int \<times> int \<Rightarrow> int) \<Rightarrow> int \<Rightarrow> int \<Rightarrow> stream_client \<Rightarrow> 's ssys \<Rightarrow> int" where
  "client_connect2 aton connect_r poll_r err c S =
     stream_connect_to aton connect_r poll_r err (the (strs S (c_sock c))) (''10.12.2.100'', 3967)"

text \<open>What a started operation meets: the answers of the calls of \<open>start_op\<close>, and its own address.\<close>

record answers =
  a_work :: "nat \<Rightarrow> bool"
  a_getfl :: int
  a_setfl :: "int \<Rightarrow> int"
  a_err :: int
  a_op :: nat

definition client_async_write :: "'s io_ops \<Rightarrow> answers \<Rightarrow> stream_client \<Rightarrow> 's ssys \<Rightarrow> 's ssys" where
  "client_async_write io_s v c S =
     stream_async_write io_s (a_work v) (a_getfl v) (a_setfl v) (a_err v) (a_op v) (c_sock c) (hd (c_buf c)) None MSG_DONTWAIT S"

definition client_async_read :: "'s io_ops \<Rightarrow> answers \<Rightarrow> stream_client \<Rightarrow> 's ssys \<Rightarrow> 's ssys" where
  "client_async_read io_s v c S =
     stream_async_read io_s (a_work v) (a_getfl v) (a_setfl v) (a_err v) (a_op v) (c_sock c) (hd (c_buf c)) None 0 S"

definition on_write_data :: "'s io_ops \<Rightarrow> answers \<Rightarrow> stream_client \<Rightarrow> int \<Rightarrow> int \<Rightarrow> 's ssys \<Rightarrow> 's ssys option" where
  "on_write_data io_s v c ec bytes S =
     (let b = hd (c_buf c) in
      if ec \<noteq> 0 \<and> bytes = 0 then Some S
      else if cb_get_trans b (bufs S) \<ge> cb_get_total b (bufs S)
      then map_option (\<lambda>h. client_async_write io_s v c (S\<lparr>bufs := h\<rparr>)) (cb_set_bytes b 0 (bufs S))
      else Some (client_async_write io_s v c S))"

definition on_read_data :: "'s io_ops \<Rightarrow> answers \<Rightarrow> stream_client \<Rightarrow> int \<Rightarrow> int \<Rightarrow> 's ssys \<Rightarrow> 's ssys option" where
  "on_read_data io_s v c ec bytes S =
     (let b = hd (c_buf c) in
      if ec \<noteq> 0 \<and> bytes = 0 then Some S
      else if cb_get_trans b (bufs S) \<ge> cb_get_total b (bufs S)
      then map_option (\<lambda>h. client_async_read io_s v c (S\<lparr>bufs := h\<rparr>)) (cb_set_bytes b 0 (bufs S))
      else Some (client_async_read io_s v c S))"

text \<open>\<open>stop\<close> posts \<open>do_stop\<close>, here the handler \<open>u\<close>; the service calls it later.\<close>

definition client_stop :: "'s io_ops \<Rightarrow> nat \<Rightarrow> nat \<Rightarrow> nat \<Rightarrow> 's ssys \<Rightarrow> 's ssys" where
  "client_stop io_s op u arg S = stream_post io_s op u arg S"

definition client_do_stop :: "'s io_ops \<Rightarrow> stream_client \<Rightarrow> 's ssys \<Rightarrow> 's ssys" where
  "client_do_stop io_s c S =
     (let (x, s1) = stream_close io_s (the (strs S (c_sock c))) (core S)
      in S\<lparr>core := s1, strs := (strs S)(c_sock c \<mapsto> x)\<rparr>)"

text \<open>The destructor: the messages deleted and the state; the socket object and the nodes are never deleted.\<close>

definition client_delete :: "'s io_ops \<Rightarrow> stream_client \<Rightarrow> 's ssys \<Rightarrow> (nat list \<times> 's ssys) option" where
  "client_delete io_s c S =
     (let S1 = client_do_stop io_s c S
      in map_option (\<lambda>(ms, h). (ms, S1\<lparr>bufs := h\<rparr>)) (destroy_buffer_list (hd (c_buf c)) (bufs S1)))"

text \<open>\<open>main\<close>: what the lines read from the terminal make it do.\<close>

datatype command = Stop_Clients | Quit

fun client_main :: "string list \<Rightarrow> command list" where
  "client_main [] = []"
| "client_main (l # ls) =
     (if l = ''s'' then client_main ls
      else if l = ''r'' then Stop_Clients # client_main ls
      else if l = ''q'' then [Quit]
      else client_main ls)"

section \<open>Rounds\<close>

text \<open>
  One round: the attempts at the operation, its completion, and the client's handler that the
  completion calls.
\<close>

definition client_handler :: "'s io_ops \<Rightarrow> answers \<Rightarrow> stream_client \<Rightarrow> called \<Rightarrow> 's ssys \<Rightarrow> 's ssys option" where
  "client_handler io_s v c k S =
     (case k of
        Called_Rw u e n \<Rightarrow>
          if u = c_on_write c then on_write_data io_s v c e n S
          else if u = c_on_read c then on_read_data io_s v c e n S else None
      | Called_Post u arg \<Rightarrow> None)"

definition attempt_round ::
  "'s io_ops \<Rightarrow> answers \<Rightarrow> stream_client \<Rightarrow> ((int \<times> int) list \<times> int) list \<Rightarrow> nat \<Rightarrow> 's ssys \<Rightarrow> 's ssys option" where
  "attempt_round io_s v c tries op S =
     Option.bind (run_tries tries op S) (\<lambda>S1.
       case op_do_complete op S1 of
         Inl _ \<Rightarrow> None
       | Inr S2 \<Rightarrow> client_handler io_s v c (last (calls_made S2)) S2)"

fun client_run ::
  "'s io_ops \<Rightarrow> stream_client \<Rightarrow> (((int \<times> int) list \<times> int) list \<times> answers) list \<Rightarrow> nat \<Rightarrow> 's ssys \<Rightarrow> (nat \<times> 's ssys) option" where
  "client_run io_s c [] op S = Some (op, S)"
| "client_run io_s c ((tries, v) # rs) op S =
     Option.bind (attempt_round io_s v c tries op S) (\<lambda>S1. client_run io_s c rs (a_op v) S1)"

end
