(* ===== verification/Client_Props.thy ===== *)
theory Client_Props
  imports Stream_Client
begin

text \<open>
  What the client of \<open>Stream_Client\<close> does over its rounds: the chain it builds, the position in
  it after any number of transfers, the end on an error and the endless reading after the end
  of the stream.
\<close>

section \<open>Positions in a chain of equal messages\<close>

lemma nexts_drop: "nexts f p xs \<Longrightarrow> i < length xs \<Longrightarrow> nexts f (Some (xs ! i)) (drop i xs)"
proof (induction i arbitrary: p xs)
  case 0
  then show ?case by (cases xs) auto
next
  case (Suc i)
  then show ?case by (cases xs) auto
qed

lemma consume_loop_len: "cb_len (consume_loop this hp xs n h y) = cb_len (h y)"
  by (induction xs arbitrary: n h) (simp_all add: upd_cb_def)

lemma set_bytes_len: "cb_set_bytes this n h = Some h' \<Longrightarrow> cb_len (h' y) = cb_len (h y)"
  by (auto simp: cb_set_bytes_def Let_def consume_loop_len clear_consumed_spec upd_cb_def)

lemma add_bytes_len: "cb_add_bytes this n h = Some h' \<Longrightarrow> cb_len (h' y) = cb_len (h y)"
  unfolding cb_add_bytes_def Let_def by (drule set_bytes_len [where y = y]) (auto simp: upd_cb_def split: if_splits)

text \<open>A chain \<open>xs\<close> of messages of length \<open>l\<close> that is transferred up to byte \<open>d\<close>.\<close>

definition buf_at :: "nat list \<Rightarrow> nat \<Rightarrow> nat \<Rightarrow> nat \<Rightarrow> cheap \<Rightarrow> bool" where
  "buf_at xs l b d h \<longleftrightarrow> cb_inv h xs \<and> b \<in> set xs \<and> (\<forall>x \<in> set xs. cb_len (h x) = l) \<and> 0 < l
     \<and> d \<le> l * length xs \<and> cb_get_trans b h = d
     \<and> (\<forall>i < length xs. consumed (h (xs ! i)) = min l (d - i * l))
     \<and> cb_get_cur b h = (if d div l < length xs then Some (xs ! (d div l)) else None)"

lemma buf_at_total: "buf_at xs l b d h \<Longrightarrow> cb_get_total b h = l * length xs"
  using sum_list_const [of xs "\<lambda>x. cb_len (h x)" l] by (auto simp: buf_at_def cb_inv_def cb_get_total_def)

lemma buf_at_add:
  assumes "buf_at xs l b d h" and "d + n \<le> l * length xs"
  shows "\<exists>h'. cb_add_bytes b n h = Some h' \<and> buf_at xs l b (d + n) h'"
proof -
  have "cb_inv h xs" "b \<in> set xs" "\<forall>x \<in> set xs. cb_len (h x) = l" "0 < l" "cb_get_trans b h = d"
    using assms(1) by (simp_all add: buf_at_def)
  from add_bytes_uniform [OF this assms(2)] obtain h' where h': "cb_add_bytes b n h = Some h'" and
    "cb_inv h' xs \<and> cb_get_trans b h' = d + n \<and> (\<forall>i < length xs. consumed (h' (xs ! i)) = min l (d + n - i * l))
      \<and> cb_get_cur b h' = (if (d + n) div l < length xs then Some (xs ! ((d + n) div l)) else None)" by blast
  then have "buf_at xs l b (d + n) h'" using assms by (simp add: buf_at_def add_bytes_len [OF h'])
  then show ?thesis using h' by blast
qed

lemma buf_at_restart:
  assumes "buf_at xs l b d h"
  shows "\<exists>h'. cb_set_bytes b 0 h = Some h' \<and> buf_at xs l b 0 h'"
proof -
  have "cb_inv h xs" "b \<in> set xs" "\<forall>x \<in> set xs. cb_len (h x) = l" "0 < l" "0 \<le> l * length xs"
    using assms by (simp_all add: buf_at_def)
  from set_bytes_uniform [OF this] obtain h' where h': "cb_set_bytes b 0 h = Some h'" and
    "cb_inv h' xs \<and> cb_get_trans b h' = 0 \<and> (\<forall>i < length xs. consumed (h' (xs ! i)) = min l (0 - i * l))
      \<and> cb_get_cur b h' = (if 0 div l < length xs then Some (xs ! (0 div l)) else None)" by blast
  then have "buf_at xs l b 0 h'" using assms by (simp add: buf_at_def set_bytes_len [OF h'])
  then show ?thesis using h' by blast
qed

lemma buf_at_chain:
  assumes "buf_at xs l b d h" and "d < l * length xs"
  shows "chain h (cb_get_cur b h) = Some (drop (d div l) xs)"
proof -
  have "d div l < length xs" using assms by (simp add: less_mult_imp_div_less mult.commute)
  then show ?thesis
    using assms(1) nexts_drop [of "\<lambda>x. cb_next (h x)" "Some (hd xs)" xs "d div l"]
    by (simp add: buf_at_def cb_inv_def chain_nexts)
qed

section \<open>Attempts\<close>

lemma work_moves:
  assumes "buf_at xs l b d h" "length xs \<le> MAX_IOVEC_NUM" "d + n \<le> l * length xs" "0 < n"
  shows "\<exists>vecs h'. op_do_work [(int n, e)] err b h = Some (WDone True 0 n vecs h') \<and> buf_at xs l b (d + n) h'"
  using buf_at_add [OF assms(1,3)] buf_at_chain [OF assms(1)] assms(2-4) by (auto simp: op_do_work_def)

lemma work_none:
  assumes "buf_at xs l b d h" "length xs \<le> MAX_IOVEC_NUM" "d < l * length xs"
    and "sock_call script err = Some (r, e)" "r \<le> 0"
  shows "\<exists>vecs. op_do_work script err b h = Some (WDone (e \<noteq> EAGAIN) e 0 vecs h)"
  using buf_at_chain [OF assms(1,3)] assms(2-5) by (auto simp: op_do_work_def)

lemma run_work_rw:
  assumes "oper_at S op = Some (Rw kind s hdl b fl ad)" and "op_do_work script err b (bufs S) = Some (WDone r e n vecs h)"
  shows "run_work script err op S = Some (r, S\<lparr>bufs := h, core := set_ec op e (core S), bytes_mem := (bytes_mem S)(op := n)\<rparr>)"
  using assms by (simp add: run_work_def write_do_work_def read_do_work_def)

text \<open>States that agree on everything but the reactor and the results of operations.\<close>

definition same_mem :: "'s ssys \<Rightarrow> 's ssys \<Rightarrow> bool" where
  "same_mem S S' \<longleftrightarrow> oper_at S' = oper_at S \<and> strs S' = strs S \<and> calls_made S' = calls_made S \<and> bufs S' = bufs S"

abbreviation not_ready :: "(int \<times> int) list \<times> int" where
  "not_ready \<equiv> ([(- 1, EAGAIN)], 0)"

lemma run_tries_wait:
  assumes "oper_at S op = Some (Rw kind s hdl b fl ad)" "buf_at xs l b d (bufs S)" "length xs \<le> MAX_IOVEC_NUM"
    "d < l * length xs" "ts \<noteq> []"
  shows "\<exists>S'. run_tries (replicate k not_ready @ ts) op S = run_tries ts op S' \<and> same_mem S S'"
  using assms(1,2)
proof (induction k arbitrary: S)
  case 0
  then show ?case by (auto simp: same_mem_def)
next
  case (Suc k)
  obtain vecs where "op_do_work [(- 1, EAGAIN)] 0 b (bufs S) = Some (WDone False EAGAIN 0 vecs (bufs S))"
    using work_none [OF Suc.prems(2) assms(3,4), of "[(- 1, EAGAIN)]" 0 "- 1" EAGAIN] by auto
  note w = run_work_rw [OF Suc.prems(1) this]
  let ?S1 = "S\<lparr>bufs := bufs S, core := set_ec op EAGAIN (core S), bytes_mem := (bytes_mem S)(op := 0)\<rparr>"
  obtain S' where "run_tries (replicate k not_ready @ ts) op ?S1 = run_tries ts op S'" "same_mem ?S1 S'"
    using Suc.IH [of ?S1] Suc.prems by auto
  then show ?case using w by (auto simp: same_mem_def)
qed

text \<open>\<open>sent k n\<close>: not ready \<open>k\<close> times, then \<open>n\<close> bytes.\<close>

definition sent :: "nat \<Rightarrow> nat \<Rightarrow> ((int \<times> int) list \<times> int) list" where
  "sent k n = replicate k not_ready @ [([(int n, 0)], 0)]"

lemma sent_runs:
  assumes "oper_at S op = Some (Rw kind s hdl b fl ad)" "buf_at xs l b d (bufs S)" "length xs \<le> MAX_IOVEC_NUM"
    "d + n \<le> l * length xs" "0 < n"
  shows "\<exists>S'. run_tries (sent k n) op S = Some S' \<and> oper_at S' = oper_at S \<and> strs S' = strs S
     \<and> calls_made S' = calls_made S \<and> buf_at xs l b (d + n) (bufs S') \<and> ec_of (core S') op = 0 \<and> bytes_mem S' op = n"
proof -
  obtain S1 where w: "run_tries (sent k n) op S = run_tries [([(int n, 0)], 0)] op S1" and m: "same_mem S S1"
    using run_tries_wait [OF assms(1-3), of "[([(int n, 0)], 0)]" k] assms(4,5) by (auto simp: sent_def)
  have o1: "oper_at S1 op = Some (Rw kind s hdl b fl ad)" and b1: "buf_at xs l b d (bufs S1)"
    using assms(1,2) m by (simp_all add: same_mem_def)
  obtain vecs h where "op_do_work [(int n, 0)] 0 b (bufs S1) = Some (WDone True 0 n vecs h)" "buf_at xs l b (d + n) h"
    using work_moves [OF b1 assms(3-5)] by blast
  then show ?thesis using w m run_work_rw [OF o1] by (auto simp: same_mem_def)
qed

text \<open>A result of 0 or less that is not to be tried again.\<close>

lemma none_runs:
  assumes "oper_at S op = Some (Rw kind s hdl b fl ad)" "buf_at xs l b d (bufs S)" "length xs \<le> MAX_IOVEC_NUM"
    "d < l * length xs" "sock_call script err = Some (r, e)" "r \<le> 0" "e \<noteq> EAGAIN"
  shows "\<exists>S'. run_tries (replicate k not_ready @ [(script, err)]) op S = Some S' \<and> same_mem S S'
     \<and> ec_of (core S') op = e \<and> bytes_mem S' op = 0"
proof -
  obtain S1 where w: "run_tries (replicate k not_ready @ [(script, err)]) op S = run_tries [(script, err)] op S1"
      and m: "same_mem S S1"
    using run_tries_wait [OF assms(1-4), of "[(script, err)]" k] by auto
  have o1: "oper_at S1 op = Some (Rw kind s hdl b fl ad)" and b1: "buf_at xs l b d (bufs S1)"
    using assms(1,2) m by (simp_all add: same_mem_def)
  obtain vecs where "op_do_work script err b (bufs S1) = Some (WDone True e 0 vecs (bufs S1))"
    using work_none [OF b1 assms(3-6)] assms(7) by auto
  then show ?thesis using w m run_work_rw [OF o1] by (auto simp: same_mem_def)
qed

section \<open>Rounds\<close>

definition who :: "stream_client \<Rightarrow> nat \<Rightarrow> nat" where
  "who c kind = (if kind = op_write then c_on_write c else c_on_read c)"

text \<open>
  The client with its one operation at \<open>op\<close>, a read or a write, and the chain \<open>xs\<close> transferred
  up to byte \<open>d\<close>.
\<close>

definition client_at :: "stream_client \<Rightarrow> nat list \<Rightarrow> nat \<Rightarrow> nat \<Rightarrow> nat \<Rightarrow> nat \<Rightarrow> 's ssys \<Rightarrow> bool" where
  "client_at c xs l kind d op S \<longleftrightarrow> buf_at xs l (hd (c_buf c)) d (bufs S) \<and> length xs \<le> MAX_IOVEC_NUM
     \<and> d < l * length xs \<and> (kind = op_read \<or> kind = op_write) \<and> c_on_write c \<noteq> c_on_read c
     \<and> (\<exists>s fl. oper_at S op = Some (Rw kind s (Member (c_sock c)) (hd (c_buf c)) fl None))
     \<and> (\<exists>x. strs S (c_sock c) = Some x \<and> wh x = Some (c_on_write c) \<and> rh x = Some (c_on_read c))"

lemma async_simps:
  "\<exists>s fl. oper_at (client_async_write io_s v c S)
     = (oper_at S)(a_op v \<mapsto> Rw op_write s (Member (c_sock c)) (hd (c_buf c)) fl None)"
  "\<exists>s fl. oper_at (client_async_read io_s v c S)
     = (oper_at S)(a_op v \<mapsto> Rw op_read s (Member (c_sock c)) (hd (c_buf c)) fl None)"
  "strs (client_async_write io_s v c S) = strs S" "strs (client_async_read io_s v c S) = strs S"
  "calls_made (client_async_write io_s v c S) = calls_made S" "calls_made (client_async_read io_s v c S) = calls_made S"
  "bufs (client_async_write io_s v c S) = bufs S" "bufs (client_async_read io_s v c S) = bufs S"
  by (auto simp: client_async_write_def client_async_read_def stream_async_write_def stream_async_read_def
      so_async_write_def so_async_read_def upd_core_def new_op_def)

lemma handler_restarts:
  assumes "buf_at xs l (hd (c_buf c)) d (bufs S)" and "c_on_write c \<noteq> c_on_read c"
    and "kind = op_read \<or> kind = op_write" and "\<not> (e \<noteq> 0 \<and> n = 0)"
  shows "\<exists>S' s fl. client_handler io_s v c (Called_Rw (who c kind) e n) S = Some S'
     \<and> oper_at S' = (oper_at S)(a_op v \<mapsto> Rw kind s (Member (c_sock c)) (hd (c_buf c)) fl None)
     \<and> strs S' = strs S \<and> calls_made S' = calls_made S
     \<and> buf_at xs l (hd (c_buf c)) (d mod (l * length xs)) (bufs S')
     \<and> (d < l * length xs \<longrightarrow> bufs S' = bufs S)"
proof -
  let ?b = "hd (c_buf c)" and ?T = "l * length xs"
  have t: "cb_get_total ?b (bufs S) = ?T" "cb_get_trans ?b (bufs S) = d" "d \<le> ?T"
    using assms(1) buf_at_total [OF assms(1)] by (simp_all add: buf_at_def)
  obtain h where h: "cb_set_bytes ?b 0 (bufs S) = Some h" "buf_at xs l ?b 0 h" using buf_at_restart [OF assms(1)] by blast
  let ?start = "\<lambda>S. if kind = op_write then client_async_write io_s v c S else client_async_read io_s v c S"
  have run: "client_handler io_s v c (Called_Rw (who c kind) e n) S
      = Some (if d < ?T then ?start S else ?start (S\<lparr>bufs := h\<rparr>))"
    using assms(2-4) h(1) t by (auto simp: client_handler_def who_def on_write_data_def on_read_data_def Let_def)
  have st: "\<exists>s fl. oper_at (?start S0) = (oper_at S0)(a_op v \<mapsto> Rw kind s (Member (c_sock c)) ?b fl None)"
    "strs (?start S0) = strs S0 \<and> calls_made (?start S0) = calls_made S0 \<and> bufs (?start S0) = bufs S0" for S0
    using assms(3) async_simps [of io_s v c S0] by auto
  show ?thesis
  proof (cases "d < ?T")
    case True
    then show ?thesis using run st [of S] assms(1) by auto
  next
    case False
    then have "d = ?T" using t by simp
    then show ?thesis using run st [of "S\<lparr>bufs := h\<rparr>"] h(2) by auto
  qed
qed

text \<open>A round from the attempts' outcome; the operation is freed and the next one made.\<close>

lemma round_result:
  assumes "client_at c xs l kind d op S" and "run_tries tries op S = Some S1"
    and "oper_at S1 = oper_at S" "strs S1 = strs S" "calls_made S1 = calls_made S"
    and "buf_at xs l (hd (c_buf c)) d1 (bufs S1)" and "ec_of (core S1) op = e" "bytes_mem S1 op = n"
    and "\<not> (e \<noteq> 0 \<and> to_i32 (int n) = 0)"
  shows "\<exists>S' s fl. attempt_round io_s v c tries op S = Some S' \<and> client_at c xs l kind (d1 mod (l * length xs)) (a_op v) S'
     \<and> calls_made S' = calls_made S @ [Called_Rw (who c kind) e (to_i32 (int n))]
     \<and> oper_at S' = (oper_at S)(op := None, a_op v \<mapsto> Rw kind s (Member (c_sock c)) (hd (c_buf c)) fl None)
     \<and> (d1 < l * length xs \<longrightarrow> bufs S' = bufs S1)"
proof -
  let ?b = "hd (c_buf c)" and ?T = "l * length xs"
  from assms(1) obtain s fl x where o0: "oper_at S op = Some (Rw kind s (Member (c_sock c)) ?b fl None)"
    and x: "strs S (c_sock c) = Some x" "wh x = Some (c_on_write c)" "rh x = Some (c_on_read c)"
    and k: "kind = op_read \<or> kind = op_write" "c_on_write c \<noteq> c_on_read c" and le: "length xs \<le> MAX_IOVEC_NUM" "d < ?T"
    by (auto simp: client_at_def)
  let ?c = "Called_Rw (who c kind) e (to_i32 (int n))"
  define S2 where "S2 = S1\<lparr>oper_at := (oper_at S)(op := None), calls_made := calls_made S @ [?c]\<rparr>"
  have "op_do_complete op S1 = Inr S2"
    using complete_member [of S1 op kind s "c_sock c" ?b fl None x "who c kind"] assms(3-8) o0 x
    by (simp add: S2_def who_def)
  then have r: "attempt_round io_s v c tries op S = client_handler io_s v c ?c S2"
    using assms(2) by (simp add: attempt_round_def S2_def)
  have "buf_at xs l ?b d1 (bufs S2)" using assms(6) by (simp add: S2_def)
  from handler_restarts [OF this k(2,1) assms(9), of io_s v] obtain S' s' fl' where
    h: "client_handler io_s v c ?c S2 = Some S'"
      "oper_at S' = (oper_at S2)(a_op v \<mapsto> Rw kind s' (Member (c_sock c)) ?b fl' None)"
      "strs S' = strs S2" "calls_made S' = calls_made S2" "buf_at xs l ?b (d1 mod ?T) (bufs S')"
      "d1 < ?T \<longrightarrow> bufs S' = bufs S2" by blast
  have "d1 mod ?T < ?T" by (rule mod_less_divisor) (use le(2) in linarith)
  then have "client_at c xs l kind (d1 mod ?T) (a_op v) S'"
    using h k le x assms(4) by (auto simp: client_at_def S2_def)
  then show ?thesis using r h by (intro exI [of _ S'] exI [of _ s'] exI [of _ fl']) (simp add: S2_def)
qed

lemma round_moves:
  assumes "client_at c xs l kind d op S" and "0 < n" "d + n \<le> l * length xs"
  shows "\<exists>S' s fl. attempt_round io_s v c (sent k n) op S = Some S'
     \<and> client_at c xs l kind ((d + n) mod (l * length xs)) (a_op v) S'
     \<and> calls_made S' = calls_made S @ [Called_Rw (who c kind) 0 (to_i32 (int n))]
     \<and> oper_at S' = (oper_at S)(op := None, a_op v \<mapsto> Rw kind s (Member (c_sock c)) (hd (c_buf c)) fl None)"
proof -
  from assms(1) obtain s fl where o: "oper_at S op = Some (Rw kind s (Member (c_sock c)) (hd (c_buf c)) fl None)"
    and b: "buf_at xs l (hd (c_buf c)) d (bufs S)" "length xs \<le> MAX_IOVEC_NUM" by (auto simp: client_at_def)
  from sent_runs [OF o b assms(3,2), of k] obtain S1 where s1: "run_tries (sent k n) op S = Some S1"
      "oper_at S1 = oper_at S" "strs S1 = strs S" "calls_made S1 = calls_made S"
      "buf_at xs l (hd (c_buf c)) (d + n) (bufs S1)" "ec_of (core S1) op = 0" "bytes_mem S1 op = n" by blast
  have "\<not> ((0::int) \<noteq> 0 \<and> to_i32 (int n) = 0)" by simp
  from round_result [OF assms(1) s1 this, of io_s v] show ?thesis by blast
qed

text \<open>The system moves some bytes, never more than the chain has left.\<close>

fun rounds_fit :: "nat \<Rightarrow> nat \<Rightarrow> nat list \<Rightarrow> bool" where
  "rounds_fit T d [] = True"
| "rounds_fit T d (n # ns) = (0 < n \<and> d + n \<le> T \<and> rounds_fit T ((d + n) mod T) ns)"

text \<open>
  Any number of rounds, each of which finds the system not ready some times and then moves some
  bytes. No round fails; the position in the chain is the sum of all bytes modulo its length,
  and each message shows its share of it; the handler is called once per round with no error and
  the bytes moved; and the client's only operation is the last one started.
\<close>

lemma client_runs:
  assumes "client_at c xs l kind d op S" and "rounds_fit (l * length xs) d (map (\<lambda>(k, n, v). n) rounds)"
  shows "\<exists>op' S'. client_run io_s c (map (\<lambda>(k, n, v). (sent k n, v)) rounds) op S = Some (op', S')
    \<and> client_at c xs l kind ((d + sum_list (map (\<lambda>(k, n, v). n) rounds)) mod (l * length xs)) op' S'
    \<and> calls_made S' = calls_made S @ map (\<lambda>(k, n, v). Called_Rw (who c kind) 0 (to_i32 (int n))) rounds
    \<and> (\<forall>p. p \<noteq> op' \<longrightarrow> oper_at S' p = (if p = op \<or> p \<in> a_op ` set (map (\<lambda>(k, n, v). v) rounds) then None else oper_at S p))"
  using assms
proof (induction rounds arbitrary: d op S)
  case Nil
  then show ?case by (auto simp: client_at_def)
next
  case (Cons r rounds)
  obtain k n v where r: "r = (k, n, v)" by (cases r)
  let ?T = "l * length xs"
  obtain S1 s fl where s1: "attempt_round io_s v c (sent k n) op S = Some S1"
    and at: "client_at c xs l kind ((d + n) mod ?T) (a_op v) S1"
    and ca: "calls_made S1 = calls_made S @ [Called_Rw (who c kind) 0 (to_i32 (int n))]"
    and oa: "oper_at S1 = (oper_at S)(op := None, a_op v \<mapsto> Rw kind s (Member (c_sock c)) (hd (c_buf c)) fl None)"
    using round_moves [OF Cons.prems(1), of n io_s v k] Cons.prems(2) r by auto
  from Cons.IH [OF at] Cons.prems(2) r obtain op' S' where
    i: "client_run io_s c (map (\<lambda>(k, n, v). (sent k n, v)) rounds) (a_op v) S1 = Some (op', S')"
    "client_at c xs l kind (((d + n) mod ?T + sum_list (map (\<lambda>(k, n, v). n) rounds)) mod ?T) op' S'"
    "calls_made S' = calls_made S1 @ map (\<lambda>(k, n, v). Called_Rw (who c kind) 0 (to_i32 (int n))) rounds"
    "\<forall>p. p \<noteq> op' \<longrightarrow> oper_at S' p
        = (if p = a_op v \<or> p \<in> a_op ` set (map (\<lambda>(k, n, v). v) rounds) then None else oper_at S1 p)"
    by auto
  show ?case
    using s1 i ca oa by (intro exI [of _ op'] exI [of _ S']) (simp add: r mod_add_left_eq add.assoc)
qed

section \<open>The end of the stream and errors\<close>

text \<open>
  At the end of the stream \<open>recvmsg\<close> answers 0 and sets no errno. Neither the operation nor the
  handler takes that for an end: the handler is called with no error and no bytes and starts the
  next read, and so on for any number of rounds, with the chain unchanged.
\<close>

lemma eof_round:
  assumes "client_at c xs l op_read d op S"
  shows "\<exists>S'. attempt_round io_s v c [([(0, 0)], 0)] op S = Some S' \<and> client_at c xs l op_read d (a_op v) S'
     \<and> calls_made S' = calls_made S @ [Called_Rw (c_on_read c) 0 0] \<and> bufs S' = bufs S"
proof -
  from assms obtain s fl where o: "oper_at S op = Some (Rw op_read s (Member (c_sock c)) (hd (c_buf c)) fl None)"
    and b: "buf_at xs l (hd (c_buf c)) d (bufs S)" "length xs \<le> MAX_IOVEC_NUM" "d < l * length xs"
    by (auto simp: client_at_def)
  from none_runs [OF o b, of "[(0, 0)]" 0 0 0 0] obtain S1 where s1: "run_tries [([(0, 0)], 0)] op S = Some S1"
    "same_mem S S1" "ec_of (core S1) op = 0" "bytes_mem S1 op = 0" by auto
  have m: "oper_at S1 = oper_at S" "strs S1 = strs S" "calls_made S1 = calls_made S"
    and b1: "buf_at xs l (hd (c_buf c)) d (bufs S1)" using s1(2) b(1) by (simp_all add: same_mem_def)
  have "\<not> ((0::int) \<noteq> 0 \<and> to_i32 (int 0) = 0)" by simp
  from round_result [OF assms s1(1) m b1 s1(3,4) this, of io_s v] show ?thesis
    using b(3) s1(2) by (auto simp: who_def same_mem_def to_i32_def)
qed

text \<open>An error other than \<open>EAGAIN\<close> ends the transfer: the handler is told, and starts nothing.\<close>

lemma error_stops:
  assumes "client_at c xs l kind d op S" and "e \<noteq> 0" "e \<noteq> EAGAIN" "e \<noteq> EINTR"
  shows "\<exists>S'. attempt_round io_s v c (replicate k not_ready @ [([(- 1, e)], 0)]) op S = Some S'
     \<and> oper_at S' = (oper_at S)(op := None) \<and> bufs S' = bufs S
     \<and> calls_made S' = calls_made S @ [Called_Rw (who c kind) e 0]"
proof -
  from assms(1) obtain s fl x where o: "oper_at S op = Some (Rw kind s (Member (c_sock c)) (hd (c_buf c)) fl None)"
    and b: "buf_at xs l (hd (c_buf c)) d (bufs S)" "length xs \<le> MAX_IOVEC_NUM" "d < l * length xs"
    and x: "strs S (c_sock c) = Some x" "wh x = Some (c_on_write c)" "rh x = Some (c_on_read c)"
    and k: "c_on_write c \<noteq> c_on_read c" by (auto simp: client_at_def)
  from none_runs [OF o b, of "[(- 1, e)]" 0 "- 1" e k] assms(2-4) obtain S1 where
    s1: "run_tries (replicate k not_ready @ [([(- 1, e)], 0)]) op S = Some S1"
    "same_mem S S1" "ec_of (core S1) op = e" "bytes_mem S1 op = 0" by auto
  have z: "to_i32 0 = 0" by (simp add: to_i32_def)
  show ?thesis
    using s1 complete_member [of S1 op kind s "c_sock c" "hd (c_buf c)" fl None x "who c kind"] o x k assms(2)
    by (auto simp: attempt_round_def same_mem_def client_handler_def who_def on_write_data_def on_read_data_def Let_def z)
qed

section \<open>Construction\<close>

lemma append_keeps: "cb_append this buf h = Some (r, h') \<Longrightarrow> bytes_trans (h' x) = bytes_trans (h x)"
  by (auto simp: cb_append_def Let_def set_heads_spec upd_cb_def split: if_splits)

text \<open>A chain of messages of 10 MB of which nothing is transferred.\<close>

definition fresh_bufs :: "nat list \<Rightarrow> cheap \<Rightarrow> bool" where
  "fresh_bufs xs h \<longleftrightarrow> cb_inv h xs \<and> (\<forall>x \<in> set xs. cb_len (h x) = BUF_LEN \<and> consumed (h x) = 0)
     \<and> bytes_trans (h (hd xs)) = 0 \<and> cb_cur (h (hd xs)) = Some (hd xs)"

lemma fresh_bufs_total: "fresh_bufs xs h \<Longrightarrow> bytes_total (h (hd xs)) = BUF_LEN * length xs"
  using sum_list_const [of xs "\<lambda>x. cb_len (h x)" BUF_LEN] by (simp add: fresh_bufs_def cb_inv_def)

lemma fresh_bufs_one: "fresh_bufs [p] (cb_construct p msg BUF_LEN h)"
  using cb_inv_construct [of BUF_LEN p msg h] by (simp add: fresh_bufs_def cb_construct_def)

lemma fresh_bufs_append:
  assumes "fresh_bufs xs h" "p \<notin> set xs" "length xs < MAX_CBUFF_SIZ"
  shows "\<exists>h'. cb_append (last xs) p (cb_construct p msg BUF_LEN h) = Some (True, h') \<and> fresh_bufs (xs @ [p]) h'"
proof -
  let ?h = "cb_construct p msg BUF_LEN h"
  have ne: "xs \<noteq> []" using assms(1) by (simp add: fresh_bufs_def cb_inv_def)
  have old: "?h x = h x" if "x \<in> set xs" for x using that assms(2) by (auto simp: cb_construct_def)
  have hd: "?h (hd xs) = h (hd xs)" using old ne by simp
  have i: "cb_inv ?h xs"
    by (rule cb_inv_cong [of h xs]) (use assms(1) old hd in \<open>simp_all add: fresh_bufs_def\<close>)
  have p: "cb_inv ?h [p]" by (rule cb_inv_construct) simp
  have "bytes_total (?h (hd xs)) + bytes_total (?h (hd [p])) < 2 ^ 63" "length xs + length [p] < 2 ^ 63"
    using fresh_bufs_total [OF assms(1)] assms(3) hd by (simp_all add: cb_construct_def)
  moreover have "set xs \<inter> set [p] = {}" "bytes_trans (?h (hd [p])) = 0" using assms(2) by (simp_all add: cb_construct_def)
  ultimately obtain h' where h': "cb_append (last xs) p ?h = Some (True, h')"
    "cb_inv h' (xs @ [p])" "\<forall>x. cb_len (h' x) = cb_len (?h x) \<and> cb_msg (h' x) = cb_msg (?h x) \<and> consumed (h' x) = consumed (?h x)"
    "cb_get_cur (last xs) h' = cb_cur (?h (hd xs))"
    using append_joins [OF i p] unfolding list.sel by blast
  have "cb_head (h' (last xs)) = hd xs" using h'(2) ne by (simp add: cb_inv_def)
  then have "cb_cur (h' (hd xs)) = Some (hd xs)" using h'(4) hd assms(1) by (simp add: cb_get_cur_def fresh_bufs_def)
  moreover have "bytes_trans (h' (hd xs)) = 0" using append_keeps [OF h'(1)] hd assms(1) by (simp add: fresh_bufs_def)
  moreover have "\<forall>x \<in> set (xs @ [p]). cb_len (h' x) = BUF_LEN \<and> consumed (h' x) = 0"
    using h'(3) old assms(1) by (auto simp: fresh_bufs_def cb_construct_def)
  ultimately show ?thesis using h' ne by (auto simp: fresh_bufs_def)
qed

lemma build_bufs_rest:
  assumes "fresh_bufs xs h" "distinct (xs @ map fst qs)" "length xs + length qs \<le> MAX_CBUFF_SIZ"
  shows "\<exists>h'. build_bufs (Some (last xs)) qs h = Some h' \<and> fresh_bufs (xs @ map fst qs) h'"
  using assms
proof (induction qs arbitrary: xs h)
  case (Cons q qs)
  obtain p msg where q: "q = (p, msg)" by fastforce
  obtain h1 where h1: "cb_append (last xs) p (cb_construct p msg BUF_LEN h) = Some (True, h1)" "fresh_bufs (xs @ [p]) h1"
    using fresh_bufs_append [OF Cons.prems(1), of p msg] Cons.prems(2,3) q by auto
  from Cons.IH [OF h1(2)] Cons.prems(2,3) q show ?case using h1(1) by auto
qed simp

lemma build_bufs_chain:
  assumes "distinct ps" "ps \<noteq> []" "length ps \<le> MAX_CBUFF_SIZ" "length msgs = length ps"
  shows "\<exists>h'. build_bufs None (zip ps msgs) h = Some h' \<and> fresh_bufs ps h'"
proof -
  obtain p ps' msg msgs' where e: "ps = p # ps'" "msgs = msg # msgs'" using assms(2,4) by (cases ps; cases msgs) auto
  have "map fst (zip ps' msgs') = ps'" using assms(4) e by simp
  then show ?thesis
    using build_bufs_rest [OF fresh_bufs_one [of p msg h], of "zip ps' msgs'"] assms e by simp
qed

lemma fresh_bufs_at: "fresh_bufs xs h \<Longrightarrow> buf_at xs BUF_LEN (hd xs) 0 h"
  by (auto simp: fresh_bufs_def buf_at_def cb_inv_def cb_get_trans_def cb_get_cur_def hd_conv_nth)

lemma stream_open_handlers: "wh (fst (stream_open fresh r err x s)) = wh x" "rh (fst (stream_open fresh r err x s)) = rh x"
  by (simp_all add: stream_open_def split_beta)

text \<open>The constructor and the first operation give the client of the rounds, at position 0.\<close>

lemma client_starts:
  assumes "distinct (c_buf c)" "length (c_buf c) = MAX_CBUFF_SIZ" "length msgs = MAX_CBUFF_SIZ"
    and "c_on_write c \<noteq> c_on_read c"
  shows "\<exists>S1. client_new junk junk_port fresh socket_r err c msgs S = Some S1 \<and> calls_made S1 = calls_made S
    \<and> client_at c (c_buf c) BUF_LEN op_read 0 (a_op v) (client_async_read io_s v c S1)
    \<and> client_at c (c_buf c) BUF_LEN op_write 0 (a_op v) (client_async_write io_s v c S1)
    \<and> calls_made (client_async_read io_s v c S1) = calls_made S \<and> calls_made (client_async_write io_s v c S1) = calls_made S"
proof -
  have ne: "c_buf c \<noteq> []" using assms(2) by auto
  obtain h where h: "build_bufs None (zip (c_buf c) msgs) (bufs S) = Some h" "fresh_bufs (c_buf c) h"
    using build_bufs_chain [OF assms(1) ne, of msgs "bufs S"] assms(2,3) by auto
  define S1 where "S1 = the (client_new junk junk_port fresh socket_r err c msgs S)"
  have n: "client_new junk junk_port fresh socket_r err c msgs S = Some S1" "bufs S1 = h" "calls_made S1 = calls_made S"
    and x: "\<exists>x. strs S1 (c_sock c) = Some x \<and> wh x = Some (c_on_write c) \<and> rh x = Some (c_on_read c)"
    using h by (simp_all add: S1_def client_new_def split_beta Let_def set_read_handler_def set_write_handler_def stream_open_handlers)
  have at: "client_at c (c_buf c) BUF_LEN kind 0 op S2"
    if "kind = op_read \<or> kind = op_write" "bufs S2 = bufs S1" "strs S2 = strs S1"
      "\<exists>s fl. oper_at S2 op = Some (Rw kind s (Member (c_sock c)) (hd (c_buf c)) fl None)" for kind op S2
    using that fresh_bufs_at [OF h(2)] x n(2) assms(2,4) by (simp add: client_at_def)
  show ?thesis
    using n at [of op_read "client_async_read io_s v c S1"] at [of op_write "client_async_write io_s v c S1"]
      async_simps [of io_s v c S1]
    by (intro exI [of _ S1]) fastforce
qed

text \<open>
  A reader at the end of the stream reads for ever: each of any number \<open>N\<close> of further rounds
  calls the handler with no error and no bytes, and starts the next read of the same chain.
\<close>

theorem end_of_stream_spins:
  assumes "client_at c xs l op_read d op S"
  shows "\<exists>op' S'. client_run io_s c (replicate N ([([(0, 0)], 0)], v)) op S = Some (op', S')
     \<and> client_at c xs l op_read d op' S' \<and> calls_made S' = calls_made S @ replicate N (Called_Rw (c_on_read c) 0 0)
     \<and> bufs S' = bufs S"
  using assms
proof (induction N arbitrary: op S)
  case (Suc N)
  from eof_round [OF Suc.prems, of io_s v] obtain S1 where s1: "attempt_round io_s v c [([(0, 0)], 0)] op S = Some S1"
    "client_at c xs l op_read d (a_op v) S1" "calls_made S1 = calls_made S @ [Called_Rw (c_on_read c) 0 0]" "bufs S1 = bufs S"
    by blast
  from Suc.IH [OF s1(2)] show ?case using s1 by (auto simp: replicate_append_same)
qed simp

section \<open>Property\<close>

text \<open>
  C19. The client from its constructor on, reading or writing: the constructor builds the chain of
  16 messages; then in any number of rounds, each not ready some times and then moving some
  bytes, no round fails, the handler is called once per round with no error and the bytes moved,
  and the position in the chain is the sum of all bytes modulo the 160 MB, with each message
  showing its share. At the end the client has one operation in memory, the last one started.
\<close>

theorem client_position:
  assumes "distinct (c_buf c)" "length (c_buf c) = MAX_CBUFF_SIZ" "length msgs = MAX_CBUFF_SIZ" "c_on_write c \<noteq> c_on_read c"
    and "rounds_fit (BUF_LEN * MAX_CBUFF_SIZ) 0 (map (\<lambda>(k, n, v). n) rounds)"
    and "pos = sum_list (map (\<lambda>(k, n, v). n) rounds) mod (BUF_LEN * MAX_CBUFF_SIZ)"
    and "start = (if writes then client_async_write else client_async_read)"
  shows "\<exists>S1 op' S'. client_new junk junk_port fresh socket_r err c msgs S = Some S1
    \<and> client_run io_s c (map (\<lambda>(k, n, v). (sent k n, v)) rounds) (a_op v0) (start io_s v0 c S1) = Some (op', S')
    \<and> cb_get_trans (hd (c_buf c)) (bufs S') = pos
    \<and> (\<forall>i < MAX_CBUFF_SIZ. consumed (bufs S' (c_buf c ! i)) = min BUF_LEN (pos - i * BUF_LEN))
    \<and> calls_made S' = calls_made S
        @ map (\<lambda>(k, n, v). Called_Rw (if writes then c_on_write c else c_on_read c) 0 (to_i32 (int n))) rounds
    \<and> oper_at S' op' \<noteq> None
    \<and> (\<forall>p \<in> insert (a_op v0) (a_op ` set (map (\<lambda>(k, n, v). v) rounds)). p \<noteq> op' \<longrightarrow> oper_at S' p = None)"
proof -
  let ?kind = "if writes then op_write else op_read"
  from client_starts [OF assms(1-4), of junk junk_port fresh socket_r err S v0 io_s] obtain S1 where
    n: "client_new junk junk_port fresh socket_r err c msgs S = Some S1"
    and at: "client_at c (c_buf c) BUF_LEN ?kind 0 (a_op v0) (start io_s v0 c S1)"
    and ca: "calls_made (start io_s v0 c S1) = calls_made S"
    using assms(7) by (cases writes) auto
  from client_runs [OF at, of rounds io_s] assms(2,5) obtain op' S' where
    r: "client_run io_s c (map (\<lambda>(k, n, v). (sent k n, v)) rounds) (a_op v0) (start io_s v0 c S1) = Some (op', S')"
    and at': "client_at c (c_buf c) BUF_LEN ?kind pos op' S'"
    and c': "calls_made S' = calls_made S @ map (\<lambda>(k, n, v). Called_Rw (who c ?kind) 0 (to_i32 (int n))) rounds"
    and o': "\<forall>p. p \<noteq> op' \<longrightarrow> oper_at S' p
      = (if p = a_op v0 \<or> p \<in> a_op ` set (map (\<lambda>(k, n, v). v) rounds) then None else oper_at (start io_s v0 c S1) p)"
    using assms(6) ca by auto
  have w: "who c ?kind = (if writes then c_on_write c else c_on_read c)" by (simp add: who_def)
  have b: "cb_get_trans (hd (c_buf c)) (bufs S') = pos"
    "\<forall>i < MAX_CBUFF_SIZ. consumed (bufs S' (c_buf c ! i)) = min BUF_LEN (pos - i * BUF_LEN)"
    and live: "oper_at S' op' \<noteq> None"
    using at' unfolding client_at_def buf_at_def assms(2) by blast+
  have gone: "\<forall>p \<in> insert (a_op v0) (a_op ` set (map (\<lambda>(k, n, v). v) rounds)). p \<noteq> op' \<longrightarrow> oper_at S' p = None"
    using o' by (simp del: set_map)
  show ?thesis
    using n r b c' [unfolded w] live gone by (intro exI conjI) assumption+
qed

abbreviation answers0 :: answers where
  "answers0 \<equiv> \<lparr>a_work = \<lambda>_. False, a_getfl = 0, a_setfl = \<lambda>_. 0, a_err = 0, a_op = 30\<rparr>"

abbreviation client0 :: stream_client where
  "client0 \<equiv> \<lparr>c_sock = 9, c_buf = [1..<17], c_on_write = 3, c_on_read = 4\<rparr>"

theorem client_position_witness:
  "\<exists>S1 op' S'. client_new None 0 2 6 0 client0 [101..<117] (ssys1 20 (chain_of [])) = Some S1
     \<and> client_run (tio_ops []) client0 [(sent 1 6, answers0), (sent 0 167772154, answers0), (sent 2 10, answers0)] 30
          (client_async_read (tio_ops []) answers0 client0 S1) = Some (op', S')
     \<and> cb_get_trans 1 (bufs S') = 10
     \<and> calls_made S' = [Called_Rw 4 0 6, Called_Rw 4 0 167772154, Called_Rw 4 0 10]"
proof -
  let ?rounds = "[(1, 6, answers0), (0, 167772154, answers0), (2, 10, answers0)]"
  have "distinct (c_buf client0)" "length (c_buf client0) = MAX_CBUFF_SIZ" "length [101..<117] = MAX_CBUFF_SIZ"
    "c_on_write client0 \<noteq> c_on_read client0"
    "rounds_fit (BUF_LEN * MAX_CBUFF_SIZ) 0 (map (\<lambda>(k, n, v). n) ?rounds)"
    "10 = sum_list (map (\<lambda>(k, n, v). n) ?rounds) mod (BUF_LEN * MAX_CBUFF_SIZ)"
    "client_async_read = (if False then client_async_write else client_async_read)"
    by simp_all
  from client_position [OF this, of None 0 2 6 0 "ssys1 20 (chain_of [])" "tio_ops []" answers0]
  show ?thesis by (auto simp: ssys1_def to_i32_def upt_rec)
qed

end
