(* ===== verification/Backup_Epoll.thy ===== *)
theory Backup_Epoll
  imports Epoll_Props
begin

unbundle bit_operations_syntax

text \<open>
  \<open>deviceagent/important_backup/epoll.hpp\<close>: the first version of the reactor, without the pool and
  without the return of cancelled operations. What is undefined in the code is a fault here:
  \<open>front\<close> or \<open>pop_front\<close> of an empty deque, and an index outside of \<open>op_que_\<close>. The service is
  the same interface \<open>io_ops\<close> as for the later version.
\<close>

section \<open>State\<close>

datatype bfault = Front_Of_Empty | Pop_Of_Empty | Bad_Index

record bset =
  b_descriptor :: int
  b_events :: "32 word"
  b_que :: "nat \<Rightarrow> nat list"
  b_shutdown :: bool
  b_destroy :: bool
  b_result :: "32 word"

text \<open>The constructor sets nothing but the queues: \<open>junk\<close> is what the memory held.\<close>

definition new_bset :: "bset \<Rightarrow> bset" where
  "new_bset junk = junk\<lparr>b_que := \<lambda>_. []\<rparr>"

record 's bep =
  b_kern :: "int \<Rightarrow> (32 word \<times> nat) option"
  b_kerr :: "int \<Rightarrow> int"
  b_sets :: "nat \<Rightarrow> bset"
  b_io :: 's

definition b_ctl :: "ctl \<Rightarrow> int \<Rightarrow> 32 word \<Rightarrow> nat \<Rightarrow> 's bep \<Rightarrow> int \<times> 's bep" where
  "b_ctl c fd ev p s =
     (if b_kerr s fd \<noteq> 0 then (b_kerr s fd, s)
      else case c of
          CtlAdd \<Rightarrow> if b_kern s fd \<noteq> None then (17, s) else (0, s\<lparr>b_kern := (b_kern s)(fd \<mapsto> (ev, p))\<rparr>)
        | CtlMod \<Rightarrow> if b_kern s fd = None then (2, s) else (0, s\<lparr>b_kern := (b_kern s)(fd \<mapsto> (ev, p))\<rparr>)
        | CtlDel \<Rightarrow> if b_kern s fd = None then (2, s) else (0, s\<lparr>b_kern := (b_kern s)(fd := None)\<rparr>))"

definition b_upd :: "nat \<Rightarrow> (bset \<Rightarrow> bset) \<Rightarrow> 's bep \<Rightarrow> 's bep" where
  "b_upd x f s = s\<lparr>b_sets := (b_sets s)(x := f (b_sets s x))\<rparr>"

section \<open>Operations of a set\<close>

text \<open>
  The loop over one queue: \<open>w n op\<close> is what the \<open>n\<close>-th call of \<open>do_work\<close> answers for \<open>op\<close>. The
  loop looks at the front of queue \<open>j\<close>, but what it takes off is the front of queue 0.
\<close>

function b_work_loop ::
  "(nat \<Rightarrow> nat \<Rightarrow> bool) \<Rightarrow> nat \<Rightarrow> nat \<Rightarrow> (nat \<Rightarrow> nat list) \<Rightarrow> nat list \<Rightarrow> bfault + (nat \<times> (nat \<Rightarrow> nat list) \<times> nat list)" where
  "b_work_loop w j n q clean =
     (case q j of
        [] \<Rightarrow> Inl Front_Of_Empty
      | op # _ \<Rightarrow>
          if w n op then
            (case q 0 of
               [] \<Rightarrow> Inl Pop_Of_Empty
             | _ # r \<Rightarrow> b_work_loop w j (Suc n) (q(0 := r)) (clean @ [op]))
          else Inr (Suc n, q, clean))"
  by pat_completeness auto

termination by (relation "measure (\<lambda>(w, j, n, q, clean). length (q 0))") auto

declare b_work_loop.simps [simp del]

fun b_work_queues ::
  "(nat \<Rightarrow> nat \<Rightarrow> bool) \<Rightarrow> nat list \<Rightarrow> 32 word \<Rightarrow> nat \<Rightarrow> (nat \<Rightarrow> nat list) \<Rightarrow> nat list
     \<Rightarrow> bfault + (nat \<times> (nat \<Rightarrow> nat list) \<times> nat list)" where
  "b_work_queues w [] events n q clean = Inr (n, q, clean)"
| "b_work_queues w (j # js) events n q clean =
     (if (flag j OR EPOLLERR OR EPOLLHUP) AND events \<noteq> 0 then
        (case b_work_loop w j n q clean of
           Inl f \<Rightarrow> Inl f
         | Inr (n1, q1, clean1) \<Rightarrow> b_work_queues w js events n1 q1 clean1)
      else b_work_queues w js events n q clean)"

text \<open>
  \<open>op_set::do_work\<close>: the operation returned, the queues, and the other finished operations, which
  are in the local \<open>clean_ops\<close> that goes out of scope.
\<close>

definition b_do_work ::
  "(nat \<Rightarrow> nat \<Rightarrow> bool) \<Rightarrow> 32 word \<Rightarrow> (nat \<Rightarrow> nat list) \<Rightarrow> bfault + (nat \<times> (nat \<Rightarrow> nat list) \<times> nat list)" where
  "b_do_work w events q =
     (case b_work_queues w (rev [0..<op_max]) events 0 q [] of
        Inl f \<Rightarrow> Inl f
      | Inr (n, q1, []) \<Rightarrow> Inl Front_Of_Empty
      | Inr (n, q1, op # lost) \<Rightarrow> Inr (op, q1, lost))"

text \<open>\<open>do_complete_poll\<close>: the operation whose \<open>do_complete\<close> is called. The bytes are the events.\<close>

definition b_do_complete_poll ::
  "(nat \<Rightarrow> nat \<Rightarrow> bool) \<Rightarrow> nat \<Rightarrow> nat \<Rightarrow> 's bep \<Rightarrow> bfault + (nat \<times> 's bep)" where
  "b_do_complete_poll w bytes x s =
     (case b_do_work w (of_nat bytes) (b_que (b_sets s x)) of
        Inl f \<Rightarrow> Inl f
      | Inr (op, q, lost) \<Rightarrow> Inr (op, b_upd x (\<lambda>u. u\<lparr>b_que := q\<rparr>) s))"

definition b_set_ready_event :: "32 word \<Rightarrow> bset \<Rightarrow> bset" where
  "b_set_ready_event events u = u\<lparr>b_result := events\<rparr>"

section \<open>The reactor\<close>

definition b_register :: "int \<Rightarrow> nat \<Rightarrow> 's bep \<Rightarrow> int \<times> 's bep" where
  "b_register fd x s =
     (let ev = EPOLLIN OR EPOLLERR OR EPOLLHUP OR EPOLLOUT OR EPOLLPRI OR EPOLLET;
          s1 = b_upd x (\<lambda>u. u\<lparr>b_descriptor := fd, b_shutdown := False, b_events := ev\<rparr>) s
      in b_ctl CtlAdd fd ev x s1)"

text \<open>The operations copied to the local \<open>ops\<close> go out of scope with it; the queues keep theirs.\<close>

definition b_deregister :: "int \<Rightarrow> nat \<Rightarrow> 's bep \<Rightarrow> 's bep" where
  "b_deregister fd x s =
     (if \<not> b_shutdown (b_sets s x) then
        b_upd x (\<lambda>u. u\<lparr>b_descriptor := - 1, b_shutdown := True, b_destroy := True\<rparr>) (snd (b_ctl CtlDel fd 0 x s))
      else s)"

text \<open>\<open>run\<close>: the timeout in milliseconds, and the sets of the events that \<open>epoll_wait\<close> reports.\<close>

definition b_timeout :: "bool \<Rightarrow> int" where
  "b_timeout block = (if block then - 1 else 2)"

fun b_run :: "(nat option \<times> 32 word) list \<Rightarrow> 's bep \<Rightarrow> nat list \<Rightarrow> nat list \<times> 's bep" where
  "b_run [] s ops = (ops, s)"
| "b_run ((p, ev) # evs) s ops =
     (case p of
        None \<Rightarrow> b_run evs s ops
      | Some x \<Rightarrow> b_run evs (b_upd x (b_set_ready_event ev) s) (ops @ [x]))"

text \<open>
  \<open>start\<close>; \<open>w\<close> is the answer of \<open>do_work\<close>. The test \<open>op < 0\<close> of a pointer never holds, and a
  negative \<open>state\<close> is not refused.
\<close>

definition b_enqueue :: "'s io_ops \<Rightarrow> nat \<Rightarrow> nat \<Rightarrow> nat \<Rightarrow> 's bep \<Rightarrow> 's bep" where
  "b_enqueue io_s j x op s =
     (let s1 = b_upd x (\<lambda>u. u\<lparr>b_que := (b_que u)(j := b_que u j @ [op])\<rparr>) s
      in s1\<lparr>b_io := io_work_started io_s (b_io s1)\<rparr>)"

definition b_post :: "'s io_ops \<Rightarrow> nat \<Rightarrow> 's bep \<Rightarrow> 's bep" where
  "b_post io_s op s = s\<lparr>b_io := io_post_immediate io_s op (b_io s)\<rparr>"

definition b_start ::
  "'s io_ops \<Rightarrow> bool \<Rightarrow> int \<Rightarrow> int \<Rightarrow> nat \<Rightarrow> nat \<Rightarrow> 's bep \<Rightarrow> bfault + (int \<times> 's bep)" where
  "b_start io_s w state fd x op s =
     (let st = b_sets s x; j = nat state in
      if b_destroy st then Inr (- 1, s)
      else if state \<ge> int op_max then Inr (- 1, s)
      else if b_shutdown st then Inr (0, b_post io_s op s)
      else if state < 0 then Inl Bad_Index
      else if b_que st j = [] then
        if j \<noteq> op_read \<or> b_que st op_except = [] then
          if w then Inr (0, b_post io_s op s)
          else if j = op_write \<and> b_events st AND EPOLLOUT = 0 then
            (let (r, s1) = b_ctl CtlMod fd (b_events st OR EPOLLOUT) x s in
             if r = 0 then Inr (0, b_enqueue io_s j x op (b_upd x (\<lambda>u. u\<lparr>b_events := b_events u OR EPOLLOUT\<rparr>) s1))
             else Inr (- 1, b_post io_s op s1))
          else Inr (0, b_enqueue io_s j x op s)
        else
          let s1 = (if j = op_write then
                      let s0 = b_upd x (\<lambda>u. u\<lparr>b_events := b_events u OR EPOLLOUT\<rparr>) s
                      in snd (b_ctl CtlMod fd (b_events (b_sets s0 x) OR EPOLLOUT) x s0)
                    else s)
          in Inr (0, b_enqueue io_s j x op s1)
      else Inr (0, b_enqueue io_s j x op s))"

section \<open>Working off the queues\<close>

text \<open>
  What the loop does when it ends without a fault: it asked the front of queue \<open>j\<close> until it was
  not ready; each operation found ready took one off queue 0.
\<close>

lemma b_work_loop_ends:
  "b_work_loop w j n q clean = Inr (n', q', clean') \<Longrightarrow>
     \<exists>d. clean' = clean @ d \<and> n' = Suc (n + length d) \<and> length d \<le> length (q 0) \<and> q' = q(0 := drop (length d) (q 0))
       \<and> q' j \<noteq> [] \<and> \<not> w (n + length d) (hd (q' j)) \<and> (j \<noteq> 0 \<longrightarrow> set d \<subseteq> {hd (q j)})
       \<and> (j = 0 \<longrightarrow> d = take (length d) (q 0))"
proof (induction w j n q clean rule: b_work_loop.induct)
  case (1 w j n q clean)
  obtain op r where q: "q j = op # r" using 1(2) by (subst (asm) b_work_loop.simps) (auto split: list.splits)
  show ?case
  proof (cases "w n op")
    case False
    then show ?thesis using 1(2) q by (subst (asm) b_work_loop.simps) (auto split: list.splits)
  next
    case True
    then obtain p r0 where q0: "q 0 = p # r0"
      using 1(2) q by (subst (asm) b_work_loop.simps) (auto split: list.splits)
    have "b_work_loop w j (Suc n) (q(0 := r0)) (clean @ [op]) = Inr (n', q', clean')"
      using 1(2) q q0 True by (subst (asm) b_work_loop.simps) simp
    from 1(1) [OF q True q0 this] obtain d where d': "clean' = (clean @ [op]) @ d" "n' = Suc (Suc n + length d)"
      "length d \<le> length ((q(0 := r0)) 0)" "q' = (q(0 := r0))(0 := drop (length d) ((q(0 := r0)) 0))" "q' j \<noteq> []"
      "\<not> w (Suc n + length d) (hd (q' j))" "j \<noteq> 0 \<longrightarrow> set d \<subseteq> {hd ((q(0 := r0)) j)}"
      "j = 0 \<longrightarrow> d = take (length d) ((q(0 := r0)) 0)"
      by blast
    have d: "length d \<le> length r0" "q' = q(0 := drop (length d) r0)" "j \<noteq> 0 \<longrightarrow> set d \<subseteq> {hd (q j)}"
      "j = 0 \<longrightarrow> d = take (length d) r0"
      using d'(3,4,7,8) by (simp_all add: fun_upd_upd)
    have "clean' = clean @ (op # d)"  using d'(1) by simp
    then show ?thesis using d d'(2,5,6) q q0 by (intro exI [of _ "op # d"]) auto
  qed
qed

lemma b_work_queues_ends:
  assumes "b_work_queues w js events n q clean = Inr (n', q', clean')" and "distinct js"
  shows "\<exists>d. clean' = clean @ d \<and> length d \<le> length (q 0) \<and> q' = q(0 := drop (length d) (q 0))
     \<and> (\<forall>j \<in> set js. (flag j OR EPOLLERR OR EPOLLHUP) AND events \<noteq> 0 \<longrightarrow> q j \<noteq> [])"
  using assms
proof (induction js arbitrary: n q clean)
  case (Cons j js)
  show ?case
  proof (cases "(flag j OR EPOLLERR OR EPOLLHUP) AND events \<noteq> 0")
    case True
    then obtain n1 q1 c1 where l: "b_work_loop w j n q clean = Inr (n1, q1, c1)"
      and r: "b_work_queues w js events n1 q1 c1 = Inr (n', q', clean')"
      using Cons.prems(1) by (auto split: sum.splits)
    from b_work_loop_ends [OF l] obtain d where d: "c1 = clean @ d" "length d \<le> length (q 0)"
      "q1 = q(0 := drop (length d) (q 0))" "q1 j \<noteq> []" by blast
    have "distinct js" using Cons.prems(2) by simp
    from Cons.IH [OF r this] obtain e where e: "clean' = c1 @ e" "length e \<le> length (q1 0)"
      "q' = q1(0 := drop (length e) (q1 0))"
      "\<forall>j \<in> set js. (flag j OR EPOLLERR OR EPOLLHUP) AND events \<noteq> 0 \<longrightarrow> q1 j \<noteq> []" by blast
    have ne: "q i \<noteq> []" if "q1 i \<noteq> []" for i using that d(3) by (auto split: if_splits)
    show ?thesis
      using d e ne by (intro exI [of _ "d @ e"]) (auto simp: add.commute)
  next
    case False
    then have "b_work_queues w js events n q clean = Inr (n', q', clean')" using Cons.prems(1) by simp
    from Cons.IH [OF this] Cons.prems(2) show ?thesis using False by auto
  qed
qed auto

text \<open>
  When \<open>do_work\<close> returns, as many operations as were found ready have left queue 0, whatever queue
  they were in: a finished write is still queued, and the reads in front of queue 0 are gone
  without having been tried. Of the finished ones all but the first are lost.
\<close>

theorem backup_work_pops_reads:
  assumes "b_do_work w events q = Inr (op, q', lost)"
  shows "q' = q(0 := drop (Suc (length lost)) (q 0)) \<and> Suc (length lost) \<le> length (q 0)
     \<and> (\<forall>j < op_max. (flag j OR EPOLLERR OR EPOLLHUP) AND events \<noteq> 0 \<longrightarrow> q j \<noteq> [])"
proof -
  obtain n where "b_work_queues w (rev [0..<op_max]) events 0 q [] = Inr (n, q', op # lost)"
    using assms by (auto simp: b_do_work_def split: sum.splits list.splits)
  from b_work_queues_ends [OF this] show ?thesis by auto
qed

text \<open>So an error or hang-up is survived only when all four kinds of operations are pending.\<close>

lemma flagged: "(b :: 32 word) AND e \<noteq> 0 \<Longrightarrow> (a OR b OR c) AND e \<noteq> 0"
  by (auto simp: bit.conj_disj_distrib2 or_eq_0_iff)

lemma backup_error_faults:
  assumes "EPOLLERR AND events \<noteq> 0" and "j < op_max" "q j = []"
  shows "\<exists>f. b_do_work w events q = Inl f"
proof (cases "b_do_work w events q")
  case (Inr t)
  obtain op q' lost where t: "t = (op, q', lost)" by (cases t)
  have "(flag j OR EPOLLERR OR EPOLLHUP) AND events \<noteq> 0" by (rule flagged [OF assms(1)])
  then show ?thesis using backup_work_pops_reads [OF Inr [unfolded t]] assms(2,3) by blast
qed blast

text \<open>Input alone: every outcome. It is a fault unless some reads are ready and a later one is not.\<close>

lemma b_work_loop_reads:
  "b_work_loop (\<lambda>_. rd) 0 n q clean =
     (if dropWhile rd (q 0) = [] then Inl Front_Of_Empty
      else Inr (Suc (n + length (takeWhile rd (q 0))), q(0 := dropWhile rd (q 0)), clean @ takeWhile rd (q 0)))"
proof (induction "q 0" arbitrary: n q clean)
  case Nil
  then show ?case by (subst b_work_loop.simps) simp
next
  case (Cons op r)
  have "q 0 = op # r" using Cons(2) by simp
  then show ?case using Cons(1) [of "q(0 := r)" "Suc n" "clean @ [op]"] by (subst b_work_loop.simps) auto
qed

theorem backup_input_outcome:
  "b_do_work (\<lambda>_. rd) EPOLLIN q =
     (case takeWhile rd (q 0) of
        [] \<Rightarrow> Inl Front_Of_Empty
      | op # lost \<Rightarrow> if dropWhile rd (q 0) = [] then Inl Front_Of_Empty else Inr (op, q(0 := dropWhile rd (q 0)), lost))"
proof -
  have n: "rev [0..<op_max] = [3, 2, 1, 0]" by (simp add: upt_rec)
  have z: "flag 3 = 0" "flag 2 = 2" "flag (Suc 0) = 4" "flag 0 = 1"
    by (simp_all add: flag_def numeral_2_eq_2 numeral_3_eq_3)
  show ?thesis by (simp add: b_do_work_def n z b_work_loop_reads split: list.splits)
qed

section \<open>Starting and deregistering\<close>

lemma b_simps [simp]:
  "b_io (b_upd x f s) = b_io s" "b_sets (b_upd x f s) = (b_sets s)(x := f (b_sets s x))"
  "b_sets (b_post io_s op s) = b_sets s" "b_io (b_post io_s op s) = io_post_immediate io_s op (b_io s)"
  "b_io (b_enqueue io_s j x op s) = io_work_started io_s (b_io s)"
  "b_sets (snd (b_ctl c fd ev p s)) = b_sets s" "b_io (snd (b_ctl c fd ev p s)) = b_io s"
  by (auto simp: b_upd_def b_post_def b_enqueue_def b_ctl_def Let_def split: ctl.split)

definition b_pend :: "bset \<Rightarrow> nat multiset" where
  "b_pend u = mset (b_que u 0 @ b_que u 1 @ b_que u 2 @ b_que u 3)"

lemma b_pend_cong: "b_que u = b_que v \<Longrightarrow> b_pend u = b_pend v"
  by (simp add: b_pend_def)

lemma b_pend_enqueue: "j < op_max \<Longrightarrow> b_pend (b_sets (b_enqueue io_s j x op s) x) = add_mset op (b_pend (b_sets s x))"
  by (auto simp: b_enqueue_def b_pend_def less_Suc_eq numeral_eq_Suc)

text \<open>The two ways in which \<open>start\<close> keeps an operation.\<close>

definition b_kept :: "'s io_ops \<Rightarrow> nat \<Rightarrow> nat \<Rightarrow> nat \<Rightarrow> 's bep \<Rightarrow> 's bep \<Rightarrow> bool" where
  "b_kept io_s j x op s s' \<longleftrightarrow> (\<exists>s1. b_que (b_sets s1 x) = b_que (b_sets s x) \<and> b_io s1 = b_io s
     \<and> (s' = b_post io_s op s1 \<or> s' = b_enqueue io_s j x op s1))"

lemma b_keptI:
  "b_que (b_sets s1 x) = b_que (b_sets s x) \<Longrightarrow> b_io s1 = b_io s \<Longrightarrow> b_kept io_s j x op s (b_post io_s op s1)"
  "b_que (b_sets s1 x) = b_que (b_sets s x) \<Longrightarrow> b_io s1 = b_io s \<Longrightarrow> b_kept io_s j x op s (b_enqueue io_s j x op s1)"
  by (auto simp: b_kept_def)

lemma b_start_keeps:
  assumes "b_start io_s w state fd x op s = Inr (r, s')" "\<not> b_destroy (b_sets s x)" "state < int op_max"
  shows "b_kept io_s (nat state) x op s s'"
proof -
  obtain j where j: "j = nat state" by simp
  show ?thesis
    using assms unfolding b_start_def Let_def split_beta j [symmetric]
    by (auto split: if_splits intro!: b_keptI)
qed

text \<open>
  The operation is kept exactly once unless it is refused, whatever the result says: with the
  result -1 it is refused by a destroyed set or an unknown state, but posted when the kernel
  refuses to watch for output.
\<close>

context io_service
begin

lemma b_start_ledger:
  assumes "b_start io_s w state fd x op s = Inr (r, s')"
  defines "refused \<equiv> b_destroy (b_sets s x) \<or> state \<ge> int op_max"
  shows "refused \<Longrightarrow> r = - 1 \<and> s' = s"
    and "\<not> refused \<Longrightarrow> b_pend (b_sets s' x) + held (b_io s') = add_mset op (b_pend (b_sets s x) + held (b_io s))
           \<and> balance (b_io s') = balance (b_io s) + 1"
proof -
  show "refused \<Longrightarrow> r = - 1 \<and> s' = s" using assms(1) unfolding b_start_def Let_def refused_def by (auto split: if_splits)
  assume nr: "\<not> refused"
  then have k: "\<not> b_destroy (b_sets s x)" "state < int op_max" by (simp_all add: refused_def)
  then have j: "nat state < op_max" by linarith
  from b_start_keeps [OF assms(1) k] show "b_pend (b_sets s' x) + held (b_io s') = add_mset op (b_pend (b_sets s x) + held (b_io s))
     \<and> balance (b_io s') = balance (b_io s) + 1"
    unfolding b_kept_def
    by (auto simp: b_pend_enqueue [OF j] held_immediate balance_immediate held_started balance_started dest!: b_pend_cong)
qed

text \<open>
  Deregistering gives nothing back: all pending operations stay in the queues of a set on which
  nothing is started any more, and the service holds none of them.
\<close>

lemma b_deregister_strands:
  assumes "\<not> b_shutdown (b_sets s x)" and "s' = b_deregister fd x s"
  shows "b_pend (b_sets s' x) = b_pend (b_sets s x) \<and> held (b_io s') = held (b_io s) \<and> balance (b_io s') = balance (b_io s)
     \<and> b_start io_s w state fd' x op s' = Inr (- 1, s')"
  using assms by (simp add: b_deregister_def b_start_def b_pend_def)

end

text \<open>
  Over \<open>task_io_service\<close>. A set that was registered but never deregistered is refused or not
  depending on what its memory held.
\<close>

theorem backup_start_conserves:
  assumes "b_start (tio_ops cs) w state fd x op s = Inr (r, s')"
    and "\<not> b_destroy (b_sets s x)" "state < int op_max"
  shows "b_pend (b_sets s' x) + tio_held cs (b_io s') = add_mset op (b_pend (b_sets s x) + tio_held cs (b_io s))
     \<and> tio_balance cs (b_io s') = tio_balance cs (b_io s) + 1"
  using tio.b_start_ledger(2) [OF assms(1)] assms(2,3) by simp

theorem backup_unset_destroy:
  "b_sets s x = new_bset junk \<Longrightarrow> b_destroy junk \<Longrightarrow>
     b_start io_s w state fd' x op (snd (b_register fd x s)) = Inr (- 1, snd (b_register fd x s))"
  by (simp add: b_register_def b_start_def new_bset_def Let_def)

end
