(* ===== verification/Simple_Sock.thy ===== *)
theory Simple_Sock
  imports Epoll_Props
begin

text \<open>
  \<open>deviceagent/2deviceagent/io/test/proactor/simple_sock.cc\<close>: a client that sends one large buffer
  through the reactor, one operation after the other. \<open>send\<close> is answered from a list; an
  operation and the buffer are records at their addresses. That the whole buffer is handed to
  the system, in order and each byte once, is proved for every list of answers.
\<close>

section \<open>The operation\<close>

record sbuf =
  sb_len :: nat
  sb_trans :: nat
  sb_state :: int

record send_op =
  so_sock :: int
  so_buf :: nat

text \<open>
  \<open>s_sent\<close> records what the system took of the buffer, as offset and number of bytes, and
  \<open>s_calls\<close> the arguments of the handler.
\<close>

record 's send_sys =
  s_core :: "'s epl"
  s_ops :: "nat \<Rightarrow> send_op option"
  s_bufs :: "nat \<Rightarrow> sbuf"
  s_sent :: "(nat \<times> nat) list"
  s_calls :: "(int \<times> nat) list"

text \<open>\<open>do_work\<close> with the answer \<open>r\<close> of \<open>send\<close>: any error, whatever its errno, asks to be tried again.\<close>

definition send_do_work :: "int \<Rightarrow> send_op \<Rightarrow> 's send_sys \<Rightarrow> bool \<times> 's send_sys" where
  "send_do_work r op S =
     (let b = s_bufs S (so_buf op); b1 = b\<lparr>sb_state := r\<rparr> in
      if r < 0 then (False, S\<lparr>s_bufs := (s_bufs S)(so_buf op := b1)\<rparr>)
      else (True, S\<lparr>s_bufs := (s_bufs S)(so_buf op := b1\<lparr>sb_trans := (sb_trans b + nat r) mod 2 ^ 64\<rparr>),
                    s_sent := s_sent S @ [(sb_trans b, nat r)]\<rparr>))"

text \<open>
  \<open>do_callback\<close>: the operation is deleted, then the handler's arguments are read through its
  member \<open>buf_\<close>; the value is taken to be still there. No call when it is destroyed.
\<close>

definition send_do_callback :: "bool \<Rightarrow> nat \<Rightarrow> 's send_sys \<Rightarrow> ((int \<times> nat) option \<times> 's send_sys) option" where
  "send_do_callback destroy p S =
     (case s_ops S p of
        None \<Rightarrow> None
      | Some op \<Rightarrow>
          let S1 = S\<lparr>s_ops := (s_ops S)(p := None)\<rparr>; b = s_bufs S (so_buf op) in
          Some (if \<not> destroy then (Some (sb_state b, sb_trans b), S1\<lparr>s_calls := s_calls S1 @ [(sb_state b, sb_trans b)]\<rparr>)
                else (None, S1)))"

section \<open>The socket\<close>

record ssock =
  ss_fd :: int
  ss_set :: "nat option"

text \<open>The constructor; \<open>None\<close> is an assertion that fails.\<close>

definition ssock_new :: "nat \<Rightarrow> int \<Rightarrow> int \<Rightarrow> 's epl \<Rightarrow> (ssock \<times> 's epl) option" where
  "ssock_new fresh socket_r connect_r s =
     (if connect_r \<noteq> 0 then None
      else let (result, x, s1) = register_descriptor fresh socket_r s in
        if result \<noteq> 0 then None else Some (\<lparr>ss_fd = socket_r, ss_set = Some x\<rparr>, s1))"

definition ssock_async_write :: "'s io_ops \<Rightarrow> (nat \<Rightarrow> bool) \<Rightarrow> nat \<Rightarrow> nat \<Rightarrow> ssock \<Rightarrow> 's send_sys \<Rightarrow> 's send_sys" where
  "ssock_async_write io_s w p buf k S =
     (if ss_fd k < 0 then S
      else S\<lparr>s_ops := (s_ops S)(p \<mapsto> \<lparr>so_sock = ss_fd k, so_buf = buf\<rparr>),
             s_core := start_op io_s w op_write (ss_fd k) (ss_set k) p True (s_core S)\<rparr>)"

definition ssock_delete :: "'s io_ops \<Rightarrow> ssock \<Rightarrow> 's epl \<Rightarrow> 's epl" where
  "ssock_delete io_s k s =
     (if ss_fd k > 0 then
        let (_, s1) = deregister_descriptor io_s (ss_fd k) (ss_set k) True s
        in s1\<lparr>kern := (kern s1)(ss_fd k := None)\<rparr>
      else s)"

section \<open>The client\<close>

record sclient =
  tsock :: "ssock option"
  sc_buf :: nat

datatype 's handled = No_Socket "'s send_sys" | Next "'s send_sys" | Exit_Program "'s send_sys"

definition write_handle ::
  "'s io_ops \<Rightarrow> (nat \<Rightarrow> bool) \<Rightarrow> nat \<Rightarrow> sclient \<Rightarrow> int \<Rightarrow> nat \<Rightarrow> 's send_sys \<Rightarrow> 's handled" where
  "write_handle io_s w p c ec bytes S =
     (case tsock c of
        None \<Rightarrow> No_Socket S
      | Some k \<Rightarrow>
          if bytes < sb_len (s_bufs S (sc_buf c)) then Next (ssock_async_write io_s w p (sc_buf c) k S)
          else Exit_Program S)"

definition send_consume :: "'s io_ops \<Rightarrow> (nat \<Rightarrow> bool) \<Rightarrow> nat \<Rightarrow> sclient \<Rightarrow> 's send_sys \<Rightarrow> 's send_sys" where
  "send_consume io_s w p c S = (case tsock c of None \<Rightarrow> S | Some k \<Rightarrow> ssock_async_write io_s w p (sc_buf c) k S)"

text \<open>
  The constructor and the destructor, without the service, which all clients share and each
  destructor deletes.
\<close>

definition sclient_new :: "nat \<Rightarrow> int \<Rightarrow> int \<Rightarrow> nat \<Rightarrow> 's epl \<Rightarrow> (sclient \<times> 's epl) option" where
  "sclient_new fresh socket_r connect_r buf s =
     map_option (\<lambda>(k, s1). (\<lparr>tsock = Some k, sc_buf = buf\<rparr>, s1)) (ssock_new fresh socket_r connect_r s)"

definition sclient_delete :: "'s io_ops \<Rightarrow> sclient \<Rightarrow> 's epl \<Rightarrow> 's epl" where
  "sclient_delete io_s c s = (case tsock c of None \<Rightarrow> s | Some k \<Rightarrow> ssock_delete io_s k s)"

text \<open>The buffer of \<open>main\<close>.\<close>

definition main_buf :: sbuf where
  "main_buf = \<lparr>sb_len = 256 * 1024 * 1024, sb_trans = 0, sb_state = 0\<rparr>"

text \<open>
  The calls of \<open>do_work\<close> in order, each with the answer of \<open>send\<close> and the next operation if
  the handler makes one; \<open>None\<close> is a freed operation.
\<close>

datatype 's send_progress = Waiting nat "'s send_sys" | Ended "'s send_sys"

fun send_run :: "'s io_ops \<Rightarrow> sclient \<Rightarrow> (int \<times> (nat \<Rightarrow> bool) \<times> nat) list \<Rightarrow> nat \<Rightarrow> 's send_sys \<Rightarrow> 's send_progress option" where
  "send_run io_s c [] p S = Some (Waiting p S)"
| "send_run io_s c ((r, w, p') # rs) p S =
     (case s_ops S p of
        None \<Rightarrow> None
      | Some op \<Rightarrow>
          (case send_do_work r op S of
             (False, S1) \<Rightarrow> send_run io_s c rs p S1
           | (True, S1) \<Rightarrow>
               (case send_do_callback False p S1 of
                  Some (Some (ec, bytes), S2) \<Rightarrow>
                    (case write_handle io_s w p' c ec bytes S2 of
                       No_Socket S3 \<Rightarrow> None
                     | Next S3 \<Rightarrow> send_run io_s c rs p' S3
                     | Exit_Program S3 \<Rightarrow> Some (Ended S3))
                | _ \<Rightarrow> None)))"

section \<open>The buffer is sent in order\<close>

text \<open>\<open>send\<close> never takes more than it is offered.\<close>

fun answers_fit :: "nat \<Rightarrow> nat \<Rightarrow> int list \<Rightarrow> bool" where
  "answers_fit len t [] = True"
| "answers_fit len t (r # rs) = (r \<le> int (len - t) \<and> answers_fit len (t + nat r) rs)"

definition taken :: "'a list \<Rightarrow> (nat \<times> nat) list \<Rightarrow> 'a list" where
  "taken msg xs = concat (map (\<lambda>(o', n). take n (drop o' msg)) xs)"

text \<open>The state between calls: what was taken is the part of the message before \<open>bytes_trans\<close>.\<close>

definition send_inv :: "'a list \<Rightarrow> sclient \<Rightarrow> 's send_sys \<Rightarrow> bool" where
  "send_inv msg c S \<longleftrightarrow> sb_len (s_bufs S (sc_buf c)) = length msg \<and> length msg < 2 ^ 64
     \<and> sb_trans (s_bufs S (sc_buf c)) \<le> length msg \<and> taken msg (s_sent S) = take (sb_trans (s_bufs S (sc_buf c))) msg
     \<and> (\<forall>(ec, bytes) \<in> set (s_calls S). 0 \<le> ec)"

definition send_waits :: "'a list \<Rightarrow> sclient \<Rightarrow> nat \<Rightarrow> 's send_sys \<Rightarrow> bool" where
  "send_waits msg c p S \<longleftrightarrow> send_inv msg c S \<and> sb_trans (s_bufs S (sc_buf c)) < length msg
     \<and> (\<exists>fd. s_ops S p = Some \<lparr>so_sock = fd, so_buf = sc_buf c\<rparr>)"

lemma async_write_simps [simp]:
  "s_bufs (ssock_async_write io_s w p buf k S) = s_bufs S" "s_sent (ssock_async_write io_s w p buf k S) = s_sent S"
  "s_calls (ssock_async_write io_s w p buf k S) = s_calls S"
  "\<not> ss_fd k < 0 \<Longrightarrow> s_ops (ssock_async_write io_s w p buf k S) = (s_ops S)(p \<mapsto> \<lparr>so_sock = ss_fd k, so_buf = buf\<rparr>)"
  by (simp_all add: ssock_async_write_def)

theorem sent_in_order:
  assumes "send_waits msg c p S" and "tsock c = Some k" "\<not> ss_fd k < 0"
    and "answers_fit (length msg) (sb_trans (s_bufs S (sc_buf c))) (map fst rs)"
  shows "case send_run io_s c rs p S of
      Some (Waiting p' S') \<Rightarrow> send_waits msg c p' S'
        \<and> length (taken msg (s_sent S')) = sb_trans (s_bufs S (sc_buf c)) + nat (sum_list (map (\<lambda>(r, _). max 0 r) rs))
    | Some (Ended S') \<Rightarrow> send_inv msg c S' \<and> taken msg (s_sent S') = msg
    | None \<Rightarrow> False"
  using assms(1,4)
proof (induction rs arbitrary: p S)
  case Nil
  then show ?case by (auto simp: send_waits_def send_inv_def)
next
  case (Cons a rs)
  obtain r w p' where a: "a = (r, w, p')" by (cases a)
  let ?b = "s_bufs S (sc_buf c)"
  obtain fd where o: "s_ops S p = Some \<lparr>so_sock = fd, so_buf = sc_buf c\<rparr>" and i: "send_inv msg c S"
    and lt: "sb_trans ?b < length msg" using Cons.prems(1) by (auto simp: send_waits_def)
  have nn: "0 \<le> sum_list (map (\<lambda>(r, _). max 0 r) rs)" by (rule sum_list_nonneg) auto
  show ?case
  proof (cases "r < 0")
    case True
    let ?S1 = "S\<lparr>s_bufs := (s_bufs S)(sc_buf c := ?b\<lparr>sb_state := r\<rparr>)\<rparr>"
    have "send_waits msg c p ?S1" using i lt o by (simp add: send_waits_def send_inv_def)
    from Cons.IH [OF this] Cons.prems(2) a o True show ?thesis
      by (simp add: send_do_work_def Let_def max_def split: option.splits send_progress.splits)
  next
    case False
    let ?t = "sb_trans ?b + nat r"
    have t: "?t \<le> length msg" using Cons.prems(2) a False lt by (simp add: nat_le_iff) linarith
    have m: "?t mod 2 ^ 64 = ?t" using t i by (simp add: send_inv_def)
    let ?b1 = "?b\<lparr>sb_state := r, sb_trans := ?t\<rparr>"
    define S2 where "S2 = S\<lparr>s_bufs := (s_bufs S)(sc_buf c := ?b1), s_sent := s_sent S @ [(sb_trans ?b, nat r)],
      s_ops := (s_ops S)(p := None), s_calls := s_calls S @ [(r, ?t)]\<rparr>"
    have tk: "taken msg (s_sent S @ [(sb_trans ?b, nat r)]) = take ?t msg"
      using i by (simp add: taken_def send_inv_def take_add)
    have i2: "send_inv msg c S2" using i tk t False by (simp add: S2_def send_inv_def)
    have run: "send_run io_s c (a # rs) p S =
        (if ?t < length msg then send_run io_s c rs p' (ssock_async_write io_s w p' (sc_buf c) k S2) else Some (Ended S2))"
      using o i False m assms(2) unfolding S2_def
      by (simp add: a send_do_work_def send_do_callback_def write_handle_def Let_def send_inv_def)
    show ?thesis
    proof (cases "?t < length msg")
      case True
      let ?S3 = "ssock_async_write io_s w p' (sc_buf c) k S2"
      have "send_waits msg c p' ?S3"
        using i2 True assms(3) by (simp add: send_waits_def send_inv_def) (simp add: S2_def)
      note IH = Cons.IH [OF this]
      have tt: "sb_trans (s_bufs ?S3 (sc_buf c)) = ?t" by (simp add: S2_def)
      have "answers_fit (length msg) ?t (map fst rs)" using Cons.prems(2) a by simp
      note IH [unfolded tt, OF this]
      then show ?thesis
        using run True False a nn by (simp add: nat_add_distrib max_def split: option.splits send_progress.splits)
    next
      case Fl: False
      then have "?t = length msg" using t by simp
      then have "taken msg (s_sent S2) = msg" using tk by (simp add: S2_def)
      then show ?thesis using run Fl i2 by simp
    qed
  qed
qed

text \<open>
  An error of \<open>send\<close> never reaches the handler: as long as \<open>send\<close> fails, with whatever errno, the
  same operation is tried again and the handler is not called.
\<close>

lemma send_errors_retried:
  assumes "s_ops S p = Some op" and "\<forall>(r, w, p') \<in> set rs. r < 0"
  shows "\<exists>S'. send_run io_s c rs p S = Some (Waiting p S') \<and> s_ops S' = s_ops S \<and> s_calls S' = s_calls S \<and> s_sent S' = s_sent S"
  using assms
proof (induction rs arbitrary: S)
  case (Cons a rs)
  obtain r w p' where a: "a = (r, w, p')" by (cases a)
  let ?S1 = "S\<lparr>s_bufs := (s_bufs S)(so_buf op := (s_bufs S (so_buf op))\<lparr>sb_state := r\<rparr>)\<rparr>"
  show ?case using Cons.IH [of ?S1] Cons.prems a by (auto simp: send_do_work_def Let_def)
qed simp

end
