(* ===== verification/Old_Client.thy ===== *)
theory Old_Client
  imports Old_Socket_Props
begin

text \<open>
  \<open>deviceagent/deviceagent/io/object/test/client.cc\<close>: the client of the earlier stream socket, which
  fills or sends one buffer of 256 MB. Its handlers and the work of its operations are composed
  over a list of answers; what \<open>recv\<close> delivers ends up in the buffer in order, and a peer that
  closes early leaves the client reading for ever.
\<close>

section \<open>The client\<close>

abbreviation OLD_BUF_LEN :: nat where "OLD_BUF_LEN \<equiv> 1024 * 1024 * 256"

text \<open>The socket object, the buffer, the reactor below, and the handler's calls so far.\<close>

record 's oclient =
  oc_sock :: sobj
  oc_buf :: fbuf
  oc_core :: "'s epl"
  oc_calls :: "(int \<times> nat) list"

text \<open>\<open>mem\<close> is what the new memory holds, \<open>junk\<close> the unset fields of \<open>buf_\<close>.\<close>

definition oclient_new :: "byte list \<Rightarrow> fbuf \<Rightarrow> sobj \<Rightarrow> nat \<Rightarrow> int \<Rightarrow> int \<Rightarrow> 's epl \<Rightarrow> 's oclient" where
  "oclient_new mem junk k fresh socket_r errno s =
     (let (_, k1, s1) = old_do_open fresh socket_r errno k s
      in \<lparr>oc_sock = k1, oc_buf = junk\<lparr>f_msg := take OLD_BUF_LEN mem, f_len := OLD_BUF_LEN\<rparr>, oc_core = s1, oc_calls = []\<rparr>)"

definition oclient_connect :: "(int \<times> int \<times> int \<Rightarrow> int) \<Rightarrow> (string \<Rightarrow> int option) \<Rightarrow> int \<Rightarrow> int \<Rightarrow> 's oclient \<Rightarrow> int" where
  "oclient_connect connect_r aton poll_r errno C =
     old_connect (oc_sock C)
       (connect_r (2, 3966, case aton ''10.12.2.100'' of Some ip \<Rightarrow> ip | None \<Rightarrow> 0)) poll_r errno"

text \<open>What a started operation meets: \<open>do_work\<close>'s answers to the reactor, \<open>fcntl\<close>, and its address.\<close>

record oanswers =
  oa_work :: "nat \<Rightarrow> bool"
  oa_getfl :: int
  oa_setfl :: "int \<Rightarrow> int"
  oa_err :: int
  oa_op :: nat

definition oclient_async_write :: "'s io_ops \<Rightarrow> oanswers \<Rightarrow> 's oclient \<Rightarrow> 's oclient" where
  "oclient_async_write io_s v C = C\<lparr>oc_core :=
     old_async_write io_s (oa_work v) (oc_sock C) (oa_getfl v) (oa_setfl v) (oa_err v) (oa_op v) (oc_buf C) (oc_core C)\<rparr>"

definition oclient_async_read :: "'s io_ops \<Rightarrow> oanswers \<Rightarrow> 's oclient \<Rightarrow> 's oclient" where
  "oclient_async_read io_s v C = C\<lparr>oc_core :=
     old_async_read io_s (oa_work v) (oc_sock C) (oa_getfl v) (oa_setfl v) (oa_err v) (oa_op v) (oc_buf C) (oc_core C)\<rparr>"

text \<open>The handlers; the first component says whether an operation was started.\<close>

definition oclient_on_write :: "'s io_ops \<Rightarrow> oanswers \<Rightarrow> int \<Rightarrow> nat \<Rightarrow> 's oclient \<Rightarrow> bool \<times> 's oclient" where
  "oclient_on_write io_s v ec bytes C =
     (if ec < 0 then (True, oclient_async_write io_s v C)
      else if bytes = f_len (oc_buf C) then (False, C)
      else (True, oclient_async_write io_s v C))"

definition oclient_on_read :: "'s io_ops \<Rightarrow> oanswers \<Rightarrow> int \<Rightarrow> nat \<Rightarrow> 's oclient \<Rightarrow> bool \<times> 's oclient" where
  "oclient_on_read io_s v ec bytes C =
     (if bytes = f_len (oc_buf C) then (False, C) else (True, oclient_async_read io_s v C))"

text \<open>
  \<open>reset\<close> once the service has stopped: the socket is closed, opened and connected again; \<open>None\<close>
  is the assertion that fails.
\<close>

definition oclient_reset ::
  "'s io_ops \<Rightarrow> nat \<Rightarrow> int \<Rightarrow> int \<Rightarrow> (int \<times> int \<times> int \<Rightarrow> int) \<Rightarrow> (string \<Rightarrow> int option) \<Rightarrow> int \<Rightarrow> int \<Rightarrow> 's oclient \<Rightarrow> 's oclient option" where
  "oclient_reset io_s fresh socket_r errno connect_r aton poll_r errno' C =
     (let (k1, s1) = old_do_close io_s (oc_sock C) (oc_core C);
          (_, k2, s2) = old_do_open fresh socket_r errno k1 s1;
          C1 = C\<lparr>oc_sock := k2, oc_core := s2\<rparr>
      in if oclient_connect connect_r aton poll_r errno' C1 \<noteq> 0 then None
         else Some (C1\<lparr>oc_buf := (oc_buf C1)\<lparr>f_trans := 0\<rparr>\<rparr>))"

text \<open>\<open>main\<close>: after connecting and the first read, what the lines read from the terminal make it do.\<close>

datatype ocommand = Resend | Reread

fun oclient_main :: "string list \<Rightarrow> ocommand list" where
  "oclient_main [] = []"
| "oclient_main (l # ls) =
     (if l = ''s'' then Resend # oclient_main ls
      else if l = ''r'' then Reread # oclient_main ls
      else oclient_main ls)"

definition oclient_command ::
  "'s io_ops \<Rightarrow> ocommand \<Rightarrow> nat \<Rightarrow> int \<Rightarrow> int \<Rightarrow> (int \<times> int \<times> int \<Rightarrow> int) \<Rightarrow> (string \<Rightarrow> int option) \<Rightarrow> int \<Rightarrow> int
     \<Rightarrow> oanswers \<Rightarrow> 's oclient \<Rightarrow> 's oclient option" where
  "oclient_command io_s cmd fresh socket_r errno connect_r aton poll_r errno' v C =
     map_option (case cmd of Resend \<Rightarrow> oclient_async_write io_s v | Reread \<Rightarrow> oclient_async_read io_s v)
       (oclient_reset io_s fresh socket_r errno connect_r aton poll_r errno' C)"

section \<open>Reading\<close>

text \<open>
  One completed read: the script of one call of \<open>do_work\<close>, the callback and the handler.
  \<open>None\<close> is a script that ends too early or a call that is to be tried again.
\<close>

definition oclient_read_round ::
  "'s io_ops \<Rightarrow> oanswers \<Rightarrow> (int + byte list) list \<Rightarrow> 's oclient \<Rightarrow> (bool \<times> 's oclient) option" where
  "oclient_read_round io_s v script C =
     (case old_read_do_work script (oc_buf C) of
        Some (True, b) \<Rightarrow>
          (case old_do_callback b False of
             Some (ec, bytes) \<Rightarrow>
               Some (oclient_on_read io_s v ec bytes (C\<lparr>oc_buf := b, oc_calls := oc_calls C @ [(ec, bytes)]\<rparr>))
           | None \<Rightarrow> None)
      | _ \<Rightarrow> None)"

text \<open>The rounds until the handler starts no operation, with the answers left over.\<close>

fun oclient_reads ::
  "'s io_ops \<Rightarrow> ((int + byte list) list \<times> oanswers) list \<Rightarrow> 's oclient
     \<Rightarrow> (bool \<times> 's oclient \<times> ((int + byte list) list \<times> oanswers) list) option" where
  "oclient_reads io_s [] C = Some (True, C, [])"
| "oclient_reads io_s ((script, v) # rs) C =
     (case oclient_read_round io_s v script C of
        None \<Rightarrow> None
      | Some (started, C1) \<Rightarrow> if started then oclient_reads io_s rs C1 else Some (False, C1, rs))"

text \<open>A call that is interrupted \<open>k\<close> times and then delivers \<open>bs\<close>.\<close>

definition delivered_after :: "nat \<Rightarrow> byte list \<Rightarrow> (int + byte list) list" where
  "delivered_after k bs = replicate k (Inl EINTR) @ [Inr bs]"

lemma delivered_work:
  "old_read_do_work (delivered_after k bs) b = Some (True, b\<lparr>f_state := int (length bs),
     f_msg := put_bytes (f_trans b) bs (f_msg b), f_trans := f_trans b + length bs\<rparr>)"
  by (induction k arbitrary: b) (simp_all add: delivered_after_def)

text \<open>The buffer holds the bytes received so far at its front.\<close>

definition holds :: "byte list \<Rightarrow> fbuf \<Rightarrow> bool" where
  "holds got b \<longleftrightarrow> f_trans b = length got \<and> length (f_msg b) = f_len b \<and> length got \<le> f_len b
     \<and> take (length got) (f_msg b) = got"

lemma holds_put:
  assumes "holds got b" "length got + length bs \<le> f_len b"
  shows "holds (got @ bs) (b\<lparr>f_state := e, f_msg := put_bytes (f_trans b) bs (f_msg b), f_trans := f_trans b + length bs\<rparr>)"
  using assms by (auto simp: holds_def put_bytes_def)

lemma delivered_round:
  assumes "holds got (oc_buf C)" "length got + length bs \<le> f_len (oc_buf C)"
  shows "\<exists>C1. oclient_read_round io_s v (delivered_after k bs) C = Some (length got + length bs \<noteq> f_len (oc_buf C), C1)
     \<and> holds (got @ bs) (oc_buf C1) \<and> f_len (oc_buf C1) = f_len (oc_buf C)
     \<and> oc_calls C1 = oc_calls C @ [(int (length bs), length got + length bs)]"
  using assms holds_put [OF assms, of "int (length bs)"]
  by (auto simp: oclient_read_round_def delivered_work old_do_callback_def oclient_on_read_def oclient_async_read_def holds_def)

text \<open>\<open>recv\<close> stores no more than it is offered; after the last byte nothing is read.\<close>

fun chunks_fit :: "nat \<Rightarrow> byte list list \<Rightarrow> bool" where
  "chunks_fit room [] = True"
| "chunks_fit room (bs # bss) = (length bs \<le> room \<and> (room = length bs \<longrightarrow> bss = []) \<and> chunks_fit (room - length bs) bss)"

text \<open>
  Whatever pieces the stream arrives in, the buffer holds their concatenation, the handler has
  been called once for each piece, and the client goes on exactly as long as the buffer is
  not full.
\<close>

theorem old_client_collects:
  assumes "holds got (oc_buf C)" "length got < f_len (oc_buf C)"
    and "chunks_fit (f_len (oc_buf C) - length got) (map (\<lambda>(k, bs, v). bs) rs)"
  shows "\<exists>C'. oclient_reads io_s (map (\<lambda>(k, bs, v). (delivered_after k bs, v)) rs) C
       = Some (length got + length (concat (map (\<lambda>(k, bs, v). bs) rs)) < f_len (oc_buf C), C', [])
     \<and> holds (got @ concat (map (\<lambda>(k, bs, v). bs) rs)) (oc_buf C')
     \<and> length (oc_calls C') = length (oc_calls C) + length rs"
  using assms
proof (induction rs arbitrary: C got)
  case Nil
  then show ?case by auto
next
  case (Cons r rs)
  obtain k bs v where r: "r = (k, bs, v)" by (cases r)
  let ?L = "f_len (oc_buf C)"
  have "length bs \<le> ?L - length got" using Cons.prems(3) r by simp
  then have fit: "length got + length bs \<le> ?L" using Cons.prems(2) by linarith
  from delivered_round [OF Cons.prems(1) fit, of io_s v k] obtain C1 where
    c: "oclient_read_round io_s v (delivered_after k bs) C = Some (length got + length bs \<noteq> ?L, C1)"
    "holds (got @ bs) (oc_buf C1)" "f_len (oc_buf C1) = ?L"
    "oc_calls C1 = oc_calls C @ [(int (length bs), length got + length bs)]" by blast
  show ?case
  proof (cases "length got + length bs = ?L")
    case True
    then have "rs = []" using Cons.prems(2,3) r by auto
    then show ?thesis using c True r by auto
  next
    case False
    then have "length (got @ bs) < f_len (oc_buf C1)" "chunks_fit (f_len (oc_buf C1) - length (got @ bs)) (map (\<lambda>(k, bs, v). bs) rs)"
      using fit c(3) Cons.prems(3) r by simp_all
    from Cons.IH [OF c(2) this] show ?thesis using c False r by (auto simp: add.assoc)
  qed
qed

text \<open>
  A peer that closes before the buffer is full: \<open>recv\<close> answers 0, the handler takes it for
  progress, and the client reads again, any number of times, with the same arguments.
\<close>

theorem old_client_spins:
  assumes "holds got (oc_buf C)" "length got < f_len (oc_buf C)"
  shows "\<exists>C'. oclient_reads io_s (replicate N (delivered_after 0 [], v)) C = Some (True, C', [])
     \<and> holds got (oc_buf C') \<and> oc_calls C' = oc_calls C @ replicate N (0, length got)"
  using assms
proof (induction N arbitrary: C)
  case (Suc N)
  from delivered_round [OF Suc.prems(1), of "[]" io_s v 0] Suc.prems(2) obtain C1 where
    c: "oclient_read_round io_s v (delivered_after 0 []) C = Some (True, C1)" "holds got (oc_buf C1)"
    "f_len (oc_buf C1) = f_len (oc_buf C)" "oc_calls C1 = oc_calls C @ [(0, length got)]" by auto
  from Suc.IH [OF c(2)] c Suc.prems(2) show ?case by auto
qed auto

end
