(* ===== verification/Buffer_Test.thy ===== *)
theory Buffer_Test
  imports CBuffer
begin

text \<open>
  \<open>deviceagent/2deviceagent/io/object/operation/test/buffer.cc\<close>: the program that tries the chain of
  messages, as a run of the model. What it prints is what the definitions compute, and the
  comments it prints say what is expected.
\<close>

text \<open>The nodes are at 1, 2, 3, their messages at 100, 200, 300.\<close>

record buffer_run =
  loop_made :: bool
  joined :: bool
  cut :: bool
  split_parts :: "nat option \<times> nat option"
  final :: cheap

definition buffer_main :: "cheap \<Rightarrow> buffer_run option" where
  "buffer_main h0 =
     (let h1 = cb_construct 2 200 11 (cb_construct 1 100 10 h0) in
      Option.bind (cb_append 1 2 h1) (\<lambda>(_, h2).
      Option.bind (cb_append 2 1 h2) (\<lambda>(loop', h3).
      let h4 = cb_construct 3 300 12 h3 in
      Option.bind (cb_append 3 1 h4) (\<lambda>(join', h5).
      Option.bind (cb_append 3 2 h5) (\<lambda>(cut', h6).
      Option.bind (cb_add_bytes 3 20 h6) (\<lambda>h7.
      Option.bind (cb_split 3 h7) (\<lambda>(b1, b2, h8).
        Some \<lparr>loop_made = loop', joined = join', cut = cut', split_parts = (b1, b2), final = h8\<rparr>)))))))"

lemma chain_step: "chain h (Some x) = Option.bind (chain h (cb_next (h x))) (\<lambda>xs. Some (x # xs))"
  by (subst chain.simps) simp

lemma chain_end: "chain h None = Some []"
  by (subst chain.simps) simp

lemmas buffer_steps = cb_construct_def cb_append_def cb_add_bytes_def cb_set_bytes_def cb_split_def upd_cb_def
  chain_step chain_end size_t_def to_size_def Let_def

text \<open>
  The attempts to make a loop and to append a message from the middle are refused; the third
  message is put in front of the first two; of 20 bytes 12 are its own and 8 of the next, where
  the chain is split: into the first message, finished, and the other two with 13 bytes left.
\<close>

theorem buffer_test_outcome:
  "\<exists>R. buffer_main h0 = Some R \<and> \<not> loop_made R \<and> joined R \<and> \<not> cut R \<and> split_parts R = (Some 3, Some 1)
     \<and> chain (final R) (Some 3) = Some [3] \<and> cb_get_trans 3 (final R) = 12 \<and> cb_get_total 3 (final R) = 12
     \<and> chain (final R) (Some 1) = Some [1, 2] \<and> cb_get_trans 1 (final R) = 8 \<and> cb_get_total 1 (final R) = 21
     \<and> cb_get_cur 1 (final R) = Some 1 \<and> cb_get_cur 3 (final R) = None"
  by (simp add: buffer_main_def buffer_steps cb_get_trans_def cb_get_total_def cb_get_cur_def)

end
