(* ===== verification/Resolve6.thy ===== *)
theory Resolve6
  imports Prelude_C
begin

text \<open>
  \<open>resolve6.c\<close>: tells whether a host is reached over IPv6. The list of addresses and the results
  of \<open>socket\<close> and \<open>connect\<close> are arguments. Both copies of an address take the size of the whole
  socket address from and to its inner field, so they run past both objects; the model keeps
  the field's value and counts the bytes written behind the object.
\<close>

datatype family = IPv4 | IPv6

text \<open>An entry of the list: its family and address. The state of the loop: the family last chosen, the IPv4 address, the overrun.\<close>

record lookup =
  l_family :: family
  l_addr4 :: nat
  l_addr6 :: nat
  l_over :: nat

definition sizeof_in :: nat where "sizeof_in = 16"
definition offset_in :: nat where "offset_in = 4"
definition sizeof_in6 :: nat where "sizeof_in6 = 28"
definition offset_in6 :: nat where "offset_in6 = 8"

fun scan :: "(family \<times> nat) list \<Rightarrow> lookup \<Rightarrow> lookup" where
  "scan [] l = l"
| "scan ((f, a) # ris) l =
     scan ris (case f of
       IPv4 \<Rightarrow> l\<lparr>l_addr4 := a, l_family := IPv4, l_over := max (l_over l) (offset_in + sizeof_in - sizeof_in)\<rparr>
     | IPv6 \<Rightarrow> l\<lparr>l_addr6 := a, l_over := max (l_over l) (offset_in6 + sizeof_in6 - sizeof_in6)\<rparr>)"

text \<open>From \<open>try_again\<close> on: the results of \<open>socket\<close> and \<open>connect\<close>. The sockets that are never closed are listed.\<close>

datatype attempt = Returned int "int list" | Trying "int list"

fun connect_loop :: "family \<Rightarrow> nat \<Rightarrow> (int \<times> int) list \<Rightarrow> int list \<Rightarrow> attempt" where
  "connect_loop s a4 [] open' = Trying open'"
| "connect_loop s a4 ((sock, r) # rs) open' =
     (let s1 = (if s = IPv4 \<and> a4 = 0 then IPv6 else s) in
      if sock < 0 then Returned (- 1) open'
      else if r < 0 then
        (if s1 = IPv6 then Returned (- 1) open' else connect_loop IPv4 a4 rs (open' @ [sock]))
      else Returned (if s1 = IPv6 then 0 else - 1) open')"

definition resolvev6 :: "(family \<times> nat) list option \<Rightarrow> (int \<times> int) list \<Rightarrow> attempt" where
  "resolvev6 infos rs =
     (case infos of
        None \<Rightarrow> Returned (- 1) []
      | Some [] \<Rightarrow> Returned (- 1) []
      | Some ris \<Rightarrow>
          let l = scan ris \<lparr>l_family = IPv6, l_addr4 = 0, l_addr6 = 0, l_over = 0\<rparr>
          in connect_loop (l_family l) (l_addr4 l) rs [])"

section \<open>What it answers\<close>

text \<open>The IPv4 address that is tried: the last one of the list.\<close>

fun last4 :: "(family \<times> nat) list \<Rightarrow> nat option" where
  "last4 [] = None"
| "last4 ((f, a) # ris) =
     (case last4 ris of Some b \<Rightarrow> Some b | None \<Rightarrow> if f = IPv4 then Some a else None)"

lemma scan_spec:
  "l_family (scan ris l) = (if last4 ris = None then l_family l else IPv4)
   \<and> l_addr4 (scan ris l) = (case last4 ris of None \<Rightarrow> l_addr4 l | Some a \<Rightarrow> a)"
  by (induction ris l rule: scan.induct) (auto split: family.splits option.splits)

lemma connect_loop6: "connect_loop IPv6 a ((sock, r) # rs) open' = Returned (if 0 \<le> sock \<and> 0 \<le> r then 0 else - 1) open'"
  by simp

lemma connect_loop4:
  "0 < a \<Longrightarrow> connect_loop IPv4 a rs open' =
     (case dropWhile (\<lambda>(sock, r). 0 \<le> sock \<and> r < 0) rs of
        [] \<Rightarrow> Trying (open' @ map fst rs)
      | x # xs \<Rightarrow> Returned (- 1) (open' @ map fst (takeWhile (\<lambda>(sock, r). 0 \<le> sock \<and> r < 0) rs)))"
proof (induction rs arbitrary: open')
  case (Cons x rs)
  obtain sock r where "x = (sock, r)" by fastforce
  then show ?case
    using Cons.IH [OF Cons.prems] Cons.prems by (cases "0 \<le> sock \<and> r < 0") (auto split: list.split simp del: dropWhile_eq_Nil_conv)
qed simp

text \<open>
  A host with an IPv4 address is never reported as reached over IPv6, whatever its other
  addresses are: IPv4 is tried alone. When it cannot be reached the loop goes on for ever, and
  each pass leaves a socket open. Without one the answer is whether IPv6 connects.
\<close>

theorem resolve_outcome:
  assumes "ris \<noteq> []" "rs \<noteq> []"
  shows "resolvev6 (Some ris) rs =
    (case last4 ris of
       Some (Suc a) \<Rightarrow>
         (case dropWhile (\<lambda>(sock, r). 0 \<le> sock \<and> r < 0) rs of
            [] \<Rightarrow> Trying (map fst rs)
          | x # xs \<Rightarrow> Returned (- 1) (map fst (takeWhile (\<lambda>(sock, r). 0 \<le> sock \<and> r < 0) rs)))
     | _ \<Rightarrow> Returned (if 0 \<le> fst (hd rs) \<and> 0 \<le> snd (hd rs) then 0 else - 1) [])"
proof -
  obtain sock r rest where rs: "rs = (sock, r) # rest" using assms(2) by (cases rs) auto
  let ?l = "scan ris \<lparr>l_family = IPv6, l_addr4 = 0, l_addr6 = 0, l_over = 0\<rparr>"
  have run: "resolvev6 (Some ris) rs = connect_loop (l_family ?l) (l_addr4 ?l) rs []"
    using assms(1) by (cases ris) (simp_all add: resolvev6_def Let_def)
  have sp: "l_family ?l = (if last4 ris = None then IPv6 else IPv4)"
    "l_addr4 ?l = (case last4 ris of None \<Rightarrow> 0 | Some a \<Rightarrow> a)"
    using scan_spec [of ris "\<lparr>l_family = IPv6, l_addr4 = 0, l_addr6 = 0, l_over = 0\<rparr>"] by (simp_all split: option.splits)
  show ?thesis
  proof (cases "last4 ris")
    case None
    then show ?thesis using run sp by (simp add: rs)
  next
    case (Some a)
    show ?thesis
    proof (cases a)
      case 0
      then show ?thesis using run sp Some by (simp add: rs)
    next
      case (Suc n)
      then show ?thesis using run sp Some connect_loop4 [of a rs "[]"] by (simp del: dropWhile_eq_Nil_conv split: list.split)
    qed
  qed
qed

text \<open>Every lookup writes behind one of the two objects.\<close>

lemma scan_over_mono: "l_over l \<le> l_over (scan ris l)"
  by (induction ris l rule: scan.induct) (auto split: family.splits)

lemma scan_overruns: "ris \<noteq> [] \<Longrightarrow> 4 \<le> l_over (scan ris l)"
proof (cases ris)
  case (Cons fa ris')
  obtain f a where fa: "fa = (f, a)" by fastforce
  show ?thesis
  proof (cases f)
    case IPv4
    let ?l = "l\<lparr>l_addr4 := a, l_family := IPv4, l_over := max (l_over l) (offset_in + sizeof_in - sizeof_in)\<rparr>"
    have "4 \<le> l_over ?l" by (simp add: offset_in_def sizeof_in_def)
    then have "4 \<le> l_over (scan ris' ?l)" using scan_over_mono by (rule le_trans)
    then show ?thesis using Cons fa IPv4 by simp
  next
    case IPv6
    let ?l = "l\<lparr>l_addr6 := a, l_over := max (l_over l) (offset_in6 + sizeof_in6 - sizeof_in6)\<rparr>"
    have "4 \<le> l_over ?l" by (simp add: offset_in6_def sizeof_in6_def)
    then have "4 \<le> l_over (scan ris' ?l)" using scan_over_mono by (rule le_trans)
    then show ?thesis using Cons fa IPv6 by simp
  qed
qed simp

end
