(* ===== verification/Half_Async.thy ===== *)
theory Half_Async
  imports Prelude_C
begin

text \<open>
  \<open>epoll_half_async\<close>: two servers that measure how fast one connection at a time receives
  (\<open>server.c\<close>) or sends (\<open>send_server.cc\<close>), and a client with an event loop (\<open>demo.cc\<close>). Results of
  the system calls are arguments; what a server does with its resources is logged.
\<close>

section \<open>The servers\<close>


datatype server_event = Alloc | Total int int | Close int | Release

text \<open>The loop over one connection: the results until the first that is not positive, summed.\<close>

fun transfer :: "int list \<Rightarrow> int \<Rightarrow> int option" where
  "transfer [] tot = None"
| "transfer (len # rest) tot = (if len > 0 then transfer rest (tot + len) else Some tot)"

text \<open>One pass of the loop of \<open>main\<close>: the descriptor \<open>accept\<close> answers is not tested.\<close>

definition recv_pass :: "int \<Rightarrow> int list \<Rightarrow> int \<Rightarrow> server_event list option" where
  "recv_pass clientfd results cost =
     map_option (\<lambda>tot. [Alloc, Total tot cost, Close clientfd, Release]) (transfer results 0)"

definition send_server_pass :: "int \<Rightarrow> int list \<Rightarrow> int \<Rightarrow> server_event list option" where
  "send_server_pass clientfd results cost =
     map_option (\<lambda>tot. [Alloc, Total tot cost, Close clientfd, Release]) (transfer results 0)"

text \<open>\<open>main\<close> up to the loop: an exit with errno, or the listening socket.\<close>

definition server_setup :: "int \<Rightarrow> int \<Rightarrow> int \<Rightarrow> int \<Rightarrow> int + int" where
  "server_setup socket_r bind_r listen_r errno =
     (if socket_r < 0 then Inl errno
      else if bind_r \<noteq> 0 then Inl errno
      else if listen_r \<noteq> 0 then Inl errno
      else Inr socket_r)"

definition sender_setup :: "int \<Rightarrow> int \<Rightarrow> int \<Rightarrow> int \<Rightarrow> int + int" where
  "sender_setup socket_r bind_r listen_r errno = server_setup socket_r bind_r listen_r errno"

fun serve_all :: "(int \<Rightarrow> int list \<Rightarrow> int \<Rightarrow> server_event list option) \<Rightarrow> (int \<times> int list \<times> int) list \<Rightarrow> server_event list \<Rightarrow> server_event list option" where
  "serve_all pass [] log = Some log"
| "serve_all pass ((fd, results, cost) # conns) log =
     Option.bind (pass fd results cost) (\<lambda>evs. serve_all pass conns (log @ evs))"

text \<open>
  A connection whose peer ends it, or that breaks: everything before is counted, nothing after,
  and the loop ends at the first result that is not positive.
\<close>

lemma transfer_sum:
  "transfer rs t = (case dropWhile (\<lambda>r. 0 < r) rs of [] \<Rightarrow> None | _ \<Rightarrow> Some (t + sum_list (takeWhile (\<lambda>r. 0 < r) rs)))"
proof (induction rs arbitrary: t)
  case (Cons r rs)
  then show ?case by (cases "0 < r") (simp_all add: add.assoc del: dropWhile_eq_Nil_conv split: list.split)
qed simp

text \<open>
  Over any number of connections that end, no buffer and no descriptor is kept: each pass
  allocates and frees one buffer and closes what \<open>accept\<close> answered, in order. That includes -1
  for a failed \<open>accept\<close>, after which the server goes on at once.
\<close>

theorem serve_balanced:
  assumes "\<forall>(fd, results, cost) \<in> set conns. \<exists>r \<in> set results. r \<le> 0" and "pass = recv_pass \<or> pass = send_server_pass"
  shows "\<exists>log'. serve_all pass conns log = Some (log @ log')
     \<and> [fd. Close fd \<leftarrow> log'] = map fst conns
     \<and> [t. Total t c \<leftarrow> log'] = map (\<lambda>(fd, rs, c). sum_list (takeWhile (\<lambda>r. 0 < r) rs)) conns
     \<and> count_list log' Alloc = length conns \<and> count_list log' Release = length conns"
  using assms
proof (induction conns arbitrary: log)
  case (Cons x conns)
  obtain fd rs c where x: "x = (fd, rs, c)" by (cases x)
  let ?t = "sum_list (takeWhile (\<lambda>r. 0 < r) rs)" and ?p = "\<lambda>t. [Alloc, Total t c, Close fd, Release]"
  have "dropWhile (\<lambda>r. 0 < r) rs \<noteq> []" using Cons.prems(1) x by (force simp: not_less)
  then have "transfer rs 0 = Some ?t" by (simp add: transfer_sum split: list.split del: dropWhile_eq_Nil_conv)
  then have p: "pass fd rs c = Some (?p ?t)" using Cons.prems(2) by (auto simp: recv_pass_def send_server_pass_def)
  from Cons.IH [of "log @ ?p ?t"] Cons.prems obtain log' where "serve_all pass conns (log @ ?p ?t) = Some ((log @ ?p ?t) @ log')"
     "[fd. Close fd \<leftarrow> log'] = map fst conns"
     "[t. Total t c \<leftarrow> log'] = map (\<lambda>(fd, rs, c). sum_list (takeWhile (\<lambda>r. 0 < r) rs)) conns"
     "count_list log' Alloc = length conns" "count_list log' Release = length conns" by auto
  then show ?case using p x by (intro exI [of _ "?p ?t @ log'"]) simp
qed simp

section \<open>The client\<close>


text \<open>The reads that are made, and the value that \<open>main\<close> returns, if it does, with the socket closed.\<close>

datatype demo_end = Looping nat | Demo_Return int nat

definition demo_setup :: "int \<Rightarrow> bool \<Rightarrow> int \<Rightarrow> int option" where
  "demo_setup socket_r aton connect_r =
     (if socket_r < 0 then Some 1 else if \<not> aton then Some 1 else if connect_r \<noteq> 0 then Some 1 else None)"

text \<open>
  The events of all passes: each has what \<open>epoll_wait\<close> reports, as flags for input, error and
  output. One call of the handler makes one read of at most 1 MB.
\<close>

fun demo_loop :: "(bool \<times> bool \<times> bool) list \<Rightarrow> nat \<Rightarrow> demo_end" where
  "demo_loop [] reads = Looping reads"
| "demo_loop ((in', err, out) # evs) reads =
     (let reads1 = (if in' then reads + 1 else reads) in
      if err then Demo_Return 1 reads1 else demo_loop evs reads1)"

text \<open>
  The socket is watched edge-triggered, so that a reader has to read until nothing is left; the
  handler reads once. Of what arrives with one event at most 1 MB is taken: the number of reads
  is the number of input events up to the first error, which alone ends the program.
\<close>

theorem demo_reads_once:
  "demo_loop evs n =
     (case dropWhile (\<lambda>(i, e, u). \<not> e) evs of
        [] \<Rightarrow> Looping (n + length (filter fst evs))
      | (i, e, u) # _ \<Rightarrow> Demo_Return 1 (n + length (filter fst (takeWhile (\<lambda>(i, e, u). \<not> e) evs)) + (if i then 1 else 0)))"
proof (induction evs arbitrary: n)
  case (Cons x evs)
  obtain i e u where "x = (i, e, u)" by (cases x)
  then show ?case
    using Cons.IH [of "if i then n + 1 else n"]
    by (cases e; cases i) (auto simp del: dropWhile_eq_Nil_conv split: list.split)
qed simp

end
